(* ===== verification/C_Base.thy ===== *)
theory C_Base
  imports Main "HOL-Library.Char_ord" "HOL-Library.List_Lexorder" "HOL-Library.Sublist"
begin

text \<open>
  The prelude: what every component of the vtysh model shares.

  \<^item> \<open>outcome\<close> is the result of a piece of C code: it returns a value, it ends the process
    (\<open>exit\<close>), or nothing is defined about it (undefined behaviour of C such as a write past
    the end of a buffer, or a recursion that never returns).
  \<^item> C strings are lists of bytes: the bytes in front of the terminating NUL. Reading the NUL
    is the end of the list, and a pointer into a string is the suffix it points at.
  \<^item> The functions of the C library that the sources call: the \<open>ctype.h\<close> tests in the C
    locale, \<open>strcmp\<close>, \<open>strncmp\<close>, \<open>strchr\<close>, \<open>strspn\<close>, \<open>strtok\<close>,
    \<open>atoi\<close>, \<open>strtoul\<close>, \<open>sprintf\<close> into a buffer of fixed size, and
    \<open>printf\<close>-style formats with string arguments.
\<close>

named_theorems outcome_simps "the outcome monad"
named_theorems cstr_simps "C string functions as list functions"

section \<open>Outcomes\<close>

datatype 'a outcome = Ret 'a | Exit int | Undef

fun obind :: "'a outcome \<Rightarrow> ('a \<Rightarrow> 'b outcome) \<Rightarrow> 'b outcome" where
  "obind (Ret x) f = f x"
| "obind (Exit n) f = Exit n"
| "obind Undef f = Undef"

fun omap :: "('a \<Rightarrow> 'b) \<Rightarrow> 'a outcome \<Rightarrow> 'b outcome" where
  "omap f (Ret x) = Ret (f x)"
| "omap f (Exit n) = Exit n"
| "omap f Undef = Undef"

text \<open>A block of C statements that change one state, run in order.\<close>

fun run :: "('s \<Rightarrow> 's outcome) list \<Rightarrow> 's \<Rightarrow> 's outcome" where
  "run [] s = Ret s"
| "run (c # cs) s = obind (c s) (run cs)"

lemma obind_eq_Ret_iff [outcome_simps]:
  "obind m f = Ret y \<longleftrightarrow> (\<exists>x. m = Ret x \<and> f x = Ret y)"
  by (cases m) auto

lemma omap_eq_Ret_iff [outcome_simps]: "omap f m = Ret y \<longleftrightarrow> (\<exists>x. m = Ret x \<and> y = f x)"
  by (cases m) auto

lemma obind_cong [fundef_cong]:
  "m = m' \<Longrightarrow> (\<And>x. m' = Ret x \<Longrightarrow> f x = g x) \<Longrightarrow> obind m f = obind m' g"
  by (cases m') auto

lemma obind_assoc [simp]: "obind (obind m f) g = obind m (\<lambda>x. obind (f x) g)"
  by (cases m) auto

lemma obind_Ret_right [simp]: "obind m Ret = m"
  by (cases m) auto

lemma run_append [simp]: "run (cs @ ds) s = obind (run cs s) (run ds)"
proof (induction cs arbitrary: s)
  case (Cons c cs)
  then have "run (cs @ ds) = (\<lambda>x. obind (run cs x) (run ds))" by blast
  then show ?case by simp
qed simp

text \<open>An invariant that every statement of a block keeps is kept by the block.\<close>

lemma run_invariant:
  assumes "run cs s = Ret t" and "P s"
    and "\<And>c u v. c \<in> set cs \<Longrightarrow> P u \<Longrightarrow> c u = Ret v \<Longrightarrow> P v"
  shows "P t"
  using assms
proof (induction cs arbitrary: s)
  case Nil
  then show ?case by simp
next
  case (Cons c cs)
  then obtain u where u: "c s = Ret u" "run cs u = Ret t"
    by (auto simp: outcome_simps)
  with Cons.prems have "P u" by auto
  with u(2) show ?case using Cons.IH Cons.prems(3) by auto
qed

section \<open>Characters\<close>

definition chr_code :: "char \<Rightarrow> nat" where
  "chr_code c = of_char c"

definition NL :: string where
  "NL = [CHR 0x0A]"

definition isspace :: "char \<Rightarrow> bool" where
  "isspace c \<longleftrightarrow> c \<in> set [CHR '' '', CHR 0x09, CHR 0x0A, CHR 0x0B, CHR 0x0C, CHR 0x0D]"

definition isdigit :: "char \<Rightarrow> bool" where
  "isdigit c \<longleftrightarrow> c \<in> set ''0123456789''"

definition isalpha :: "char \<Rightarrow> bool" where
  "isalpha c \<longleftrightarrow> (65 \<le> chr_code c \<and> chr_code c \<le> 90) \<or> (97 \<le> chr_code c \<and> chr_code c \<le> 122)"

definition digit_val :: "char \<Rightarrow> nat" where
  "digit_val c = chr_code c - 48"

lemma chr_code_eq_iff [simp]: "chr_code a = chr_code b \<longleftrightarrow> a = b"
  by (simp add: chr_code_def)

lemma isdigit_code: "isdigit c \<longleftrightarrow> 48 \<le> chr_code c \<and> chr_code c \<le> 57"
proof
  assume "isdigit c"
  then show "48 \<le> chr_code c \<and> chr_code c \<le> 57"
    by (auto simp: isdigit_def chr_code_def)
next
  assume "48 \<le> chr_code c \<and> chr_code c \<le> 57"
  then have "chr_code c = 48 \<or> chr_code c = 49 \<or> chr_code c = 50 \<or> chr_code c = 51 \<or>
      chr_code c = 52 \<or> chr_code c = 53 \<or> chr_code c = 54 \<or> chr_code c = 55 \<or>
      chr_code c = 56 \<or> chr_code c = 57" by presburger
  then have "chr_code c \<in> chr_code ` set ''0123456789''"
    by (simp add: chr_code_def)
  then show "isdigit c"
    unfolding isdigit_def using inj_image_mem_iff [of chr_code c] by (simp add: inj_def)
qed

lemma digit_val_le_9: "isdigit c \<Longrightarrow> digit_val c \<le> 9"
  unfolding isdigit_code digit_val_def by arith

lemma isspace_not_digit [simp]: "isspace c \<Longrightarrow> \<not> isdigit c"
  by (auto simp: isspace_def isdigit_def)

section \<open>Comparing and searching strings\<close>

text \<open>C fixes only the sign of \<open>strcmp\<close>; bytes are compared as \<open>unsigned char\<close>.\<close>

fun strcmp :: "string \<Rightarrow> string \<Rightarrow> int" where
  "strcmp [] [] = 0"
| "strcmp [] (b # bs) = - 1"
| "strcmp (a # as) [] = 1"
| "strcmp (a # as) (b # bs) =
     (if a = b then strcmp as bs else if chr_code a < chr_code b then - 1 else 1)"

definition strncmp :: "string \<Rightarrow> string \<Rightarrow> nat \<Rightarrow> int" where
  "strncmp a b n = strcmp (take n a) (take n b)"

text \<open>\<open>strchr\<close> returns the suffix that starts at the first \<open>c\<close>, or NULL.\<close>

fun strchr :: "string \<Rightarrow> char \<Rightarrow> string option" where
  "strchr [] c = None"
| "strchr (a # as) c = (if a = c then Some (a # as) else strchr as c)"

fun strspn :: "string \<Rightarrow> string \<Rightarrow> nat" where
  "strspn [] acc = 0"
| "strspn (a # as) acc = (if a \<in> set acc then Suc (strspn as acc) else 0)"

lemma strcmp_eq_0_iff [simp, cstr_simps]: "strcmp a b = 0 \<longleftrightarrow> a = b"
  by (induction a b rule: strcmp.induct) auto

lemma strcmp_less_0_iff [cstr_simps]: "strcmp a b < 0 \<longleftrightarrow> a < b"
proof (induction a b rule: strcmp.induct)
  case (4 a as b bs)
  then show ?case
    by (auto simp: chr_code_def less_char_def)
qed auto

lemma strncmp_prefix_iff [simp, cstr_simps]:
  "strncmp a b (length a) = 0 \<longleftrightarrow> prefix a b"
  by (auto simp: strncmp_def prefix_def) (metis append_take_drop_id)

lemma strncmp_prefix_right_iff [cstr_simps]:
  "strncmp b a (length a) = 0 \<longleftrightarrow> prefix a b"
  by (auto simp: strncmp_def prefix_def) (metis append_take_drop_id)

lemma strchr_None_iff [simp]: "strchr s c = None \<longleftrightarrow> c \<notin> set s"
  by (induction s) auto

lemma strchr_SomeD:
  "strchr s c = Some t \<Longrightarrow> \<exists>u. s = u @ t \<and> c \<notin> set u \<and> (\<exists>v. t = c # v)"
proof (induction s)
  case Nil
  then show ?case by simp
next
  case (Cons a s)
  show ?case
  proof (cases "a = c")
    case True
    with Cons.prems show ?thesis by auto
  next
    case False
    with Cons obtain u where "s = u @ t" "c \<notin> set u" "\<exists>v. t = c # v" by auto
    with False show ?thesis by (intro exI [of _ "a # u"]) auto
  qed
qed

lemma strspn_full_iff [simp]: "strspn s acc = length s \<longleftrightarrow> set s \<subseteq> set acc"
  by (induction s) auto

section \<open>Numbers in strings\<close>

fun digits_val :: "nat \<Rightarrow> string \<Rightarrow> nat" where
  "digits_val n [] = n"
| "digits_val n (c # cs) = (if isdigit c then digits_val (10 * n + digit_val c) cs else n)"

text \<open>
  \<open>atoi\<close> skips white space, takes an optional sign and reads the digits that follow; no digit
  gives 0. C leaves a value outside \<open>int\<close> undefined; the C library of the target (musl)
  accumulates in a 32-bit \<open>int\<close>, which wraps.
\<close>

definition to_int32 :: "int \<Rightarrow> int" where
  "to_int32 x = (x + 2 ^ 31) mod 2 ^ 32 - 2 ^ 31"

definition atoi :: "string \<Rightarrow> int" where
  "atoi s =
     (let t = dropWhile isspace s in
      case t of
        [] \<Rightarrow> 0
      | c # cs \<Rightarrow>
          if c = CHR ''-'' then to_int32 (- int (digits_val 0 cs))
          else if c = CHR ''+'' then to_int32 (int (digits_val 0 cs))
          else to_int32 (int (digits_val 0 t)))"

text \<open>
  \<open>strtoul\<close> to base 10 on a 64-bit \<open>unsigned long\<close>: the value, clipped at
  \<open>ULONG_MAX\<close>, with a minus sign as negation modulo \<open>2 ^ 64\<close>, and the suffix
  \<open>endptr\<close> points at. With no digits the value is 0 and \<open>endptr\<close> is the argument itself.
\<close>

definition ULONG_MAX :: nat where
  "ULONG_MAX = 2 ^ 64 - 1"

definition strtoul :: "string \<Rightarrow> nat \<times> string" where
  "strtoul s =
     (let t = dropWhile isspace s;
          neg = (t \<noteq> [] \<and> hd t = CHR ''-'');
          ds = (if t \<noteq> [] \<and> (hd t = CHR ''-'' \<or> hd t = CHR ''+'') then tl t else t);
          v = digits_val 0 ds
      in if takeWhile isdigit ds = [] then (0, s)
         else (if v > ULONG_MAX then ULONG_MAX
               else if neg then (2 ^ 64 - v) mod 2 ^ 64 else v,
               dropWhile isdigit ds))"

lemma to_int32_small: "- (2 ^ 31) \<le> x \<Longrightarrow> x < 2 ^ 31 \<Longrightarrow> to_int32 x = x"
  by (simp add: to_int32_def)

lemma to_int32_range: "- (2 ^ 31) \<le> to_int32 x \<and> to_int32 x < 2 ^ 31"
proof -
  have "0 \<le> (x + 2 ^ 31) mod 2 ^ 32" "(x + 2 ^ 31) mod 2 ^ 32 < 2 ^ 32" for x :: int
    by simp_all
  from this [of x] show ?thesis by (simp add: to_int32_def)
qed

lemma digits_val_bound:
  "list_all isdigit s \<Longrightarrow> digits_val n s < (n + 1) * 10 ^ length s"
proof (induction s arbitrary: n)
  case Nil
  then show ?case by simp
next
  case (Cons c s)
  then have "digit_val c \<le> 9" and d: "isdigit c" by (auto intro: digit_val_le_9)
  have "digits_val (10 * n + digit_val c) s < (10 * n + digit_val c + 1) * 10 ^ length s"
    using Cons by simp
  also have "\<dots> \<le> (10 * n + 10) * 10 ^ length s"
    using \<open>digit_val c \<le> 9\<close> by (intro mult_right_mono) auto
  finally show ?case using d by (simp add: algebra_simps)
qed

text \<open>A string of at most nine digits is read as the number it spells.\<close>

lemma atoi_digits:
  assumes "list_all isdigit s" and "length s \<le> 9"
  shows "atoi s = int (digits_val 0 s)"
proof (cases s)
  case Nil
  then show ?thesis by (simp add: atoi_def)
next
  case (Cons c cs)
  with assms have c: "isdigit c" by simp
  then have ns: "\<not> isspace c" "c \<noteq> CHR ''-''" "c \<noteq> CHR ''+''"
    by (auto simp: isdigit_def isspace_def)
  have "digits_val 0 s < 10 ^ length s"
    using digits_val_bound [OF assms(1), of 0] by simp
  also have "\<dots> \<le> 10 ^ 9"
    using assms(2) by (intro power_increasing) auto
  finally have "int (digits_val 0 s) < 2 ^ 31" by simp
  with ns show ?thesis
    by (simp add: atoi_def Cons to_int32_small)
qed

text \<open>A string that starts with neither white space, nor a sign, nor a digit reads as 0.\<close>

lemma atoi_no_number:
  assumes "\<not> isspace c" "\<not> isdigit c" "c \<noteq> CHR ''-''" "c \<noteq> CHR ''+''"
  shows "atoi (c # cs) = 0"
  using assms by (simp add: atoi_def to_int32_def)

section \<open>Formats and buffers\<close>

text \<open>
  \<open>sprintf (buf, ...)\<close> into a buffer of \<open>n\<close> bytes, its output given: with no room for the
  output and its NUL it writes past the buffer. \<open>snprintf\<close> cuts its output off instead.
\<close>

definition sprintf :: "nat \<Rightarrow> string \<Rightarrow> string outcome" where
  "sprintf n out = (if length out < n then Ret out else Undef)"

definition snprintf :: "nat \<Rightarrow> string \<Rightarrow> string" where
  "snprintf n out = take (n - 1) out"

text \<open>
  The output of a \<open>printf\<close> format whose arguments are strings: \<open>%s\<close> takes the next
  argument, \<open>%%\<close> is a percent sign; a conversion with no argument left is undefined.
\<close>

fun vformat :: "string \<Rightarrow> string list \<Rightarrow> string outcome" where
  "vformat [] args = Ret []"
| "vformat [c] args = (if c = CHR ''%'' then Undef else Ret [c])"
| "vformat (c # d # f) args =
     (if c \<noteq> CHR ''%'' then omap (Cons c) (vformat (d # f) args)
      else if d = CHR ''%'' then omap (Cons d) (vformat f args)
      else if d = CHR ''s'' then
        (case args of [] \<Rightarrow> Undef | a # as \<Rightarrow> omap (append a) (vformat f as))
      else Undef)"

text \<open>\<open>%d\<close> of an \<open>int\<close>.\<close>

fun string_of_nat :: "nat \<Rightarrow> string" where
  "string_of_nat n =
     (if n < 10 then [char_of (48 + n)]
      else string_of_nat (n div 10) @ [char_of (48 + n mod 10)])"

declare string_of_nat.simps [simp del]

definition string_of_int :: "int \<Rightarrow> string" where
  "string_of_int i =
     (if i < 0 then CHR ''-'' # string_of_nat (nat (- i)) else string_of_nat (nat i))"

text \<open>Help texts and files: each line ends in a newline.\<close>

definition unlines_nl :: "string list \<Rightarrow> string" where
  "unlines_nl ls = concat (map (\<lambda>l. l @ NL) ls)"

lemma digit_char: "d < 10 \<Longrightarrow> isdigit (char_of (48 + d)) \<and> digit_val (char_of (48 + d)) = d"
  unfolding isdigit_code digit_val_def chr_code_def by simp

lemma digits_val_append:
  "list_all isdigit u \<Longrightarrow> digits_val n (u @ v) = digits_val (digits_val n u) v"
  by (induction u arbitrary: n) auto

lemma string_of_nat_digits: "list_all isdigit (string_of_nat n) \<and> string_of_nat n \<noteq> []"
proof (induction n rule: string_of_nat.induct)
  case (1 n)
  then show ?case by (subst (1 2) string_of_nat.simps) (use digit_char in auto)
qed

lemma digits_val_string_of_nat [simp]: "digits_val 0 (string_of_nat n) = n"
proof (induction n rule: string_of_nat.induct)
  case (1 n)
  show ?case
  proof (cases "n < 10")
    case True
    then show ?thesis using digit_char [of n] by (subst string_of_nat.simps) simp
  next
    case False
    then have "digits_val 0 (string_of_nat n) =
        digits_val (digits_val 0 (string_of_nat (n div 10))) [char_of (48 + n mod 10)]"
      using string_of_nat_digits by (subst string_of_nat.simps) (simp add: digits_val_append)
    with False 1 digit_char [of "n mod 10"] show ?thesis by simp
  qed
qed

lemma length_string_of_nat: "n < 10 ^ k \<Longrightarrow> 0 < k \<Longrightarrow> length (string_of_nat n) \<le> k"
proof (induction n arbitrary: k rule: string_of_nat.induct)
  case (1 n)
  show ?case
  proof (cases "n < 10")
    case True
    with 1 show ?thesis by (subst string_of_nat.simps) simp
  next
    case False
    then obtain j where k: "k = Suc j" "0 < j" using "1.prems" by (cases k; cases "k - 1") auto
    then have "n div 10 < 10 ^ j" using "1.prems" by (simp add: div_less_iff_less_mult mult.commute)
    with "1.IH" [OF False this k(2)] False k show ?thesis by (subst string_of_nat.simps) simp
  qed
qed

lemma strtoul_digits:
  assumes "list_all isdigit s" and "s \<noteq> []" and "digits_val 0 s \<le> ULONG_MAX"
  shows "strtoul s = (digits_val 0 s, [])"
proof -
  obtain c cs where s: "s = c # cs" "isdigit c" using assms by (cases s) auto
  then have "\<not> isspace c" "c \<noteq> CHR ''-''" "c \<noteq> CHR ''+''" by (auto simp: isdigit_def isspace_def)
  moreover have "takeWhile isdigit s = s" "dropWhile isdigit s = []"
    using assms(1) by (auto simp: list_all_iff takeWhile_eq_all_conv dropWhile_eq_Nil_conv)
  ultimately show ?thesis using assms s by (simp add: strtoul_def Let_def)
qed

lemma strtoul_overflow:
  assumes "list_all isdigit s" and "digits_val 0 s > ULONG_MAX"
  shows "strtoul s = (ULONG_MAX, [])"
proof -
  obtain c cs where s: "s = c # cs" "isdigit c" using assms by (cases s) auto
  then have "\<not> isspace c" "c \<noteq> CHR ''-''" "c \<noteq> CHR ''+''" by (auto simp: isdigit_def isspace_def)
  moreover have "takeWhile isdigit s = s" "dropWhile isdigit s = []"
    using assms(1) by (auto simp: list_all_iff takeWhile_eq_all_conv dropWhile_eq_Nil_conv)
  ultimately show ?thesis using assms s by (simp add: strtoul_def Let_def)
qed

lemma sprintf_Ret_iff [outcome_simps]: "sprintf n out = Ret x \<longleftrightarrow> length out < n \<and> x = out"
  by (auto simp: sprintf_def)

lemma snprintf_fits [simp]: "length out < n \<Longrightarrow> snprintf n out = out"
  by (simp add: snprintf_def)

lemma length_snprintf: "0 < n \<Longrightarrow> length (snprintf n out) < n"
  by (simp add: snprintf_def)

lemma vformat_plain: "CHR ''%'' \<notin> set f \<Longrightarrow> vformat f args = Ret f"
  by (induction f args rule: vformat.induct) auto

section \<open>strtok\<close>

text \<open>
  \<open>strtok\<close> with one delimiter: the tokens that the calls \<open>strtok (s, d)\<close>,
  \<open>strtok (NULL, d)\<close>, \<dots> return, in order; NULL when they are used up.
\<close>

function strtok_all :: "char \<Rightarrow> string \<Rightarrow> string list" where
  "strtok_all d s =
     (let t = dropWhile (\<lambda>c. c = d) s in
      if t = [] then []
      else takeWhile (\<lambda>c. c \<noteq> d) t # strtok_all d (dropWhile (\<lambda>c. c \<noteq> d) t))"
  by pat_completeness auto
termination
proof (relation "measure (\<lambda>(d, s). length s)", goal_cases)
  case (2 d s t)
  then have t: "t \<noteq> []" "hd t \<noteq> d"
    using hd_dropWhile [of "\<lambda>c. c = d" s] by (simp_all del: dropWhile_eq_Nil_conv)
  then have "length (dropWhile (\<lambda>c. c \<noteq> d) t) < length t"
    by (cases t) (auto simp: less_Suc_eq_le length_dropWhile_le)
  also have "length t \<le> length s" using 2 by (simp add: length_dropWhile_le)
  finally show ?case by simp
qed auto

declare strtok_all.simps [simp del]

lemma strtok_all_Nil [simp]: "strtok_all d [] = []"
  by (simp add: strtok_all.simps)

lemma strtok_all_delim [simp]: "strtok_all d (d # s) = strtok_all d s"
  by (subst (1 2) strtok_all.simps) simp

lemma strtok_all_word:
  assumes "w \<noteq> []" and "d \<notin> set w"
  shows "strtok_all d (w @ d # s) = w # strtok_all d s"
proof -
  from assms have "hd w \<noteq> d" by (cases w) auto
  with assms have a: "dropWhile (\<lambda>c. c = d) (w @ d # s) = w @ d # s"
    by (cases w) auto
  have b: "takeWhile (\<lambda>c. c \<noteq> d) (w @ d # s) = w" "dropWhile (\<lambda>c. c \<noteq> d) (w @ d # s) = d # s"
    using assms(2) by (auto simp: takeWhile_append dropWhile_append)
  show ?thesis
    by (subst strtok_all.simps) (simp add: a b)
qed

lemma strtok_all_last:
  assumes "w \<noteq> []" and "d \<notin> set w"
  shows "strtok_all d w = [w]"
proof -
  from assms have a: "dropWhile (\<lambda>c. c = d) w = w" by (cases w) auto
  have b: "takeWhile (\<lambda>c. c \<noteq> d) w = w" "dropWhile (\<lambda>c. c \<noteq> d) w = []"
    using assms(2) by (auto simp: takeWhile_eq_all_conv dropWhile_eq_Nil_conv)
  show ?thesis
    using assms(1) by (subst strtok_all.simps) (simp add: a b)
qed

text \<open>Words joined by single delimiters, and \<open>strtok\<close> as its inverse.\<close>

fun join :: "char \<Rightarrow> string list \<Rightarrow> string" where
  "join d [] = []"
| "join d [w] = w"
| "join d (w # v # ws) = w @ d # join d (v # ws)"

lemma strtok_all_join:
  "(\<And>w. w \<in> set ws \<Longrightarrow> w \<noteq> [] \<and> d \<notin> set w) \<Longrightarrow> strtok_all d (join d ws) = ws"
  by (induction d ws rule: join.induct) (auto simp: strtok_all_word strtok_all_last)

lemma strtok_all_tokens: "w \<in> set (strtok_all d s) \<Longrightarrow> w \<noteq> [] \<and> d \<notin> set w"
proof (induction d s rule: strtok_all.induct)
  case (1 d s)
  let ?t = "dropWhile (\<lambda>c. c = d) s"
  show ?case
  proof (cases "?t = []")
    case True
    with "1.prems" strtok_all.simps [of d s] show ?thesis by simp
  next
    case False
    then have hd: "hd ?t \<noteq> d" by (rule hd_dropWhile)
    have "w = takeWhile (\<lambda>c. c \<noteq> d) ?t \<or> w \<in> set (strtok_all d (dropWhile (\<lambda>c. c \<noteq> d) ?t))"
      using "1.prems" strtok_all.simps [of d s] False by (auto simp: Let_def simp del: dropWhile_eq_Nil_conv)
    moreover have "takeWhile (\<lambda>c. c \<noteq> d) ?t \<noteq> []" "d \<notin> set (takeWhile (\<lambda>c. c \<noteq> d) ?t)"
      using False hd by (cases ?t; auto dest: set_takeWhileD)+
    ultimately show ?thesis using "1.IH" [OF refl False] by auto
  qed
qed

section \<open>Reading files line by line\<close>

text \<open>
  \<open>fgets (buf, n, fp)\<close> on a file whose remaining content is given: at most \<open>n - 1\<close> bytes,
  up to and with the first newline; NULL at the end of the file. The successive results of a loop
  \<open>while (fgets (buf, n, fp))\<close> are \<open>fgets_all\<close>. A buffer of less than two bytes
  never makes progress.
\<close>

definition fgets :: "nat \<Rightarrow> string \<Rightarrow> (string \<times> string) option" where
  "fgets n f =
     (let k = min (n - 1) (Suc (length (takeWhile (\<lambda>c. c \<noteq> CHR 0x0A) f)))
      in if f = [] then None else Some (take k f, drop k f))"

function fgets_all :: "nat \<Rightarrow> string \<Rightarrow> string list" where
  "fgets_all n f =
     (if n < 2 then []
      else case fgets n f of None \<Rightarrow> [] | Some (l, r) \<Rightarrow> l # fgets_all n r)"
  by pat_completeness auto
termination
  by (relation "measure (\<lambda>(n, f). length f)") (auto simp: fgets_def Let_def split: if_splits)

declare fgets_all.simps [simp del]

text \<open>The C string in a buffer ends at its first NUL.\<close>

definition cstr :: "string \<Rightarrow> string" where
  "cstr s = takeWhile (\<lambda>c. c \<noteq> CHR 0x00) s"

text \<open>\<open>buf[strlen (buf) - 1] = 0\<close>: on an empty string it writes in front of the buffer.\<close>

definition cut_last :: "string \<Rightarrow> string outcome" where
  "cut_last s = (if s = [] then Undef else Ret (butlast s))"

lemma fgets_all_Nil [simp]: "fgets_all n [] = []"
  by (subst fgets_all.simps) (simp add: fgets_def)

lemma fgets_line:
  assumes "CHR 0x0A \<notin> set l" and "length l + 2 \<le> n"
  shows "fgets n (l @ NL @ f) = Some (l @ NL, f)"
proof -
  have "takeWhile (\<lambda>c. c \<noteq> CHR 0x0A) (l @ NL @ f) = l"
    using assms(1) by (auto simp: NL_def takeWhile_append)
  with assms(2) show ?thesis by (simp add: fgets_def Let_def NL_def)
qed

lemma fgets_all_line:
  assumes "CHR 0x0A \<notin> set l" and "length l + 2 \<le> n"
  shows "fgets_all n (l @ NL @ f) = (l @ NL) # fgets_all n f"
  using fgets_line [OF assms, of f] assms(2) by (subst fgets_all.simps) simp

lemma fgets_all_unlines:
  "(\<And>l. l \<in> set ls \<Longrightarrow> CHR 0x0A \<notin> set l \<and> length l + 2 \<le> n) \<Longrightarrow>
     fgets_all n (unlines_nl ls @ f) = map (\<lambda>l. l @ NL) ls @ fgets_all n f"
  by (induction ls) (simp_all add: unlines_nl_def fgets_all_line)

lemma fgets_all_length: "l \<in> set (fgets_all n f) \<Longrightarrow> l \<noteq> [] \<and> length l < n"
proof (induction n f rule: fgets_all.induct)
  case (1 n f)
  show ?case
  proof (cases "n < 2 \<or> fgets n f = None")
    case True
    with "1.prems" fgets_all.simps [of n f] show ?thesis by (auto split: if_splits)
  next
    case False
    then obtain l' r where f: "\<not> n < 2" "fgets n f = Some (l', r)" by auto
    then have "l = l' \<or> l \<in> set (fgets_all n r)" using "1.prems" fgets_all.simps [of n f] by auto
    moreover have "l' \<noteq> [] \<and> length l' < n"
      using f by (auto simp: fgets_def Let_def split: if_splits)
    ultimately show ?thesis using "1.IH" [OF f refl] by auto
  qed
qed

section \<open>The interface of a data structure: a bounded simulation\<close>

text \<open>
  What a client of one of the C containers relies on: through the abstraction \<open>abs\<close>, every
  operation of the code does what the corresponding operation on the abstract value does, as long
  as the structure is well formed and the sizes stay within \<open>limit\<close>. The client then reasons
  about whole sequences of operations on the abstract value.
\<close>

fun run_ops :: "('c \<Rightarrow> 'op \<Rightarrow> 'c outcome) \<Rightarrow> 'c \<Rightarrow> 'op list \<Rightarrow> 'c outcome" where
  "run_ops step c [] = Ret c"
| "run_ops step c (x # xs) = obind (step c x) (\<lambda>c'. run_ops step c' xs)"

locale bounded_simulation =
  fixes abs :: "'c \<Rightarrow> 'a" and invar :: "'c \<Rightarrow> bool"
    and step :: "'c \<Rightarrow> 'op \<Rightarrow> 'c outcome" and astep :: "'a \<Rightarrow> 'op \<Rightarrow> 'a"
    and weight :: "'op \<Rightarrow> nat" and asize :: "'a \<Rightarrow> nat" and limit :: nat
  assumes step_sim: "invar c \<Longrightarrow> asize (abs c) + weight x \<le> limit \<Longrightarrow>
      \<exists>c'. step c x = Ret c' \<and> invar c' \<and> abs c' = astep (abs c) x"
    and asize_step: "asize (astep a x) \<le> asize a + weight x"
begin

lemma run_sim:
  "invar c \<Longrightarrow> asize (abs c) + sum_list (map weight xs) \<le> limit \<Longrightarrow>
     \<exists>c'. run_ops step c xs = Ret c' \<and> invar c' \<and> abs c' = foldl astep (abs c) xs"
proof (induction xs arbitrary: c)
  case Nil
  then show ?case by simp
next
  case (Cons x xs)
  then obtain c' where c': "step c x = Ret c'" "invar c'" "abs c' = astep (abs c) x"
    using step_sim [of c x] by auto
  have "asize (abs c') + sum_list (map weight xs) \<le> limit"
    using Cons.prems(2) asize_step [of "abs c" x] c'(3) by simp
  from Cons.IH [OF c'(2) this] c' show ?case by auto
qed

end

end
