(* ===== verification/Encoding.thy ===== *)
theory Encoding
  imports C_Base "HOL-Library.Word"
begin

text \<open>
  The constant-time base64 and hex coders for WireGuard keys of
  \<open>src/wgshell/vtysh/encoding.c\<close>.

  A key is a list of bytes (\<open>8 word\<close>). C promotes bytes and characters to \<open>int\<close>; those
  expressions stay far inside 32 bits and are written over \<open>int\<close> with arithmetic shifts
  (\<open>drop_bit\<close> on \<open>int\<close>), as the compilers of the target do for negative values. The hex
  coder computes with \<open>unsigned int\<close> operands that do wrap; they are \<open>32 word\<close>s, and each
  assignment to a \<open>uint8_t\<close> is a \<open>ucast\<close>.

  Whether plain \<open>char\<close> is signed differs between the gateway (ARM, unsigned) and a PC: the
  decoder takes it as a parameter, and the theorems hold for both.
\<close>

unbundle bit_operations_syntax

type_synonym byte = "8 word"

definition WG_KEY_LEN :: nat where
  "WG_KEY_LEN = 32"

definition WG_KEY_LEN_BASE64 :: nat where
  "WG_KEY_LEN_BASE64 = ((WG_KEY_LEN + 2) div 3) * 4 + 1"

definition WG_KEY_LEN_HEX :: nat where
  "WG_KEY_LEN_HEX = WG_KEY_LEN * 2 + 1"

section \<open>Base64\<close>

text \<open>One output character, from a 6-bit value.\<close>

definition b64_char :: "int \<Rightarrow> char" where
  "b64_char x =
     char_of (x + 65
       + (drop_bit 8 (25 - x) AND 6)
       - (drop_bit 8 (51 - x) AND 75)
       - (drop_bit 8 (61 - x) AND 15)
       + (drop_bit 8 (62 - x) AND 3))"

definition encode_base64 :: "byte \<Rightarrow> byte \<Rightarrow> byte \<Rightarrow> string" where
  "encode_base64 src0 src1 src2 =
     map b64_char
       [drop_bit 2 (uint src0) AND 63,
        (push_bit 4 (uint src0) OR drop_bit 4 (uint src1)) AND 63,
        (push_bit 2 (uint src1) OR drop_bit 6 (uint src2)) AND 63,
        uint src2 AND 63]"

definition key_to_base64 :: "byte list \<Rightarrow> string" where
  "key_to_base64 key =
     (concat (map (\<lambda>i. encode_base64 (key ! (i * 3)) (key ! (i * 3 + 1)) (key ! (i * 3 + 2)))
        [0..<WG_KEY_LEN div 3])
      @ encode_base64 (key ! (WG_KEY_LEN div 3 * 3)) (key ! (WG_KEY_LEN div 3 * 3 + 1)) 0)
     [WG_KEY_LEN_BASE64 - 2 := CHR ''='']"

definition char_val :: "bool \<Rightarrow> char \<Rightarrow> int" where
  "char_val is_signed c =
     (let n = int (chr_code c) in if is_signed \<and> 128 \<le> n then n - 256 else n)"

definition b64_digit :: "bool \<Rightarrow> char \<Rightarrow> int" where
  "b64_digit sg ch =
     (let c = char_val sg ch in
       - 1
       + (drop_bit 8 ((64 - c) AND (c - 91)) AND (c - 64))
       + (drop_bit 8 ((96 - c) AND (c - 123)) AND (c - 70))
       + (drop_bit 8 ((47 - c) AND (c - 58)) AND (c + 5))
       + (drop_bit 8 ((42 - c) AND (c - 44)) AND 63)
       + (drop_bit 8 ((46 - c) AND (c - 48)) AND 64))"

definition decode_base64 :: "bool \<Rightarrow> char \<Rightarrow> char \<Rightarrow> char \<Rightarrow> char \<Rightarrow> int" where
  "decode_base64 sg c0 c1 c2 c3 =
     push_bit 18 (b64_digit sg c0) OR push_bit 12 (b64_digit sg c1) OR
     push_bit 6 (b64_digit sg c2) OR push_bit 0 (b64_digit sg c3)"

text \<open>\<open>(uint32_t) val >> 31\<close>.\<close>

definition sign_bit :: "int \<Rightarrow> byte" where
  "sign_bit val = word_of_int (drop_bit 31 (take_bit 32 val))"

definition byte_at :: "nat \<Rightarrow> int \<Rightarrow> byte" where
  "byte_at n val = word_of_int (drop_bit n val AND 255)"

text \<open>\<open>1 & ((ret - 1) >> 8)\<close> as a truth value.\<close>

definition ret_ok :: "byte \<Rightarrow> bool" where
  "ret_ok ret \<longleftrightarrow> 1 AND drop_bit 8 (uint ret - 1) \<noteq> 0"

text \<open>The loop over the full groups: the accumulated \<open>ret\<close> and the decoded bytes.\<close>

fun decode_groups :: "bool \<Rightarrow> string \<Rightarrow> nat \<Rightarrow> nat \<Rightarrow> byte \<Rightarrow> byte list \<Rightarrow> byte \<times> byte list" where
  "decode_groups sg s i 0 ret key = (ret, key)"
| "decode_groups sg s i (Suc n) ret key =
     (let val = decode_base64 sg (s ! (i * 4)) (s ! (i * 4 + 1)) (s ! (i * 4 + 2)) (s ! (i * 4 + 3))
      in decode_groups sg s (Suc i) n (ret OR sign_bit val)
           (key @ [byte_at 16 val, byte_at 8 val, byte_at 0 val]))"

definition key_from_base64 :: "bool \<Rightarrow> string \<Rightarrow> byte list option" where
  "key_from_base64 sg base64 =
     (if length base64 \<noteq> WG_KEY_LEN_BASE64 - 1 \<or> base64 ! (WG_KEY_LEN_BASE64 - 2) \<noteq> CHR ''=''
      then None
      else
        let (ret, key) = decode_groups sg base64 0 (WG_KEY_LEN div 3) 0 [];
            i = WG_KEY_LEN div 3;
            val = decode_base64 sg (base64 ! (i * 4)) (base64 ! (i * 4 + 1)) (base64 ! (i * 4 + 2)) (CHR ''A'');
            ret = ret OR (sign_bit val OR byte_at 0 val);
            key = key @ [byte_at 16 val, byte_at 8 val]
        in if ret_ok ret then Some key else None)"

section \<open>Hex\<close>

definition hex_char :: "32 word \<Rightarrow> char" where
  "hex_char x = char_of (unat (ucast (87 + x + (drop_bit 8 (x - 10) AND NOT 38)) :: byte))"

definition key_to_hex :: "byte list \<Rightarrow> string" where
  "key_to_hex key =
     concat (map (\<lambda>i. [hex_char (drop_bit 4 (ucast (key ! i))), hex_char (ucast (key ! i) AND 15)])
       [0..<WG_KEY_LEN])"

text \<open>The value and the error mask of one hex digit: \<open>c_val\<close> and the bits or-ed into \<open>ret\<close>.\<close>

definition hex_digit :: "char \<Rightarrow> byte \<times> byte" where
  "hex_digit ch =
     (let c = (of_nat (chr_code ch) :: byte);
          c_num = (ucast ((ucast c :: 32 word) XOR 48) :: byte);
          c_num0 = (ucast (drop_bit 8 ((ucast c_num :: 32 word) - 10)) :: byte);
          c_alpha = (ucast (((ucast c :: 32 word) AND NOT 32) - 55) :: byte);
          c_alpha0 = (ucast (drop_bit 8 (((ucast c_alpha :: 32 word) - 10) XOR
                        ((ucast c_alpha :: 32 word) - 16))) :: byte);
          bad = (word_of_int (drop_bit 8 (uint (c_num0 OR c_alpha0) - 1)) :: byte);
          c_val = (c_num0 AND c_num) OR (c_alpha0 AND c_alpha)
      in (c_val, bad))"

fun hex_pairs :: "string \<Rightarrow> byte \<Rightarrow> byte list \<Rightarrow> byte \<times> byte list" where
  "hex_pairs (c # d # s) ret key =
     (let (v1, e1) = hex_digit c; c_acc = v1 * 16; (v2, e2) = hex_digit d
      in hex_pairs s (ret OR e1 OR e2) (key @ [c_acc OR v2]))"
| "hex_pairs s ret key = (ret, key)"

definition key_from_hex :: "string \<Rightarrow> byte list option" where
  "key_from_hex hex =
     (if length hex \<noteq> WG_KEY_LEN_HEX - 1 then None
      else let (ret, key) = hex_pairs hex 0 [] in if ret_ok ret then Some key else None)"

definition key_is_zero :: "byte list \<Rightarrow> bool" where
  "key_is_zero key \<longleftrightarrow> ret_ok (foldl (OR) 0 key)"

section \<open>Single characters against the RFC 4648 alphabet\<close>

definition b64_alphabet :: string where
  "b64_alphabet = ''ABCDEFGHIJKLMNOPQRSTUVWXYZabcdefghijklmnopqrstuvwxyz0123456789+/''"

text \<open>The digit a character stands for; -1 for a character outside the alphabet.\<close>

definition b64_index :: "char \<Rightarrow> int" where
  "b64_index c =
     (let n = int (chr_code c) in
      if 65 \<le> n \<and> n \<le> 90 then n - 65
      else if 97 \<le> n \<and> n \<le> 122 then n - 71
      else if 48 \<le> n \<and> n \<le> 57 then n + 4
      else if n = 43 then 62
      else if n = 47 then 63
      else - 1)"

lemma chr_code_less: "chr_code c < 256"
  by (simp add: chr_code_def)

lemma char_val_range: "- 128 \<le> char_val sg c \<and> char_val sg c < 256"
  using chr_code_less [of c] by (auto simp: char_val_def Let_def)

text \<open>\<open>x >> 8\<close> of a small number: all ones when it is negative, else zero.\<close>

lemma shift_mask:
  fixes x :: int
  assumes "- 256 \<le> x" "x < 256"
  shows "drop_bit 8 x = (if x < 0 then - 1 else 0)"
proof (cases "x < 0")
  case True
  have "x div 256 = - 1" using assms True by presburger
  with True show ?thesis by (simp add: drop_bit_eq_div)
next
  case False
  with assms show ?thesis by (simp add: drop_bit_eq_div)
qed

lemma b64_digit_index: "b64_digit sg c = b64_index c"
proof -
  define v where "v = char_val sg c"
  have r: "- 128 \<le> v" "v < 256" using char_val_range [of sg c] by (simp_all add: v_def)
  have "b64_digit sg c =
      - 1 + (if 64 < v \<and> v < 91 then v - 64 else 0) + (if 96 < v \<and> v < 123 then v - 70 else 0)
      + (if 47 < v \<and> v < 58 then v + 5 else 0) + (if 42 < v \<and> v < 44 then 63 else 0)
      + (if 46 < v \<and> v < 48 then 64 else 0)"
    using r unfolding b64_digit_def Let_def v_def [symmetric] by (simp add: shift_mask)
  also have "\<dots> = b64_index c"
    using chr_code_less [of c] unfolding v_def char_val_def b64_index_def Let_def by auto
  finally show ?thesis .
qed

lemma b64_char_table: "map b64_char [0..63] = b64_alphabet"
  by code_simp

lemma b64_char_alphabet:
  assumes "n < 64"
  shows "b64_char (int n) = b64_alphabet ! n"
proof -
  have "b64_char (int n) = map b64_char [0..63] ! n" using assms by (simp add: nth_upto)
  then show ?thesis by (simp only: b64_char_table)
qed

lemma chr_code_char_of: "0 \<le> k \<Longrightarrow> k < 256 \<Longrightarrow> int (chr_code (char_of (k :: int))) = k"
  by (simp add: chr_code_def of_nat_of_char)

lemma b64_char_code:
  assumes "0 \<le> x" "x < 64"
  shows "int (chr_code (b64_char x)) =
    (if x < 26 then x + 65 else if x < 52 then x + 71 else if x < 62 then x - 4
     else if x = 62 then 43 else 47)"
proof -
  have "b64_char x = char_of (if x < 26 then x + 65 else if x < 52 then x + 71
      else if x < 62 then x - 4 else if x = 62 then 43 else 47 :: int)"
    using assms unfolding b64_char_def by (simp add: shift_mask)
  then show ?thesis using assms by (simp add: chr_code_char_of)
qed

lemma b64_digit_char:
  assumes "0 \<le> x" "x < 64"
  shows "b64_digit sg (b64_char x) = x"
  unfolding b64_digit_index b64_index_def Let_def b64_char_code [OF assms] using assms by auto

lemma b64_index_inj:
  assumes "b64_index c = b64_index d" and "0 \<le> b64_index c"
  shows "c = d"
proof -
  have "int (chr_code c) = int (chr_code d)"
    using assms unfolding b64_index_def Let_def by (simp split: if_splits del: chr_code_eq_iff)
  then show ?thesis by simp
qed

lemma b64_index_bounds: "- 1 \<le> b64_index c \<and> b64_index c < 64"
  by (auto simp: b64_index_def Let_def)

lemma b64_char_digit:
  assumes "0 \<le> b64_digit sg c"
  shows "b64_char (b64_digit sg c) = c"
proof -
  let ?x = "b64_digit sg c"
  have "?x < 64" using b64_index_bounds [of c] by (simp add: b64_digit_index)
  then have "b64_digit sg (b64_char ?x) = ?x" using assms by (intro b64_digit_char) auto
  then show ?thesis using assms b64_index_inj by (simp add: b64_digit_index)
qed

section \<open>Groups of three bytes\<close>

definition pack4 :: "int \<Rightarrow> int \<Rightarrow> int \<Rightarrow> int \<Rightarrow> int" where
  "pack4 x0 x1 x2 x3 = push_bit 18 x0 OR push_bit 12 x1 OR push_bit 6 x2 OR push_bit 0 x3"

definition bytes3 :: "int \<Rightarrow> byte list" where
  "bytes3 val = [byte_at 16 val, byte_at 8 val, byte_at 0 val]"

definition sextets :: "byte \<Rightarrow> byte \<Rightarrow> byte \<Rightarrow> int list" where
  "sextets a b c =
     [drop_bit 2 (uint a) AND 63, (push_bit 4 (uint a) OR drop_bit 4 (uint b)) AND 63,
      (push_bit 2 (uint b) OR drop_bit 6 (uint c)) AND 63, uint c AND 63]"

lemma mask_6: "(63 :: int) = mask 6" and mask_8: "(255 :: int) = mask 8"
  by (simp_all add: mask_eq_exp_minus_1)

lemma bit_byte_at: "bit (byte_at k val) n \<longleftrightarrow> n < 8 \<and> bit val (k + n)"
  by (auto simp: byte_at_def mask_8 bit_simps)

lemma bit_byte_False [simp]: "8 \<le> n \<Longrightarrow> \<not> bit (a :: byte) n"
  using bit_imp_le_length [of a n] by auto

lemma byte_eqI:
  assumes "\<And>n. n < 8 \<Longrightarrow> bit (a :: byte) n = bit b n"
  shows "a = b"
  using assms by (intro bit_word_eqI) simp

lemma less_8_cases: "(n :: nat) < 8 \<Longrightarrow> n \<in> {0, 1, 2, 3, 4, 5, 6, 7}"
  by auto

lemma bytes3_sextets:
  "bytes3 (pack4 (sextets a b c ! 0) (sextets a b c ! 1) (sextets a b c ! 2) (sextets a b c ! 3))
   = [a, b, c]"
  unfolding bytes3_def sextets_def pack4_def mask_6
  by (auto intro!: byte_eqI dest!: less_8_cases simp: bit_byte_at bit_simps
        simp flip: numeral_2_eq_2)

text \<open>A 6-bit number is its own low six bits.\<close>

lemma sextet_take_bit: "0 \<le> x \<Longrightarrow> x < 64 \<Longrightarrow> take_bit 6 x = (x :: int)"
  by (simp add: take_bit_eq_mod)

lemma bit_sextet: "0 \<le> x \<Longrightarrow> x < 64 \<Longrightarrow> bit (x :: int) n \<longleftrightarrow> n < 6 \<and> bit x n"
  using sextet_take_bit [of x] by (metis bit_take_bit_iff)

lemma sextet_eqI:
  assumes "0 \<le> y" "y < 64" and "\<And>n. n < 6 \<Longrightarrow> bit x n = bit y n"
  shows "(x :: int) AND 63 = y"
proof (rule bit_eqI)
  fix n :: nat
  show "bit (x AND 63) n = bit y n"
    using assms(3) bit_sextet [OF assms(1,2), of n] by (auto simp: mask_6 bit_simps)
qed

lemma less_6_cases: "(n :: nat) < 6 \<Longrightarrow> n \<in> {0, 1, 2, 3, 4, 5}"
  by auto

lemma sextet_high: "0 \<le> x \<Longrightarrow> x < 64 \<Longrightarrow> 6 \<le> n \<Longrightarrow> \<not> bit (x :: int) n"
  using bit_sextet [of x n] by auto

lemma sextets_bytes3:
  assumes r: "0 \<le> x0" "x0 < 64" "0 \<le> x1" "x1 < 64" "0 \<le> x2" "x2 < 64" "0 \<le> x3" "x3 < 64"
  shows "sextets (byte_at 16 (pack4 x0 x1 x2 x3)) (byte_at 8 (pack4 x0 x1 x2 x3))
           (byte_at 0 (pack4 x0 x1 x2 x3)) = [x0, x1, x2, x3]"
proof -
  note h = sextet_high [OF r(1,2)] sextet_high [OF r(3,4)] sextet_high [OF r(5,6)]
    sextet_high [OF r(7,8)]
  let ?v = "pack4 x0 x1 x2 x3"
  have v: "bit ?v n \<longleftrightarrow> (18 \<le> n \<and> bit x0 (n - 18)) \<or> (12 \<le> n \<and> bit x1 (n - 12)) \<or>
      (6 \<le> n \<and> bit x2 (n - 6)) \<or> bit x3 n" for n
    by (simp add: pack4_def bit_simps)
  have "drop_bit 2 (uint (byte_at 16 ?v)) AND 63 = x0"
    by (rule sextet_eqI [OF r(1,2)], drule less_6_cases)
      (auto simp: bit_byte_at bit_simps v h)
  moreover have "(push_bit 4 (uint (byte_at 16 ?v)) OR drop_bit 4 (uint (byte_at 8 ?v))) AND 63 = x1"
    by (rule sextet_eqI [OF r(3,4)], drule less_6_cases)
      (auto simp: bit_byte_at bit_simps v h)
  moreover have "(push_bit 2 (uint (byte_at 8 ?v)) OR drop_bit 6 (uint (byte_at 0 ?v))) AND 63 = x2"
    by (rule sextet_eqI [OF r(5,6)], drule less_6_cases)
      (auto simp: bit_byte_at bit_simps v h simp flip: numeral_2_eq_2 numeral_3_eq_3)
  moreover have "uint (byte_at 0 ?v) AND 63 = x3"
    by (rule sextet_eqI [OF r(7,8)], drule less_6_cases)
      (auto simp: bit_byte_at bit_simps v h)
  ultimately show ?thesis by (simp add: sextets_def)
qed

section \<open>Whole keys\<close>

definition group_val :: "bool \<Rightarrow> string \<Rightarrow> nat \<Rightarrow> int" where
  "group_val sg s j = decode_base64 sg (s ! (j * 4)) (s ! (j * 4 + 1)) (s ! (j * 4 + 2)) (s ! (j * 4 + 3))"

lemma encode_base64_sextets: "encode_base64 a b c = map b64_char (sextets a b c)"
  by (simp add: encode_base64_def sextets_def)

lemma length_encode_base64 [simp]: "length (encode_base64 a b c) = 4"
  by (simp add: encode_base64_def)

lemma decode_base64_pack4:
  "decode_base64 sg a b c d = pack4 (b64_digit sg a) (b64_digit sg b) (b64_digit sg c) (b64_digit sg d)"
  by (simp add: decode_base64_def pack4_def)

lemma and_63_bounds: "0 \<le> (x :: int) AND 63 \<and> x AND 63 < 64"
  using take_bit_int_less_exp [of 6 x] unfolding mask_6 take_bit_eq_mask [symmetric] by simp

lemma sextets_bounds: "x \<in> set (sextets a b c) \<Longrightarrow> 0 \<le> x \<and> x < 64"
  unfolding sextets_def using and_63_bounds by (auto simp del: bit.conj_disj_distrib2)

lemma encode_decode_base64:
  assumes "\<And>ch. ch \<in> {c0, c1, c2, c3} \<Longrightarrow> 0 \<le> b64_digit sg ch"
    and "val = decode_base64 sg c0 c1 c2 c3"
  shows "encode_base64 (byte_at 16 val) (byte_at 8 val) (byte_at 0 val) = [c0, c1, c2, c3]"
proof -
  have "b64_digit sg ch < 64" for ch using b64_index_bounds by (simp add: b64_digit_index)
  with assms show ?thesis
    by (simp add: encode_base64_sextets decode_base64_pack4 sextets_bytes3 b64_char_digit)
qed

text \<open>The sign bit of a group's value is set exactly if some character is outside the alphabet.\<close>

lemma sign_bit_of_bool: "sign_bit val = of_bool (bit val 31)"
proof -
  have "drop_bit 31 (take_bit 32 val) = take_bit 1 (drop_bit 31 val)"
    by (simp add: drop_bit_take_bit)
  also have "\<dots> = of_bool (bit val 31)"
    by (simp only: take_bit_Suc_0 One_nat_def bit_iff_odd_drop_bit mod_2_eq_odd)
  finally show ?thesis by (simp add: sign_bit_def)
qed

lemma bit_digit_high:
  assumes "6 \<le> n"
  shows "bit (b64_digit sg c) n \<longleftrightarrow> b64_digit sg c < 0"
proof (cases "b64_index c < 0")
  case True
  with b64_index_bounds [of c] have "b64_index c = - 1" by linarith
  then show ?thesis by (simp add: b64_digit_index)
next
  case False
  with assms b64_index_bounds [of c] sextet_high [of "b64_index c" n] show ?thesis
    by (simp add: b64_digit_index)
qed

lemma sign_bit_decode:
  "sign_bit (decode_base64 sg c0 c1 c2 c3) = 0 \<longleftrightarrow> (\<forall>ch \<in> {c0, c1, c2, c3}. 0 \<le> b64_digit sg ch)"
  by (auto simp: sign_bit_of_bool decode_base64_def bit_simps bit_digit_high)

lemma decode_encode_base64:
  assumes "encode_base64 a b c = [c0, c1, c2, c3]"
  shows "bytes3 (decode_base64 sg c0 c1 c2 c3) = [a, b, c] \<and> sign_bit (decode_base64 sg c0 c1 c2 c3) = 0"
proof -
  have "map (b64_digit sg) [c0, c1, c2, c3] = map (b64_digit sg \<circ> b64_char) (sextets a b c)"
    unfolding assms [symmetric] encode_base64_sextets by simp
  also have "\<dots> = sextets a b c"
    using sextets_bounds by (intro map_idI) (auto simp: b64_digit_char)
  finally have d: "sextets a b c = map (b64_digit sg) [c0, c1, c2, c3]" by simp
  then have "\<forall>ch \<in> {c0, c1, c2, c3}. 0 \<le> b64_digit sg ch"
    using sextets_bounds [of _ a b c] by auto
  moreover have "bytes3 (decode_base64 sg c0 c1 c2 c3) = [a, b, c]"
    using bytes3_sextets [of a b c] by (simp add: d decode_base64_pack4)
  ultimately show ?thesis by (simp add: sign_bit_decode)
qed

lemma ret_ok_iff: "ret_ok ret \<longleftrightarrow> ret = 0"
proof (cases "ret = 0")
  case False
  then have "0 < uint ret" "uint ret < 256" using uint_lt2p [of ret]
    by (simp_all add: order_less_le uint_0_iff)
  then have "drop_bit 8 (uint ret - 1) = 0" by (intro shift_mask [THEN trans]) auto
  with False show ?thesis by (simp add: ret_ok_def)
qed (simp add: ret_ok_def shift_mask)

lemma foldl_or_eq_0: "foldl (OR) r xs = (0 :: byte) \<longleftrightarrow> r = 0 \<and> (\<forall>x \<in> set xs. x = 0)"
  by (induction xs arbitrary: r) (auto simp: or_eq_0_iff)

lemma decode_groups_eq:
  "decode_groups sg s i n ret key =
     (foldl (OR) ret (map (\<lambda>j. sign_bit (group_val sg s j)) [i..<i + n]),
      key @ concat (map (\<lambda>j. bytes3 (group_val sg s j)) [i..<i + n]))"
proof (induction n arbitrary: i ret key)
  case (Suc n)
  have "[i..<i + Suc n] = i # [Suc i..<Suc i + n]" by (simp add: upt_conv_Cons)
  with Suc show ?case by (simp add: Let_def group_val_def bytes3_def del: upt_Suc)
qed simp

text \<open>What the decoder accepts, and what it then returns.\<close>

lemma key_from_base64_Some_iff:
  "key_from_base64 sg s = Some key \<longleftrightarrow>
     length s = 44 \<and> s ! 43 = CHR ''='' \<and> (\<forall>j < 10. sign_bit (group_val sg s j) = 0) \<and>
     sign_bit (decode_base64 sg (s ! 40) (s ! 41) (s ! 42) (CHR ''A'')) = 0 \<and>
     byte_at 0 (decode_base64 sg (s ! 40) (s ! 41) (s ! 42) (CHR ''A'')) = 0 \<and>
     key = concat (map (\<lambda>j. bytes3 (group_val sg s j)) [0..<10]) @
       [byte_at 16 (decode_base64 sg (s ! 40) (s ! 41) (s ! 42) (CHR ''A'')),
        byte_at 8 (decode_base64 sg (s ! 40) (s ! 41) (s ! 42) (CHR ''A''))]"
  unfolding key_from_base64_def WG_KEY_LEN_BASE64_def WG_KEY_LEN_def
  by (auto simp: Let_def decode_groups_eq ret_ok_iff or_eq_0_iff foldl_or_eq_0 simp del: upt_Suc upt_rec_numeral)

lemma concat_map_upt_nth:
  assumes "\<And>j. j < n \<Longrightarrow> length (f j) = k" "j < n" "r < k"
  shows "concat (map f [0..<n]) ! (j * k + r) = f j ! r"
  using assms
proof (induction n)
  case (Suc n)
  have "map (length \<circ> f) [0..<n] = map (\<lambda>_. k) [0..<n]" using Suc.prems(1) by simp
  then have len: "length (concat (map f [0..<n])) = n * k"
    by (simp only: length_concat map_map) (simp add: sum_list_triv)
  show ?case
  proof (cases "j = n")
    case True
    with len show ?thesis by (simp add: nth_append)
  next
    case False
    with Suc.prems have "j < n" by simp
    then have "j * k + r < n * k"
      using Suc.prems(3) mult_le_mono1 [of "Suc j" n k] by simp
    with len \<open>j < n\<close> Suc show ?thesis by (simp add: nth_append)
  qed
qed simp

lemma concat_chunks:
  assumes "n * 3 \<le> length xs"
  shows "concat (map (\<lambda>j. [xs ! (j * 3), xs ! (j * 3 + 1), xs ! (j * 3 + 2)]) [0..<n]) = take (n * 3) xs"
  using assms
proof (induction n)
  case (Suc n)
  then have "take (Suc n * 3) xs = take (n * 3) xs @ [xs ! (n * 3), xs ! (n * 3 + 1), xs ! (n * 3 + 2)]"
    by (simp add: take_Suc_conv_app_nth numeral_3_eq_3)
  with Suc show ?case by simp
qed simp

lemma concat_chunks4:
  assumes "n * 4 \<le> length xs"
  shows "concat (map (\<lambda>j. [xs ! (j * 4), xs ! (j * 4 + 1), xs ! (j * 4 + 2), xs ! (j * 4 + 3)]) [0..<n])
    = take (n * 4) xs"
  using assms
proof (induction n)
  case (Suc n)
  then have "take (Suc n * 4) xs =
      take (n * 4) xs @ [xs ! (n * 4), xs ! (n * 4 + 1), xs ! (n * 4 + 2), xs ! (n * 4 + 3)]"
    by (simp add: take_Suc_conv_app_nth eval_nat_numeral)
  with Suc show ?case by simp
qed simp

lemma length_chunks [simp]: "length (concat (map (\<lambda>j. encode_base64 (f j) (g j) (h j)) js)) = 4 * length js"
  by (induction js) auto

lemma key_to_base64_eq:
  "key_to_base64 key =
     concat (map (\<lambda>j. encode_base64 (key ! (j * 3)) (key ! (j * 3 + 1)) (key ! (j * 3 + 2))) [0..<10])
     @ (encode_base64 (key ! 30) (key ! 31) 0) [3 := CHR ''='']"
  by (simp add: key_to_base64_def WG_KEY_LEN_BASE64_def WG_KEY_LEN_def list_update_append
      del: upt_rec_numeral)

lemma list_of_4: "length xs = 4 \<Longrightarrow> xs = [xs ! 0, xs ! 1, xs ! 2, xs ! 3]"
  by (auto simp: eval_nat_numeral length_Suc_conv)

lemma encode_last_char: "encode_base64 a b 0 ! 3 = CHR ''A''"
  using b64_char_alphabet [of 0] by (simp add: encode_base64_def b64_alphabet_def)

lemma concat_map_upt_cong:
  "(\<And>j. j < n \<Longrightarrow> f j = g j) \<Longrightarrow> concat (map f [0..<n]) = concat (map g [0..<n])"
  by (rule arg_cong [where f = concat]) simp

lemma base64_round_trip:
  assumes "length key = 32"
  shows "key_from_base64 sg (key_to_base64 key) = Some key"
proof -
  let ?f = "\<lambda>j. encode_base64 (key ! (j * 3)) (key ! (j * 3 + 1)) (key ! (j * 3 + 2))"
  let ?e = "encode_base64 (key ! 30) (key ! 31) 0"
  define s where "s = key_to_base64 key"
  have len: "length (concat (map ?f [0..<10])) = 40" by (simp del: upt_rec_numeral)
  have pre: "?f j ! r = s ! (j * 4 + r)" if "j < 10" "r < 4" for j r
  proof -
    have "j * 4 + r < 40" using that by simp
    then have "s ! (j * 4 + r) = concat (map ?f [0..<10]) ! (j * 4 + r)"
      unfolding s_def key_to_base64_eq using len by (simp add: nth_append del: upt_rec_numeral)
    also have "\<dots> = ?f j ! r" using that by (intro concat_map_upt_nth) auto
    finally show ?thesis by simp
  qed
  have grp: "bytes3 (group_val sg s j) = [key ! (j * 3), key ! (j * 3 + 1), key ! (j * 3 + 2)] \<and>
      sign_bit (group_val sg s j) = 0" if "j < 10" for j
    unfolding group_val_def using list_of_4 [of "?f j"] pre [OF that, of 0] pre [OF that, of 1]
      pre [OF that, of 2] pre [OF that, of 3]
    by (intro decode_encode_base64) simp
  have post: "?e ! 0 = s ! 40" "?e ! 1 = s ! 41" "?e ! 2 = s ! 42" "s ! 43 = CHR ''=''" "length s = 44"
    unfolding s_def key_to_base64_eq using len by (simp_all add: nth_append del: upt_rec_numeral)
  have "bytes3 (decode_base64 sg (s ! 40) (s ! 41) (s ! 42) (CHR ''A'')) = [key ! 30, key ! 31, 0] \<and>
      sign_bit (decode_base64 sg (s ! 40) (s ! 41) (s ! 42) (CHR ''A'')) = 0"
    using list_of_4 [of ?e] post encode_last_char by (intro decode_encode_base64) simp
  moreover have "concat (map (\<lambda>j. bytes3 (group_val sg s j)) [0..<10]) = take 30 key"
    using concat_chunks [of 10 key] assms by (subst concat_map_upt_cong [OF conjunct1 [OF grp]]) simp_all
  moreover have "key = take 30 key @ [key ! 30, key ! 31]"
    using assms take_Suc_conv_app_nth [of 30 key] take_Suc_conv_app_nth [of 31 key] by simp
  ultimately show ?thesis
    unfolding s_def [symmetric] using grp post(4,5)
    by (simp add: key_from_base64_Some_iff bytes3_def del: upt_rec_numeral)
qed

lemma base64_canonical:
  assumes "key_from_base64 sg s = Some key"
  shows "key_to_base64 key = s"
proof -
  let ?g = "group_val sg s"
  let ?v = "decode_base64 sg (s ! 40) (s ! 41) (s ! 42) (CHR ''A'')"
  have len: "length s = 44" "s ! 43 = CHR ''=''" and sg: "\<And>j. j < 10 \<Longrightarrow> sign_bit (?g j) = 0"
    and last: "sign_bit ?v = 0" "byte_at 0 ?v = 0"
    and key: "key = concat (map (\<lambda>j. bytes3 (?g j)) [0..<10]) @ [byte_at 16 ?v, byte_at 8 ?v]"
    using assms unfolding key_from_base64_Some_iff by blast+
  have kl: "length (concat (map (\<lambda>j. bytes3 (?g j)) [0..<10])) = 30"
    by (simp add: length_concat bytes3_def comp_def sum_list_triv del: upt_rec_numeral)
  have nth: "key ! (j * 3 + r) = bytes3 (?g j) ! r" if "j < 10" "r < 3" for j r
  proof -
    have "key ! (j * 3 + r) = concat (map (\<lambda>j. bytes3 (?g j)) [0..<10]) ! (j * 3 + r)"
      using that kl by (simp add: key nth_append del: upt_rec_numeral)
    also have "\<dots> = bytes3 (?g j) ! r" using that
      by (intro concat_map_upt_nth) (auto simp: bytes3_def)
    finally show ?thesis .
  qed
  have "encode_base64 (key ! (j * 3)) (key ! (j * 3 + 1)) (key ! (j * 3 + 2))
      = [s ! (j * 4), s ! (j * 4 + 1), s ! (j * 4 + 2), s ! (j * 4 + 3)]" if "j < 10" for j
  proof -
    have "encode_base64 (byte_at 16 (?g j)) (byte_at 8 (?g j)) (byte_at 0 (?g j))
      = [s ! (j * 4), s ! (j * 4 + 1), s ! (j * 4 + 2), s ! (j * 4 + 3)]"
      using sg [OF that] by (intro encode_decode_base64 [where sg = sg])
        (auto simp: group_val_def sign_bit_decode)
    then show ?thesis using nth [OF that, of 0] nth [OF that, of 1] nth [OF that, of 2]
      by (simp add: bytes3_def)
  qed
  then have front: "concat (map (\<lambda>j. encode_base64 (key ! (j * 3)) (key ! (j * 3 + 1)) (key ! (j * 3 + 2)))
      [0..<10]) = take 40 s"
    using concat_chunks4 [of 10 s] len by (subst concat_map_upt_cong) simp_all
  have "encode_base64 (byte_at 16 ?v) (byte_at 8 ?v) (byte_at 0 ?v) = [s ! 40, s ! 41, s ! 42, CHR ''A'']"
    using last(1) by (intro encode_decode_base64 [where sg = sg]) (auto simp: sign_bit_decode)
  then have rest: "encode_base64 (key ! 30) (key ! 31) 0 = [s ! 40, s ! 41, s ! 42, CHR ''A'']"
    using last(2) kl by (simp add: key nth_append del: upt_rec_numeral)
  have "s = take 40 s @ [s ! 40, s ! 41, s ! 42, s ! 43]"
    using len take_Suc_conv_app_nth [of 40 s] take_Suc_conv_app_nth [of 41 s]
      take_Suc_conv_app_nth [of 42 s] take_Suc_conv_app_nth [of 43 s] by simp
  then show ?thesis unfolding key_to_base64_eq front rest using len(2) by simp
qed

section \<open>Hex digits\<close>

text \<open>The specification: the value of a hex digit in either case, none for another character.\<close>

definition hex_value :: "char \<Rightarrow> int option" where
  "hex_value c =
     (let n = int (chr_code c) in
      if 48 \<le> n \<and> n \<le> 57 then Some (n - 48)
      else if 65 \<le> n \<and> n \<le> 70 then Some (n - 55)
      else if 97 \<le> n \<and> n \<le> 102 then Some (n - 87)
      else None)"

lemma ucast_shift:
  "(ucast (drop_bit 8 (word_of_int i :: 32 word)) :: byte) = word_of_int (drop_bit 8 i)"
  by (rule byte_eqI) (auto simp: bit_simps)

lemma ucast_of_int: "(ucast (word_of_int i :: 32 word) :: byte) = word_of_int i"
  by (rule byte_eqI) (simp add: bit_simps)

lemma minus_shift:
  assumes "0 \<le> k" "k \<le> 256"
  shows "(ucast (drop_bit 8 ((ucast (x :: byte) :: 32 word) - word_of_int k)) :: byte)
    = (if uint x < k then - 1 else 0)"
proof -
  have e: "(ucast x :: 32 word) - word_of_int k = word_of_int (uint x - k)"
    by (simp add: word_of_int_minus)
  have "uint x < 256" using uint_lt2p [of x] by simp
  with uint_ge_0 [of x] assms have "- 256 \<le> uint x - k" "uint x - k < 256" by linarith+
  then show ?thesis unfolding e ucast_shift by (simp add: shift_mask)
qed

lemma xor_table:
  "list_all (\<lambda>n. (n XOR 48 < 10) = (48 \<le> n \<and> n \<le> 57) \<and> n XOR 48 = (if 48 \<le> n \<and> n \<le> 57 then n - 48 else n XOR 48)
     \<and> n XOR 48 < 256) [0..255::int]"
  by code_simp

lemma and_table:
  "list_all (\<lambda>n. let a = ((n AND 223) - 55) mod 256 in
     (10 \<le> a \<and> a < 16) = (65 \<le> n \<and> n \<le> 70 \<or> 97 \<le> n \<and> n \<le> 102) \<and>
     a = (if 65 \<le> n \<and> n \<le> 70 then n - 55 else if 97 \<le> n \<and> n \<le> 102 then n - 87 else a)) [0..255::int]"
  by code_simp

lemma uint_all_ones: "uint (- 1 :: byte) = 255"
  by code_simp

lemma hex_digit_eq:
  "hex_digit c = (case hex_value c of Some v \<Rightarrow> (word_of_int v, 0) | None \<Rightarrow> (0, - 1))"
proof -
  define b :: byte where "b = of_nat (chr_code c)"
  define n where "n = uint b"
  have n: "n = int (chr_code c)" "0 \<le> n" "n < 256"
    using chr_code_less [of c] by (simp_all add: n_def b_def uint_nat unat_of_nat)
  define num :: byte where "num = ucast ((ucast b :: 32 word) XOR 48)"
  define al :: byte where "al = ucast (((ucast b :: 32 word) AND NOT 32) - 55)"
  have num: "uint num = n XOR 48"
  proof -
    have "num = b XOR 48" unfolding num_def by (rule byte_eqI) (simp add: bit_simps)
    then show ?thesis by (simp add: n_def unsigned_xor_eq)
  qed
  have al: "uint al = ((n AND 223) - 55) mod 256"
  proof -
    have "(ucast b :: 32 word) AND NOT 32 = word_of_int (n AND 223)"
    proof (rule bit_word_eqI)
      fix m assume "m < LENGTH(32)"
      then show "bit ((ucast b :: 32 word) AND NOT 32) m = bit (word_of_int (n AND 223) :: 32 word) m"
        by (cases "m < 8") (auto simp: bit_simps n_def dest!: less_8_cases)
    qed
    then have "al = word_of_int ((n AND 223) - 55)"
      unfolding al_def using ucast_of_int [of "(n AND 223) - 55"] by simp
    then show ?thesis by (simp only: uint_word_of_int) (simp add: take_bit_eq_mod)
  qed
  have nt: "uint num < 10 \<longleftrightarrow> 48 \<le> n \<and> n \<le> 57" "48 \<le> n \<and> n \<le> 57 \<Longrightarrow> uint num = n - 48"
    using xor_table [unfolded list_all_iff, THEN bspec, of n] n(2,3) num by (auto split: if_splits)
  have at: "10 \<le> uint al \<and> uint al < 16 \<longleftrightarrow> 65 \<le> n \<and> n \<le> 70 \<or> 97 \<le> n \<and> n \<le> 102"
    "65 \<le> n \<and> n \<le> 70 \<Longrightarrow> uint al = n - 55" "97 \<le> n \<and> n \<le> 102 \<Longrightarrow> uint al = n - 87"
    using and_table [unfolded list_all_iff Let_def, THEN bspec, of n] n(2,3) al by (auto split: if_splits)
  have a0: "(ucast (drop_bit 8 (((ucast al :: 32 word) - 10) XOR ((ucast al :: 32 word) - 16))) :: byte)
      = (if 10 \<le> uint al \<and> uint al < 16 then - 1 else 0)"
    using minus_shift [of 10 al] minus_shift [of 16 al] by (simp add: unsigned_xor_eq)
  have n0: "(ucast (drop_bit 8 ((ucast num :: 32 word) - 10)) :: byte) = (if uint num < 10 then - 1 else 0)"
    using minus_shift [of 10 num] by simp
  have "hex_digit c =
      (let c_num0 = (if uint num < 10 then - 1 else 0);
           c_alpha0 = (if 10 \<le> uint al \<and> uint al < 16 then - 1 else 0)
       in ((c_num0 AND num) OR (c_alpha0 AND al),
           word_of_int (drop_bit 8 (uint (c_num0 OR c_alpha0) - 1))))"
    unfolding hex_digit_def Let_def b_def [symmetric] num_def [symmetric] al_def [symmetric] a0 n0 ..
  moreover have "num = word_of_int (n - 48)" if "48 \<le> n \<and> n \<le> 57"
    using nt(2) [OF that] by (metis word_of_int_uint)
  moreover have "al = word_of_int (n - 55)" if "65 \<le> n \<and> n \<le> 70"
    using at(2) [OF that] by (metis word_of_int_uint)
  moreover have "al = word_of_int (n - 87)" if "97 \<le> n \<and> n \<le> 102"
    using at(3) [OF that] by (metis word_of_int_uint)
  ultimately show ?thesis
    unfolding hex_value_def Let_def n(1) [symmetric] nt(1) at(1) by (auto simp: shift_mask uint_all_ones)
qed

text \<open>A hex string as bytes: none if its length is odd or a character is not a hex digit.\<close>

fun hex_spec :: "string \<Rightarrow> byte list option" where
  "hex_spec [] = Some []"
| "hex_spec [c] = None"
| "hex_spec (c # d # s) =
     (case (hex_value c, hex_value d, hex_spec s) of
        (Some x, Some y, Some bs) \<Rightarrow> Some (word_of_int (16 * x + y) # bs)
      | _ \<Rightarrow> None)"

lemma hex_value_bounds: "hex_value c = Some v \<Longrightarrow> 0 \<le> v \<and> v < 16"
  by (auto simp: hex_value_def Let_def split: if_splits)

lemma push_or_add:
  assumes "0 \<le> y" "y < 2 ^ k"
  shows "push_bit k x OR y = x * 2 ^ k + (y :: int)"
proof -
  have "take_bit k y = y" using assms by (simp add: take_bit_int_eq_self)
  then have y: "bit y n \<Longrightarrow> n < k" for n by (metis bit_take_bit_iff)
  have "push_bit k x AND y = 0" by (rule bit_eqI) (auto simp: bit_simps dest: y)
  then show ?thesis
    using disjunctive_add_eq_or [of "push_bit k x" y] by (simp add: push_bit_eq_mult)
qed

lemma nibbles_or:
  assumes "0 \<le> x" "x < 16" "0 \<le> y" "y < 16"
  shows "(word_of_int x * 16) OR word_of_int y = (word_of_int (16 * x + y) :: byte)"
proof -
  have "16 * x + y = push_bit 4 x OR y" using push_or_add [of y 4 x] assms by simp
  moreover have "(word_of_int x * 16 :: byte) = word_of_int (push_bit 4 x)"
    by (simp add: push_bit_eq_mult)
  ultimately show ?thesis by (simp only: ) (rule byte_eqI, simp add: bit_simps)
qed

lemma hex_pairs_spec:
  assumes "even (length s)"
  shows "case hex_spec s of
      Some bs \<Rightarrow> hex_pairs s r key = (r, key @ bs)
    | None \<Rightarrow> fst (hex_pairs s r key) \<noteq> 0"
  using assms
proof (induction s arbitrary: r key rule: hex_spec.induct)
  case (3 c d s)
  have rest: "fst (hex_pairs s r key) \<noteq> 0" if "r \<noteq> 0" for r key
    using "3.IH" [of r key] "3.prems" that by (cases "hex_spec s") auto
  show ?case
  proof (cases "hex_value c = None \<or> hex_value d = None")
    case True
    then show ?thesis using rest by (auto simp: hex_digit_eq or_eq_0_iff split: option.splits)
  next
    case False
    then obtain x y where xy: "hex_value c = Some x" "hex_value d = Some y" by auto
    with hex_value_bounds have "word_of_int x * 16 OR word_of_int y = (word_of_int (16 * x + y) :: byte)"
      by (intro nibbles_or) auto
    with xy "3.IH" "3.prems" show ?thesis by (auto simp: hex_digit_eq split: option.splits)
  qed
qed auto

lemma hex_spec_odd: "odd (length s) \<Longrightarrow> hex_spec s = None"
  by (induction s rule: hex_spec.induct) (auto split: option.splits)

lemma key_from_hex_eq:
  "key_from_hex s = (if length s = 64 then hex_spec s else None)"
  using hex_pairs_spec [of s 0 "[]"]
  by (auto simp: key_from_hex_def WG_KEY_LEN_HEX_def WG_KEY_LEN_def ret_ok_iff split: option.splits prod.splits)

lemma hex_char_table: "map hex_char [0, 1, 2, 3, 4, 5, 6, 7, 8, 9, 10, 11, 12, 13, 14, 15] = ''0123456789abcdef''"
  by (simp add: hex_char_def char_of_def mask_eq_exp_minus_1 bit_0)

lemma hex_value_table:
  "map hex_value ''0123456789abcdef'' = map Some [0, 1, 2, 3, 4, 5, 6, 7, 8, 9, 10, 11, 12, 13, 14, 15]"
  by (simp add: hex_value_def chr_code_def)

lemma less_16_cases:
  assumes "0 \<le> (i :: int)" "i < 16"
  shows "i \<in> set [0, 1, 2, 3, 4, 5, 6, 7, 8, 9, 10, 11, 12, 13, 14, 15]"
  using assms by simp presburger

lemma hex_value_char:
  assumes "0 \<le> i" "i < 16"
  shows "hex_value (hex_char (word_of_int i)) = Some i"
  using less_16_cases [OF assms] hex_char_table hex_value_table by auto

lemma hex_spec_append_pairs:
  "hex_spec (concat (map (\<lambda>b. [hex_char (drop_bit 4 (ucast b)), hex_char (ucast b AND 15)]) bs)) = Some bs"
proof (induction bs)
  case (Cons b bs)
  have r: "0 \<le> uint b" "uint b < 256" using uint_lt2p [of b] by simp_all
  have hi: "drop_bit 4 (ucast b :: 32 word) = word_of_int (uint b div 16)"
    by (rule bit_word_eqI) (auto simp: bit_simps simp flip: drop_bit_eq_div [of 4, simplified]
      dest: bit_imp_le_length)
  have "(15 :: 32 word) = mask 4" "uint b mod 16 = take_bit 4 (uint b)"
    by (simp_all add: mask_eq_exp_minus_1 take_bit_eq_mod)
  moreover have "(ucast b :: 32 word) AND mask 4 = word_of_int (take_bit 4 (uint b))"
    by (rule bit_word_eqI) (auto simp: bit_simps)
  ultimately have lo: "(ucast b :: 32 word) AND 15 = word_of_int (uint b mod 16)" by simp
  have "0 \<le> uint b div 16" "uint b div 16 < 16" "0 \<le> uint b mod 16" "uint b mod 16 < 16"
    using r by linarith+
  with Cons show ?case by (simp add: hi lo hex_value_char)
qed simp

lemma hex_spec_bytes: "hex_spec s = Some bs \<Longrightarrow> length s = 2 * length bs"
  by (induction s arbitrary: bs rule: hex_spec.induct) (auto split: option.splits)

lemma hex_spec_iff: "(\<exists>bs. hex_spec s = Some bs) \<longleftrightarrow> even (length s) \<and> (\<forall>c \<in> set s. hex_value c \<noteq> None)"
  by (induction s rule: hex_spec.induct) (auto split: option.splits)

lemma key_to_hex_eq:
  assumes "length key = 32"
  shows "key_to_hex key =
    concat (map (\<lambda>b. [hex_char (drop_bit 4 (ucast b)), hex_char (ucast b AND 15)]) key)"
proof -
  have "map (\<lambda>i. [hex_char (drop_bit 4 (ucast (key ! i))), hex_char (ucast (key ! i) AND 15)]) [0..<32]
      = map (\<lambda>b. [hex_char (drop_bit 4 (ucast b)), hex_char (ucast b AND 15)]) (map ((!) key) [0..<32])"
    by (simp del: upt_rec_numeral)
  also have "map ((!) key) [0..<32] = key" using map_nth [of key] assms by simp
  finally show ?thesis by (simp add: key_to_hex_def WG_KEY_LEN_def del: upt_rec_numeral)
qed

lemma sextet_arith:
  fixes a b c :: int
  assumes "0 \<le> a" "a < 256" "0 \<le> b" "b < 256" "0 \<le> c" "c < 256"
  shows "(a * 65536 + b * 256 + c) div 262144 mod 64 = a div 4 mod 64"
    and "(a * 65536 + b * 256 + c) div 4096 mod 64 = (a * 16 + b div 16) mod 64"
    and "(a * 65536 + b * 256 + c) div 64 mod 64 = (b * 4 + c div 64) mod 64"
    and "(a * 65536 + b * 256 + c) mod 64 = c mod 64"
proof -
  have "(a * 65536 + b * 256 + c) div 262144 = a div 4" using assms by linarith
  then show "(a * 65536 + b * 256 + c) div 262144 mod 64 = a div 4 mod 64" by simp
  have "(a * 65536 + b * 256 + c) div 4096 = a * 16 + b div 16" using assms by linarith
  then show "(a * 65536 + b * 256 + c) div 4096 mod 64 = (a * 16 + b div 16) mod 64" by simp
  have "(a * 65536 + b * 256 + c) div 64 = a * 1024 + (b * 4 + c div 64)" using assms by linarith
  then show "(a * 65536 + b * 256 + c) div 64 mod 64 = (b * 4 + c div 64) mod 64"
    using mod_mult_self3 [of "16 * a" 64 "b * 4 + c div 64"] by (simp add: mult.commute)
  show "(a * 65536 + b * 256 + c) mod 64 = c mod 64"
    using mod_mult_self3 [of "1024 * a + 4 * b" 64 c] by (simp add: algebra_simps)
qed

section \<open>Properties\<close>

text \<open>C31. Base64 keys: the decoder accepts exactly the encodings of 32-byte keys, and inverts the
  encoder. In particular no two strings decode to one key, whatever the signedness of \<open>char\<close>.\<close>

theorem key_base64_iff:
  "key_from_base64 sg s = Some key \<longleftrightarrow> length key = WG_KEY_LEN \<and> s = key_to_base64 key"
proof
  assume a: "key_from_base64 sg s = Some key"
  then have "length key = 32"
    by (auto simp: key_from_base64_Some_iff length_concat bytes3_def comp_def sum_list_triv simp del: upt_rec_numeral)
  with base64_canonical [OF a] show "length key = WG_KEY_LEN \<and> s = key_to_base64 key"
    by (simp add: WG_KEY_LEN_def)
qed (auto simp: WG_KEY_LEN_def base64_round_trip)

text \<open>C32. The branch-free encoder writes the RFC 4648 digits of the three bytes, read as one
  24-bit number, most significant sextet first.\<close>

theorem encode_base64_rfc4648:
  "encode_base64 a b c =
     map (\<lambda>k. b64_alphabet ! nat (take_bit 6 (drop_bit k (uint a * 2 ^ 16 + uint b * 2 ^ 8 + uint c))))
       [18, 12, 6, 0]"
proof -
  let ?v = "uint a * 2 ^ 16 + uint b * 2 ^ 8 + uint c"
  have r: "0 \<le> uint a" "uint a < 256" "0 \<le> uint b" "uint b < 256" "0 \<le> uint c" "uint c < 256"
    using uint_lt2p [of a] uint_lt2p [of b] uint_lt2p [of c] by simp_all
  then have "0 \<le> uint b div 16" "uint b div 16 < 16" "0 \<le> uint c div 64" "uint c div 64 < 4"
    by linarith+
  then have o: "push_bit 4 (uint a) OR uint b div 16 = uint a * 16 + uint b div 16"
      "push_bit 2 (uint b) OR uint c div 64 = uint b * 4 + uint c div 64"
    using push_or_add [of "uint b div 16" 4 "uint a"] push_or_add [of "uint c div 64" 2 "uint b"]
    by simp_all
  have powers: "(2 :: int) ^ 18 = 262144" "(2 :: int) ^ 12 = 4096" "(2 :: int) ^ 6 = 64"
      "(2 :: int) ^ 16 = 65536" "(2 :: int) ^ 8 = 256" "(2 :: int) ^ 0 = 1"
    by simp_all
  have "sextets a b c = [uint a div 4 mod 64, (uint a * 16 + uint b div 16) mod 64,
      (uint b * 4 + uint c div 64) mod 64, uint c mod 64]"
    unfolding sextets_def mask_6 take_bit_eq_mask [symmetric] by (simp add: drop_bit_eq_div take_bit_eq_mod o)
  also have "\<dots> = map (\<lambda>k. take_bit 6 (drop_bit k ?v)) [18, 12, 6, 0]"
    by (simp only: list.map drop_bit_eq_div take_bit_eq_mod powers div_by_1 sextet_arith [OF r])
  finally have "sextets a b c = map (\<lambda>k. take_bit 6 (drop_bit k ?v)) [18, 12, 6, 0]" .
  moreover have "b64_char (take_bit 6 x) = b64_alphabet ! nat (take_bit 6 x)" for x :: int
    using b64_char_alphabet [of "nat (take_bit 6 x)"] take_bit_int_less_exp [of 6 x]
    by (simp add: nat_less_iff)
  ultimately show ?thesis by (simp add: encode_base64_sextets)
qed

text \<open>C33. Hex keys: the branch-free decoder accepts exactly the strings of 64 hex digits, of
  either case, and returns the bytes they spell; it inverts the encoder on every key.\<close>

theorem key_hex_roundtrip:
  "(length key = WG_KEY_LEN \<longrightarrow> key_from_hex (key_to_hex key) = Some key) \<and>
   key_from_hex s = (if length s = 2 * WG_KEY_LEN then hex_spec s else None) \<and>
   ((\<exists>bs. key_from_hex s = Some bs) \<longleftrightarrow> length s = 2 * WG_KEY_LEN \<and> (\<forall>c \<in> set s. hex_value c \<noteq> None))"
proof -
  have "length (key_to_hex key) = 64" if "length key = 32"
    using hex_spec_bytes [OF hex_spec_append_pairs [of key]] that by (simp add: key_to_hex_eq)
  then show ?thesis
    using hex_spec_append_pairs [of key] hex_spec_iff [of s]
    by (auto simp: WG_KEY_LEN_def key_from_hex_eq key_to_hex_eq)
qed

theorem key_hex_roundtrip_witness:
  "key_from_hex (key_to_hex (replicate 32 171)) = Some (replicate 32 171) \<and> key_from_hex ''zz'' = None"
  using key_hex_roundtrip [of "replicate 32 171" "''zz''"] by (simp add: WG_KEY_LEN_def)

text \<open>The accumulating zero test answers yes exactly for a key of zero bytes.\<close>

theorem key_is_zero_iff: "key_is_zero key \<longleftrightarrow> key = replicate (length key) 0"
proof -
  have "key = replicate (length key) 0 \<longleftrightarrow> (\<forall>x \<in> set key. x = 0)"
    by (metis in_set_replicate replicate_eqI)
  then show ?thesis by (simp add: key_is_zero_def ret_ok_iff foldl_or_eq_0)
qed

end
