(* ===== verification/Link_List.thy ===== *)
theory Link_List
  imports C_Base
begin

text \<open>
  The doubly linked list of \<open>src/wgshell/vtysh/linklist.c\<close> on an explicit heap: nodes with
  \<open>next\<close>, \<open>prev\<close> and \<open>data\<close>, the list header with \<open>head\<close>, \<open>tail\<close>,
  \<open>count\<close> and the comparison function, and every operation as the pointer writes it does.
  Reading or writing through NULL or through a freed node is undefined. A loop over the nodes is
  given as many steps as there are addresses handed out so far; on a well-formed list that is
  always enough, and the theorems say so by showing that the operations return.

  \<open>dll\<close> is the well-formedness invariant (the heap holds a chain of distinct nodes, linked
  both ways, that the header describes) and \<open>lrepr\<close> relates header and heap to the list of data
  values. The contract of the list, as an interpretation of \<open>bounded_simulation\<close>, says what the
  operations do to that list of values.
\<close>

section \<open>Heap and nodes\<close>

type_synonym ptr = "nat option"

record 'd listnode =
  n_next :: ptr
  n_prev :: ptr
  n_data :: 'd

record 'd llist =
  l_head :: ptr
  l_tail :: ptr
  l_count :: nat
  l_cmp :: "('d \<Rightarrow> 'd \<Rightarrow> int) option"

record 'd heap =
  cells :: "nat \<Rightarrow> 'd listnode option"
  fresh :: nat

definition wr :: "nat \<Rightarrow> ('d listnode \<Rightarrow> 'd listnode) \<Rightarrow> 'd heap \<Rightarrow> 'd heap" where
  "wr a f h = h\<lparr>cells := (cells h)(a := map_option f (cells h a))\<rparr>"

definition deref :: "'d heap \<Rightarrow> ptr \<Rightarrow> 'd listnode outcome" where
  "deref h p =
     (case p of None \<Rightarrow> Undef
      | Some a \<Rightarrow> (case cells h a of None \<Rightarrow> Undef | Some n \<Rightarrow> Ret n))"

definition upd :: "ptr \<Rightarrow> ('d listnode \<Rightarrow> 'd listnode) \<Rightarrow> 'd heap \<Rightarrow> 'd heap outcome" where
  "upd p f h =
     (case p of None \<Rightarrow> Undef
      | Some a \<Rightarrow> if cells h a = None then Undef else Ret (wr a f h))"

definition set_next :: "ptr \<Rightarrow> ptr \<Rightarrow> 'd heap \<Rightarrow> 'd heap outcome" where
  "set_next p q = upd p (n_next_update (\<lambda>_. q))"

definition set_prev :: "ptr \<Rightarrow> ptr \<Rightarrow> 'd heap \<Rightarrow> 'd heap outcome" where
  "set_prev p q = upd p (n_prev_update (\<lambda>_. q))"

text \<open>\<open>listnode_new\<close>: a zeroed node at an address never used before, here with its data.\<close>

definition listnode_new :: "'d \<Rightarrow> 'd heap \<Rightarrow> nat \<times> 'd heap" where
  "listnode_new val h =
     (fresh h, h\<lparr>cells := (cells h)(fresh h \<mapsto> \<lparr>n_next = None, n_prev = None, n_data = val\<rparr>),
                 fresh := Suc (fresh h)\<rparr>)"

definition listnode_free :: "nat \<Rightarrow> 'd heap \<Rightarrow> 'd heap" where
  "listnode_free a h = h\<lparr>cells := (cells h)(a := None)\<rparr>"

text \<open>\<open>list->count\<close> is an \<open>unsigned int\<close>.\<close>

definition count_inc :: "'d llist \<Rightarrow> 'd llist" where
  "count_inc l = l\<lparr>l_count := (l_count l + 1) mod 2 ^ 32\<rparr>"

definition count_dec :: "'d llist \<Rightarrow> 'd llist" where
  "count_dec l = l\<lparr>l_count := (l_count l + 2 ^ 32 - 1) mod 2 ^ 32\<rparr>"

section \<open>The operations\<close>

definition list_new :: "'d llist" where
  "list_new = \<lparr>l_head = None, l_tail = None, l_count = 0, l_cmp = None\<rparr>"

definition listnode_add_old :: "'d llist \<Rightarrow> 'd \<Rightarrow> 'd heap \<Rightarrow> ('d llist \<times> 'd heap) outcome" where
  "listnode_add_old l val h =
     (let (node, h) = listnode_new val h in
      obind (set_prev (Some node) (l_tail l) h) (\<lambda>h.
      obind (if l_head l = None then Ret (l\<lparr>l_head := Some node\<rparr>, h)
             else omap (\<lambda>h. (l, h)) (set_next (l_tail l) (Some node) h)) (\<lambda>(l, h).
      Ret (count_inc (l\<lparr>l_tail := Some node\<rparr>), h))))"

text \<open>The loops over the nodes: the first node whose data satisfies \<open>P\<close>, NULL if none does.\<close>

fun find_node :: "nat \<Rightarrow> ('d \<Rightarrow> bool) \<Rightarrow> 'd heap \<Rightarrow> ptr \<Rightarrow> ptr outcome" where
  "find_node fuel P h None = Ret None"
| "find_node 0 P h (Some a) = Undef"
| "find_node (Suc fuel) P h (Some a) =
     obind (deref h (Some a)) (\<lambda>n.
       if P (n_data n) then Ret (Some a) else find_node fuel P h (n_next n))"

text \<open>Linking a new node in front of \<open>n\<close>: the body of the \<open>if\<close> in \<open>listnode_add_sort\<close>.\<close>

definition link_before :: "'d llist \<Rightarrow> nat \<Rightarrow> nat \<Rightarrow> 'd heap \<Rightarrow> ('d llist \<times> 'd heap) outcome" where
  "link_before l new n h =
     obind (set_next (Some new) (Some n) h) (\<lambda>h.
     obind (deref h (Some n)) (\<lambda>nn.
     obind (set_prev (Some new) (n_prev nn) h) (\<lambda>h.
     obind (if n_prev nn \<noteq> None then omap (\<lambda>h. (l, h)) (set_next (n_prev nn) (Some new) h)
            else Ret (l\<lparr>l_head := Some new\<rparr>, h)) (\<lambda>(l, h).
     obind (set_prev (Some n) (Some new) h) (\<lambda>h.
     Ret (count_inc l, h))))))"

definition link_tail :: "'d llist \<Rightarrow> nat \<Rightarrow> 'd heap \<Rightarrow> ('d llist \<times> 'd heap) outcome" where
  "link_tail l new h =
     obind (set_prev (Some new) (l_tail l) h) (\<lambda>h.
     obind (if l_tail l \<noteq> None then omap (\<lambda>h. (l, h)) (set_next (l_tail l) (Some new) h)
            else Ret (l\<lparr>l_head := Some new\<rparr>, h)) (\<lambda>(l, h).
     Ret (count_inc (l\<lparr>l_tail := Some new\<rparr>), h)))"

definition listnode_add_sort :: "'d llist \<Rightarrow> 'd \<Rightarrow> 'd heap \<Rightarrow> ('d llist \<times> 'd heap) outcome" where
  "listnode_add_sort l val h =
     (let (new, h) = listnode_new val h in
      obind (case l_cmp l of None \<Rightarrow> Ret None
             | Some cmp \<Rightarrow> find_node (fresh h) (\<lambda>d. cmp val d < 0) h (l_head l)) (\<lambda>p.
      case p of Some n \<Rightarrow> link_before l new n h | None \<Rightarrow> link_tail l new h))"

definition listnode_add_after ::
    "'d llist \<Rightarrow> ptr \<Rightarrow> 'd \<Rightarrow> 'd heap \<Rightarrow> ('d llist \<times> 'd heap) outcome" where
  "listnode_add_after l pp val h =
     (let (nn, h) = listnode_new val h in
      case pp of
        None \<Rightarrow>
          obind (if l_head l \<noteq> None then omap (\<lambda>h. (l, h)) (set_prev (l_head l) (Some nn) h)
                 else Ret (l\<lparr>l_tail := Some nn\<rparr>, h)) (\<lambda>(l, h).
          obind (set_next (Some nn) (l_head l) h) (\<lambda>h.
          obind (set_prev (Some nn) pp h) (\<lambda>h.
          Ret (l\<lparr>l_head := Some nn\<rparr>, h))))
      | Some a \<Rightarrow>
          obind (deref h (Some a)) (\<lambda>p.
          obind (if n_next p \<noteq> None then omap (\<lambda>h. (l, h)) (set_prev (n_next p) (Some nn) h)
                 else Ret (l\<lparr>l_tail := Some nn\<rparr>, h)) (\<lambda>(l, h).
          obind (set_next (Some nn) (n_next p) h) (\<lambda>h.
          obind (set_prev (Some nn) pp h) (\<lambda>h.
          obind (set_next (Some a) (Some nn) h) (\<lambda>h.
          Ret (l, h)))))))"

definition list_delete_node :: "'d llist \<Rightarrow> nat \<Rightarrow> 'd heap \<Rightarrow> ('d llist \<times> 'd heap) outcome" where
  "list_delete_node l a h =
     obind (deref h (Some a)) (\<lambda>n.
     obind (if n_prev n \<noteq> None then omap (\<lambda>h. (l, h)) (set_next (n_prev n) (n_next n) h)
            else Ret (l\<lparr>l_head := n_next n\<rparr>, h)) (\<lambda>(l, h).
     obind (if n_next n \<noteq> None then omap (\<lambda>h. (l, h)) (set_prev (n_next n) (n_prev n) h)
            else Ret (l\<lparr>l_tail := n_prev n\<rparr>, h)) (\<lambda>(l, h).
     Ret (count_dec l, listnode_free a h))))"

text \<open>\<open>listnode_delete\<close> unlinks the first node whose data pointer is \<open>val\<close>.\<close>

definition listnode_delete :: "'d llist \<Rightarrow> 'd \<Rightarrow> 'd heap \<Rightarrow> ('d llist \<times> 'd heap) outcome" where
  "listnode_delete l val h =
     obind (find_node (fresh h) (\<lambda>d. d = val) h (l_head l)) (\<lambda>p.
     case p of None \<Rightarrow> Ret (l, h) | Some a \<Rightarrow> list_delete_node l a h)"

definition listnode_head :: "'d llist \<Rightarrow> 'd heap \<Rightarrow> 'd option outcome" where
  "listnode_head l h =
     (if l_head l \<noteq> None then omap (\<lambda>n. Some (n_data n)) (deref h (l_head l)) else Ret None)"

definition listnode_lookup :: "'d llist \<Rightarrow> 'd \<Rightarrow> 'd heap \<Rightarrow> ptr outcome" where
  "listnode_lookup l val h = find_node (fresh h) (\<lambda>d. val = d) h (l_head l)"

text \<open>
  \<open>list_delete_all_node\<close>: each node is freed after its \<open>next\<close> was read. The data handed
  to \<open>list->del\<close> are returned in order.
\<close>

fun free_nodes :: "nat \<Rightarrow> 'd heap \<Rightarrow> ptr \<Rightarrow> ('d list \<times> 'd heap) outcome" where
  "free_nodes fuel h None = Ret ([], h)"
| "free_nodes 0 h (Some a) = Undef"
| "free_nodes (Suc fuel) h (Some a) =
     obind (deref h (Some a)) (\<lambda>n.
       omap (\<lambda>(ds, h). (n_data n # ds, h)) (free_nodes fuel (listnode_free a h) (n_next n)))"

definition list_delete_all_node ::
    "'d llist \<Rightarrow> 'd heap \<Rightarrow> ('d list \<times> 'd llist \<times> 'd heap) outcome" where
  "list_delete_all_node l h =
     omap (\<lambda>(ds, h). (ds, l\<lparr>l_head := None, l_tail := None, l_count := 0\<rparr>, h))
       (free_nodes (fresh h) h (l_head l))"

definition list_delete :: "'d llist \<Rightarrow> 'd heap \<Rightarrow> ('d list \<times> 'd heap) outcome" where
  "list_delete l h = free_nodes (fresh h) h (l_head l)"

definition list_add_node_prev ::
    "'d llist \<Rightarrow> nat \<Rightarrow> 'd \<Rightarrow> 'd heap \<Rightarrow> ('d llist \<times> 'd heap) outcome" where
  "list_add_node_prev l current val h =
     (let (node, h) = listnode_new val h in
      obind (set_next (Some node) (Some current) h) (\<lambda>h.
      obind (deref h (Some current)) (\<lambda>c.
      obind (if n_prev c = None then Ret (l\<lparr>l_head := Some node\<rparr>, h)
             else omap (\<lambda>h. (l, h)) (set_next (n_prev c) (Some node) h)) (\<lambda>(l, h).
      obind (set_prev (Some node) (n_prev c) h) (\<lambda>h.
      obind (set_prev (Some current) (Some node) h) (\<lambda>h.
      Ret (count_inc l, h)))))))"

definition list_add_node_next ::
    "'d llist \<Rightarrow> nat \<Rightarrow> 'd \<Rightarrow> 'd heap \<Rightarrow> ('d llist \<times> 'd heap) outcome" where
  "list_add_node_next l current val h =
     (let (node, h) = listnode_new val h in
      obind (set_prev (Some node) (Some current) h) (\<lambda>h.
      obind (deref h (Some current)) (\<lambda>c.
      obind (if n_next c = None then Ret (l\<lparr>l_tail := Some node\<rparr>, h)
             else omap (\<lambda>h. (l, h)) (set_prev (n_next c) (Some node) h)) (\<lambda>(l, h).
      obind (set_next (Some node) (n_next c) h) (\<lambda>h.
      obind (set_next (Some current) (Some node) h) (\<lambda>h.
      Ret (count_inc l, h)))))))"

text \<open>The data of the nodes, read from the head on.\<close>

fun walk :: "nat \<Rightarrow> 'd heap \<Rightarrow> ptr \<Rightarrow> 'd list outcome" where
  "walk fuel h None = Ret []"
| "walk 0 h (Some a) = Undef"
| "walk (Suc fuel) h (Some a) =
     obind (deref h (Some a)) (\<lambda>n. omap (Cons (n_data n)) (walk fuel h (n_next n)))"

text \<open>
  \<open>list_add_list\<close>: \<open>listnode_add\<close> is a macro for \<open>listnode_add_sort\<close>, and the next
  node of \<open>m\<close> is read after the value was added to \<open>l\<close>.
\<close>

fun add_from :: "nat \<Rightarrow> 'd llist \<Rightarrow> 'd heap \<Rightarrow> ptr \<Rightarrow> ('d llist \<times> 'd heap) outcome" where
  "add_from fuel l h None = Ret (l, h)"
| "add_from 0 l h (Some a) = Undef"
| "add_from (Suc fuel) l h (Some a) =
     obind (deref h (Some a)) (\<lambda>n.
     obind (listnode_add_sort l (n_data n) h) (\<lambda>(l, h).
     obind (deref h (Some a)) (\<lambda>n. add_from fuel l h (n_next n))))"

definition list_add_list :: "'d llist \<Rightarrow> 'd llist \<Rightarrow> 'd heap \<Rightarrow> ('d llist \<times> 'd heap) outcome" where
  "list_add_list l m h = add_from (fresh h) l h (l_head m)"

section \<open>Well-formed lists\<close>

definition hdp :: "nat list \<Rightarrow> ptr \<Rightarrow> ptr" where
  "hdp as q = (case as of [] \<Rightarrow> q | a # _ \<Rightarrow> Some a)"

definition lastp :: "ptr \<Rightarrow> nat list \<Rightarrow> ptr" where
  "lastp p as = (if as = [] then p else Some (last as))"

fun dseg :: "'d heap \<Rightarrow> ptr \<Rightarrow> nat list \<Rightarrow> ptr \<Rightarrow> bool" where
  "dseg h p [] q \<longleftrightarrow> True"
| "dseg h p (a # as) q \<longleftrightarrow>
     (\<exists>n. cells h a = Some n \<and> n_prev n = p \<and> n_next n = hdp as q) \<and> dseg h (Some a) as q"

definition node_data :: "'d heap \<Rightarrow> nat \<Rightarrow> 'd" where
  "node_data h a = n_data (the (cells h a))"

definition dll :: "'d llist \<Rightarrow> 'd heap \<Rightarrow> nat list \<Rightarrow> bool" where
  "dll l h as \<longleftrightarrow>
     distinct as \<and> dseg h None as None \<and> l_head l = hdp as None \<and> l_tail l = lastp None as \<and>
     l_count l = length as mod 2 ^ 32 \<and> (\<forall>a. cells h a \<noteq> None \<longrightarrow> a < fresh h)"

definition lrepr :: "'d llist \<Rightarrow> 'd heap \<Rightarrow> 'd list \<Rightarrow> bool" where
  "lrepr l h ds \<longleftrightarrow> (\<exists>as. dll l h as \<and> map (node_data h) as = ds)"

lemma hdp_simps [simp]: "hdp [] q = q" "hdp (a # as) q = Some a"
  by (simp_all add: hdp_def)

lemma hdp_append [simp]: "hdp (as @ bs) q = hdp as (hdp bs q)"
  by (cases as) simp_all

lemma hdp_eq_None_iff [simp]: "hdp as None = None \<longleftrightarrow> as = []"
  by (cases as) simp_all

lemma lastp_simps [simp]: "lastp p [] = p" "lastp p (as @ [a]) = Some a" "lastp p [a] = Some a"
  by (simp_all add: lastp_def)

lemma lastp_append [simp]: "lastp p (as @ bs) = lastp (lastp p as) bs"
  by (auto simp: lastp_def)

lemma lastp_Cons [simp]: "lastp p (a # as) = lastp (Some a) as"
  by (simp add: lastp_def)

lemma lastp_eq_None_iff [simp]: "lastp None as = None \<longleftrightarrow> as = []"
  by (simp add: lastp_def)

lemma dseg_append: "dseg h p (as @ bs) q \<longleftrightarrow> dseg h p as (hdp bs q) \<and> dseg h (lastp p as) bs q"
  by (induction as arbitrary: p) auto

lemma dseg_cell: "dseg h p as q \<Longrightarrow> a \<in> set as \<Longrightarrow> cells h a \<noteq> None"
  by (induction as arbitrary: p) auto

lemma dseg_cong:
  "(\<And>a. a \<in> set as \<Longrightarrow> cells h' a = cells h a) \<Longrightarrow> dseg h' p as q = dseg h p as q"
  by (induction as arbitrary: p) auto

text \<open>
  Relinking: a chain whose nodes keep their inner links, with its first \<open>prev\<close> and its last
  \<open>next\<close> rewritten, is a chain again.
\<close>

lemma dseg_relink:
  assumes "dseg h p as q" and "distinct as"
    and "\<And>a n. a \<in> set as \<Longrightarrow> cells h a = Some n \<Longrightarrow> \<exists>n'. cells h' a = Some n' \<and>
      n_next n' = (if a = last as then q' else n_next n) \<and>
      n_prev n' = (if a = hd as then p' else n_prev n)"
  shows "dseg h' p' as q'"
  using assms
proof (induction as arbitrary: p p')
  case Nil
  then show ?case by simp
next
  case (Cons a as)
  from Cons.prems(1) obtain n where n: "cells h a = Some n" "n_next n = hdp as q" by auto
  have seg: "dseg h (Some a) as q" using Cons.prems(1) by simp
  have d: "a \<notin> set as" "distinct as" using Cons.prems(2) by auto
  obtain n' where n': "cells h' a = Some n'" "n_prev n' = p'"
      "n_next n' = (if a = last (a # as) then q' else n_next n)"
    using Cons.prems(3) [of a n] n(1) by auto
  have "n_next n' = hdp as q'"
  proof (cases as)
    case (Cons b bs)
    with d(1) have "a \<noteq> last as" by (metis last_in_set list.discI)
    with n' n Cons show ?thesis by simp
  qed (use n' in simp)
  moreover have "dseg h' (Some a) as q'"
  proof (rule Cons.IH [OF seg d(2)])
    fix b m
    assume b: "b \<in> set as" "cells h b = Some m"
    with d(1) have "b \<noteq> a" by auto
    have hd: "b = hd as \<Longrightarrow> n_prev m = Some a" using seg b by (cases as) auto
    have "as \<noteq> []" using b by auto
    with Cons.prems(3) [of b m] b \<open>b \<noteq> a\<close> hd
    show "\<exists>n'. cells h' b = Some n' \<and> n_next n' = (if b = last as then q' else n_next m) \<and>
        n_prev n' = (if b = hd as then Some a else n_prev m)"
      by auto
  qed
  ultimately show ?case using n' by simp
qed

lemma dseg_last: "dseg h p as q \<Longrightarrow> as \<noteq> [] \<Longrightarrow> cells h (last as) = Some n \<Longrightarrow> n_next n = q"
  by (cases as rule: rev_cases) (auto simp: dseg_append)

lemma dseg_hd: "dseg h p as q \<Longrightarrow> as \<noteq> [] \<Longrightarrow> cells h (hd as) = Some n \<Longrightarrow> n_prev n = p"
  by (cases as) auto

section \<open>Inserting and removing a node\<close>

definition relink :: "nat list \<Rightarrow> ptr \<Rightarrow> nat list \<Rightarrow> ptr \<Rightarrow> nat \<Rightarrow> 'd listnode \<Rightarrow> 'd listnode" where
  "relink xs q ys p a n =
     n\<lparr>n_next := (if xs \<noteq> [] \<and> a = last xs then q else n_next n),
       n_prev := (if ys \<noteq> [] \<and> a = hd ys then p else n_prev n)\<rparr>"

definition ins_heap :: "nat list \<Rightarrow> nat list \<Rightarrow> 'd \<Rightarrow> 'd heap \<Rightarrow> 'd heap" where
  "ins_heap xs ys val h =
     h\<lparr>cells := (\<lambda>a. if a = fresh h
         then Some \<lparr>n_next = hdp ys None, n_prev = lastp None xs, n_data = val\<rparr>
         else map_option (relink xs (Some (fresh h)) ys (Some (fresh h)) a) (cells h a)),
       fresh := Suc (fresh h)\<rparr>"

definition del_heap :: "nat list \<Rightarrow> nat \<Rightarrow> nat list \<Rightarrow> 'd heap \<Rightarrow> 'd heap" where
  "del_heap xs x ys h =
     h\<lparr>cells := (\<lambda>a. if a = x then None
         else map_option (relink xs (hdp ys None) ys (lastp None xs) a) (cells h a))\<rparr>"

definition header :: "'d llist \<Rightarrow> nat list \<Rightarrow> 'd llist" where
  "header l as =
     l\<lparr>l_head := hdp as None, l_tail := lastp None as, l_count := length as mod 2 ^ 32\<rparr>"

lemma header_self: "dll l h as \<Longrightarrow> header l as = l"
  by (simp add: header_def dll_def)

lemma header_cmp [simp]: "l_cmp (header l as) = l_cmp l"
  by (simp add: header_def)

lemma dll_fresh: "dll l h as \<Longrightarrow> fresh h \<notin> set as \<and> cells h (fresh h) = None"
proof -
  assume d: "dll l h as"
  then have "cells h (fresh h) = None" unfolding dll_def by (metis less_irrefl)
  moreover with d have "fresh h \<notin> set as" unfolding dll_def using dseg_cell by metis
  ultimately show ?thesis by simp
qed

lemma dll_length: "dll l h as \<Longrightarrow> length as \<le> fresh h"
proof -
  assume d: "dll l h as"
  then have "set as \<subseteq> {..<fresh h}" unfolding dll_def using dseg_cell by fastforce
  then have "card (set as) \<le> fresh h" using card_mono [of "{..<fresh h}" "set as"] by simp
  with d show ?thesis by (simp add: dll_def distinct_card)
qed

lemma ins_dll:
  fixes val :: 'd
  assumes "dll l h (xs @ ys)"
  defines "h' \<equiv> ins_heap xs ys val h" and "as \<equiv> xs @ fresh h # ys"
  shows "dll (header l as) h' as"
    and "map (node_data h') as = map (node_data h) xs @ val # map (node_data h) ys"
proof -
  let ?a = "fresh h"
  have fr: "?a \<notin> set xs" "?a \<notin> set ys" using dll_fresh [OF assms(1)] by auto
  have dist: "distinct xs" "distinct ys" "set xs \<inter> set ys = {}"
    and segs: "dseg h None xs (hdp ys None)" "dseg h (lastp None xs) ys None"
    and bound: "\<forall>a. cells h a \<noteq> None \<longrightarrow> a < fresh h"
    using assms(1) by (auto simp: dll_def dseg_append)
  have c: "cells h' a = map_option (relink xs (Some ?a) ys (Some ?a) a) (cells h a)"
    if "a \<noteq> ?a" for a using that by (simp add: h'_def ins_heap_def)
  have "dseg h' None xs (Some ?a)"
  proof (rule dseg_relink [OF segs(1) dist(1)])
    fix a n assume a: "a \<in> set xs" "cells h a = Some n"
    with fr(1) have "a \<noteq> ?a" by auto
    moreover have "ys \<noteq> [] \<Longrightarrow> a \<noteq> hd ys" using dist(3) a(1) by (auto dest: hd_in_set)
    moreover have "a = hd xs \<Longrightarrow> n_prev n = None" using dseg_hd [OF segs(1)] a by force
    ultimately show "\<exists>n'. cells h' a = Some n' \<and> n_next n' = (if a = last xs then Some ?a else n_next n) \<and>
        n_prev n' = (if a = hd xs then None else n_prev n)"
      using c [of a] a by (auto simp: relink_def)
  qed
  moreover have "dseg h' (Some ?a) ys None"
  proof (rule dseg_relink [OF segs(2) dist(2)])
    fix a n assume a: "a \<in> set ys" "cells h a = Some n"
    with fr(2) have "a \<noteq> ?a" by auto
    moreover have "xs \<noteq> [] \<Longrightarrow> a \<noteq> last xs" using dist(3) a(1) by (auto dest: last_in_set)
    moreover have "a = last ys \<Longrightarrow> n_next n = None" using dseg_last [OF segs(2)] a by force
    ultimately show "\<exists>n'. cells h' a = Some n' \<and> n_next n' = (if a = last ys then None else n_next n) \<and>
        n_prev n' = (if a = hd ys then Some ?a else n_prev n)"
      using c [of a] a by (auto simp: relink_def)
  qed
  ultimately show "dll (header l as) h' as"
    using dist fr bound unfolding dll_def as_def
    by (auto simp: dseg_append header_def h'_def ins_heap_def split: if_splits)
  have "node_data h' a = node_data h a" if "a \<in> set (xs @ ys)" for a
  proof -
    have "cells h a \<noteq> None" using that assms(1) dseg_cell unfolding dll_def by metis
    moreover have "a \<noteq> ?a" using that fr by auto
    ultimately show ?thesis using c [of a] by (auto simp: node_data_def relink_def)
  qed
  then show "map (node_data h') as = map (node_data h) xs @ val # map (node_data h) ys"
    by (simp add: as_def) (simp add: node_data_def h'_def ins_heap_def)
qed

lemma ins_lrepr:
  assumes "dll l h (xs @ ys)"
  shows "lrepr (header l (xs @ fresh h # ys)) (ins_heap xs ys val h)
           (map (node_data h) xs @ val # map (node_data h) ys)"
  unfolding lrepr_def using ins_dll [OF assms] by blast

lemma del_dll:
  assumes "dll l h (xs @ x # ys)"
  defines "h' \<equiv> del_heap xs x ys h"
  shows "dll (header l (xs @ ys)) h' (xs @ ys)"
    and "map (node_data h') (xs @ ys) = map (node_data h) (xs @ ys)"
proof -
  have dist: "distinct xs" "distinct ys" "set xs \<inter> set ys = {}" "x \<notin> set xs" "x \<notin> set ys"
    and segs: "dseg h None xs (Some x)" "dseg h (Some x) ys None"
    and bound: "\<forall>a. cells h a \<noteq> None \<longrightarrow> a < fresh h"
    using assms(1) by (auto simp: dll_def dseg_append)
  have c: "cells h' a = map_option (relink xs (hdp ys None) ys (lastp None xs) a) (cells h a)"
    if "a \<noteq> x" for a using that by (simp add: h'_def del_heap_def)
  have "dseg h' None xs (hdp ys None)"
  proof (rule dseg_relink [OF segs(1) dist(1)])
    fix a n assume a: "a \<in> set xs" "cells h a = Some n"
    with dist have "a \<noteq> x" by auto
    moreover have "ys \<noteq> [] \<Longrightarrow> a \<noteq> hd ys" using dist(3) a(1) by (auto dest: hd_in_set)
    moreover have "a = hd xs \<Longrightarrow> n_prev n = None" using dseg_hd [OF segs(1)] a by force
    ultimately show "\<exists>n'. cells h' a = Some n' \<and>
        n_next n' = (if a = last xs then hdp ys None else n_next n) \<and>
        n_prev n' = (if a = hd xs then None else n_prev n)"
      using c [of a] a by (auto simp: relink_def)
  qed
  moreover have "dseg h' (lastp None xs) ys None"
  proof (rule dseg_relink [OF segs(2) dist(2)])
    fix a n assume a: "a \<in> set ys" "cells h a = Some n"
    with dist have "a \<noteq> x" by auto
    moreover have "xs \<noteq> [] \<Longrightarrow> a \<noteq> last xs" using dist(3) a(1) by (auto dest: last_in_set)
    moreover have "a = last ys \<Longrightarrow> n_next n = None" using dseg_last [OF segs(2)] a by force
    ultimately show "\<exists>n'. cells h' a = Some n' \<and> n_next n' = (if a = last ys then None else n_next n) \<and>
        n_prev n' = (if a = hd ys then lastp None xs else n_prev n)"
      using c [of a] a by (auto simp: relink_def)
  qed
  ultimately show "dll (header l (xs @ ys)) h' (xs @ ys)"
    using dist bound unfolding dll_def
    by (auto simp: dseg_append header_def h'_def del_heap_def split: if_splits)
  have "node_data h' a = node_data h a" if "a \<in> set (xs @ ys)" for a
  proof -
    have "cells h a \<noteq> None" using that assms(1) dseg_cell unfolding dll_def by (metis Un_iff insert_iff list.set(2) set_append)
    moreover have "a \<noteq> x" using that dist by auto
    ultimately show ?thesis using c [of a] by (auto simp: node_data_def relink_def)
  qed
  then show "map (node_data h') (xs @ ys) = map (node_data h) (xs @ ys)" by simp
qed

section \<open>Each operation on a well-formed list\<close>

lemmas heap_defs = deref_def upd_def wr_def set_next_def set_prev_def ins_heap_def header_def
  relink_def count_inc_def listnode_new_def

text \<open>Heaps are compared cell by cell.\<close>

lemma heap_eq_iff: "h = h' \<longleftrightarrow> (\<forall>a. cells h a = cells h' a) \<and> fresh h = fresh (h' :: 'd heap)"
  by (cases h; cases h') (auto simp: fun_eq_iff)

lemma llist_eq_iff:
  "l = (l' :: 'd llist) \<longleftrightarrow>
     l_head l = l_head l' \<and> l_tail l = l_tail l' \<and> l_count l = l_count l' \<and> l_cmp l = l_cmp l'"
  by (cases l; cases l') auto

lemma link_tail_eq:
  assumes "dll l h as" and "listnode_new val h = (new, h1)"
  shows "link_tail l new h1 = Ret (header l (as @ [new]), ins_heap as [] val h)"
proof -
  have new: "new = fresh h" "h1 = snd (listnode_new val h)" using assms(2) by (auto simp: listnode_new_def)
  have fr: "fresh h \<notin> set as" using dll_fresh [OF assms(1)] by simp
  show ?thesis
  proof (cases as rule: rev_cases)
    case Nil
    with assms(1) new show ?thesis
      by (auto simp: link_tail_def heap_defs dll_def heap_eq_iff map_option_case split: option.split)
  next
    case (snoc bs b)
    with assms(1) obtain n where "cells h b = Some n" by (auto simp: dll_def dseg_append)
    with snoc assms(1) new fr show ?thesis
      by (auto simp: link_tail_def heap_defs dll_def heap_eq_iff mod_Suc_eq map_option_case
          split: option.split)
  qed
qed

lemma link_before_eq:
  assumes "dll l h (xs @ n # ys)" and "listnode_new val h = (new, h1)"
  shows "link_before l new n h1 = Ret (header l (xs @ new # n # ys), ins_heap xs (n # ys) val h)"
proof -
  have new: "new = fresh h" "h1 = snd (listnode_new val h)" using assms(2) by (auto simp: listnode_new_def)
  have fr: "fresh h \<notin> set (xs @ n # ys)" using dll_fresh [OF assms(1)] by simp
  obtain nn where nn: "cells h n = Some nn" "n_prev nn = lastp None xs"
    using assms(1) by (auto simp: dll_def dseg_append)
  show ?thesis
  proof (cases xs rule: rev_cases)
    case Nil
    with assms(1) new fr nn show ?thesis
      by (auto simp: link_before_def heap_defs dll_def heap_eq_iff mod_Suc_eq map_option_case
          split: option.split)
  next
    case (snoc bs b)
    with assms(1) obtain m where "cells h b = Some m" "b \<noteq> n" by (auto simp: dll_def dseg_append)
    with snoc assms(1) new fr nn show ?thesis
      by (auto simp: link_before_def heap_defs dll_def heap_eq_iff mod_Suc_eq map_option_case
          split: option.split)
  qed
qed

lemma find_node_eq:
  "dseg h p as None \<Longrightarrow> length as \<le> fuel \<Longrightarrow>
     find_node fuel P h (hdp as None) = Ret (hdp (dropWhile (\<lambda>a. \<not> P (node_data h a)) as) None)"
proof (induction as arbitrary: p fuel)
  case Nil
  then show ?case by simp
next
  case (Cons a as)
  then obtain f where f: "fuel = Suc f" by (cases fuel) auto
  from Cons.prems(1) obtain n where n: "cells h a = Some n" "n_next n = hdp as None" by auto
  with Cons f show ?case by (auto simp: deref_def node_data_def)
qed

lemma list_delete_node_eq:
  assumes "dll l h (xs @ x # ys)"
  shows "list_delete_node l x h = Ret (header l (xs @ ys), del_heap xs x ys h)"
proof -
  obtain n where n: "cells h x = Some n" "n_prev n = lastp None xs" "n_next n = hdp ys None"
    using assms by (auto simp: dll_def dseg_append)
  have cnt: "(Suc k mod 2 ^ 32 + 2 ^ 32 - 1) mod 2 ^ 32 = k mod 2 ^ 32" for k :: nat
    by (simp add: mod_Suc)
  have hx: "\<exists>m. cells h (last xs) = Some m" "last xs \<noteq> x" if "xs \<noteq> []"
    using assms that by (cases xs rule: rev_cases; auto simp: dll_def dseg_append)+
  have hy: "\<exists>m. cells h (hd ys) = Some m" "hd ys \<noteq> x" if "ys \<noteq> []"
    using assms that by (cases ys; auto simp: dll_def dseg_append)+
  have hxy: "last xs \<noteq> hd ys" if "xs \<noteq> []" "ys \<noteq> []"
    using assms that by (auto simp: dll_def dest: last_in_set hd_in_set)
  note defs = list_delete_node_def heap_defs del_heap_def listnode_free_def count_dec_def
    heap_eq_iff llist_eq_iff map_option_case
  show ?thesis
  proof (cases "xs = []")
    case True
    show ?thesis
    proof (cases "ys = []")
      case True
      with \<open>xs = []\<close> n assms show ?thesis by (auto simp: defs dll_def cnt [of 0] split: option.split)
    next
      case False
      then obtain y zs where y: "ys = y # zs" by (cases ys) auto
      with True n assms hy [OF False] cnt [of "Suc (length zs)"] show ?thesis
        by (auto simp: defs dll_def split: option.split)
    qed
  next
    case False
    then obtain zs z where z: "xs = zs @ [z]" by (cases xs rule: rev_cases) auto
    show ?thesis
    proof (cases "ys = []")
      case True
      with z n assms hx [OF False] cnt [of "Suc (length zs)"] show ?thesis
        by (auto simp: defs dll_def split: option.split)
    next
      case nF: False
      then obtain y ws where y: "ys = y # ws" by (cases ys) auto
      with z n assms hx [OF False] hy [OF nF] hxy [OF False nF]
        cnt [of "Suc (Suc (length zs + length ws))"] show ?thesis
        by (auto simp: defs dll_def split: option.split)
    qed
  qed
qed

lemma dseg_new_cell:
  "dll l h as \<Longrightarrow> listnode_new val h = (new, h1) \<Longrightarrow>
     dseg h1 None as None \<and> map (node_data h1) as = map (node_data h) as \<and> length as \<le> fresh h1"
proof -
  assume d: "dll l h as" and n: "listnode_new val h = (new, h1)"
  have c: "cells h1 a = cells h a" if "a \<in> set as" for a
    using that dll_fresh [OF d] n by (auto simp: listnode_new_def)
  with d have "dseg h1 None as None" using dseg_cong [of as h1 h] by (simp add: dll_def)
  with c dll_length [OF d] n show ?thesis by (auto simp: node_data_def listnode_new_def)
qed

lemma dropWhile_map_node:
  "map f as = ds \<Longrightarrow> map f (dropWhile (\<lambda>a. Q (f a)) as) = dropWhile Q ds \<and>
     map f (takeWhile (\<lambda>a. Q (f a)) as) = takeWhile Q ds"
  by (auto simp: dropWhile_map takeWhile_map comp_def)

text \<open>Where \<open>listnode_add_sort\<close> puts a value: in front of the first one that compares greater.\<close>

definition ins_sorted :: "('d \<Rightarrow> 'd \<Rightarrow> int) option \<Rightarrow> 'd \<Rightarrow> 'd list \<Rightarrow> 'd list" where
  "ins_sorted cmp val ds =
     (case cmp of None \<Rightarrow> ds @ [val]
      | Some c \<Rightarrow> takeWhile (\<lambda>d. \<not> c val d < 0) ds @ val # dropWhile (\<lambda>d. \<not> c val d < 0) ds)"

lemma lrepr_add_sort:
  assumes "lrepr l h ds"
  shows "\<exists>l' h'. listnode_add_sort l val h = Ret (l', h') \<and>
           lrepr l' h' (ins_sorted (l_cmp l) val ds) \<and> l_cmp l' = l_cmp l"
proof -
  obtain as where as: "dll l h as" "map (node_data h) as = ds" using assms by (auto simp: lrepr_def)
  obtain new h1 where n: "listnode_new val h = (new, h1)" by fastforce
  then have new: "new = fresh h" by (simp add: listnode_new_def)
  note h1 = dseg_new_cell [OF as(1) n]
  have tail: "\<exists>l' h'. link_tail l new h1 = Ret (l', h') \<and> lrepr l' h' (ds @ [val]) \<and> l_cmp l' = l_cmp l"
    using ins_lrepr [of l h as "[]" val] as link_tail_eq [OF as(1) n] new by auto
  show ?thesis
  proof (cases "l_cmp l")
    case None
    with tail n show ?thesis by (auto simp: listnode_add_sort_def ins_sorted_def)
  next
    case (Some c)
    let ?Q = "\<lambda>d. \<not> c val d < 0"
    let ?xs = "takeWhile (\<lambda>a. ?Q (node_data h a)) as" and ?ys = "dropWhile (\<lambda>a. ?Q (node_data h a)) as"
    have split: "as = ?xs @ ?ys" by simp
    have maps: "map (node_data h) ?xs = takeWhile ?Q ds" "map (node_data h) ?ys = dropWhile ?Q ds"
      using dropWhile_map_node [OF as(2), of ?Q] by auto
    have same: "node_data h1 a = node_data h a" if "a \<in> set as" for a
      using h1 that by auto
    have "dropWhile (\<lambda>a. ?Q (node_data h1 a)) as = ?ys"
      by (rule dropWhile_cong) (auto simp: same)
    then have find: "find_node (fresh h1) (\<lambda>d. c val d < 0) h1 (l_head l) = Ret (hdp ?ys None)"
      using find_node_eq [of h1 None as "fresh h1" "\<lambda>d. c val d < 0"] h1 as(1) by (simp add: dll_def)
    show ?thesis
    proof (cases ?ys)
      case Nil
      then have "dropWhile ?Q ds = []" using maps(2) by (metis list.simps(8))
      then have "takeWhile ?Q ds = ds" by (metis append_Nil2 takeWhile_dropWhile_id)
      then have ins: "ins_sorted (l_cmp l) val ds = ds @ [val]"
        using Some \<open>dropWhile ?Q ds = []\<close> by (simp add: ins_sorted_def del: dropWhile_eq_Nil_conv takeWhile_eq_all_conv)
      have "listnode_add_sort l val h = link_tail l new h1"
        using n Some find Nil by (simp add: listnode_add_sort_def)
      with tail ins show ?thesis by simp
    next
      case (Cons y ys)
      have d: "dll l h (?xs @ y # ys)" using as(1) split Cons by simp
      have "lrepr (header l (?xs @ new # y # ys)) (ins_heap ?xs (y # ys) val h)
          (takeWhile ?Q ds @ val # dropWhile ?Q ds)"
        using ins_lrepr [OF d, of val] maps Cons new by simp
      with n Some find Cons link_before_eq [OF d n] show ?thesis
        by (simp add: listnode_add_sort_def ins_sorted_def)
    qed
  qed
qed

lemma lrepr_add_old:
  assumes "lrepr l h ds"
  shows "\<exists>l' h'. listnode_add_old l val h = Ret (l', h') \<and> lrepr l' h' (ds @ [val]) \<and> l_cmp l' = l_cmp l"
proof -
  obtain as where as: "dll l h as" "map (node_data h) as = ds" using assms by (auto simp: lrepr_def)
  obtain new h1 where n: "listnode_new val h = (new, h1)" by fastforce
  have "listnode_add_old l val h = link_tail l new h1"
    using as(1) n by (cases "as = []") (simp_all add: listnode_add_old_def link_tail_def dll_def)
  then show ?thesis
    using link_tail_eq [OF as(1) n] ins_lrepr [of l h as "[]" val] as n
    by (auto simp: listnode_new_def)
qed

lemma lrepr_delete:
  assumes "lrepr l h ds"
  shows "\<exists>l' h'. listnode_delete l val h = Ret (l', h') \<and> lrepr l' h' (remove1 val ds) \<and> l_cmp l' = l_cmp l"
proof -
  obtain as where as: "dll l h as" "map (node_data h) as = ds" using assms by (auto simp: lrepr_def)
  let ?Q = "\<lambda>d. d \<noteq> val"
  let ?xs = "takeWhile (\<lambda>a. ?Q (node_data h a)) as" and ?ys = "dropWhile (\<lambda>a. ?Q (node_data h a)) as"
  have find: "find_node (fresh h) (\<lambda>d. d = val) h (l_head l) = Ret (hdp ?ys None)"
    using find_node_eq [of h None as "fresh h" "\<lambda>d. d = val"] as(1) dll_length [OF as(1)]
    by (simp add: dll_def)
  show ?thesis
  proof (cases ?ys)
    case Nil
    then have "val \<notin> set ds" using as(2) by (auto simp: dropWhile_eq_Nil_conv)
    with find Nil assms show ?thesis by (simp add: listnode_delete_def remove1_idem)
  next
    case (Cons y ys)
    have split: "as = ?xs @ y # ys" using Cons by (metis takeWhile_dropWhile_id)
    then have d: "dll l h (?xs @ y # ys)" using as(1) by simp
    have y: "node_data h y = val" using Cons by (metis (mono_tags, lifting) dropWhile_eq_Cons_conv)
    have "val \<notin> node_data h ` set ?xs" by (auto dest: set_takeWhileD)
    then have "remove1 val ds = map (node_data h) (?xs @ ys)"
      unfolding as(2) [symmetric] using y by (subst split) (simp add: remove1_append)
    then have "lrepr (header l (?xs @ ys)) (del_heap ?xs y ys h) (remove1 val ds)"
      unfolding lrepr_def using del_dll [OF d] by metis
    then show ?thesis using find Cons list_delete_node_eq [OF d] by (simp add: listnode_delete_def)
  qed
qed

lemma walk_eq:
  "dseg h p as None \<Longrightarrow> length as \<le> fuel \<Longrightarrow> walk fuel h (hdp as None) = Ret (map (node_data h) as)"
proof (induction as arbitrary: p fuel)
  case Nil
  then show ?case by simp
next
  case (Cons a as)
  then obtain f where f: "fuel = Suc f" by (cases fuel) auto
  from Cons.prems(1) obtain n where n: "cells h a = Some n" "n_next n = hdp as None" by auto
  with Cons f show ?case by (auto simp: deref_def node_data_def)
qed

lemma free_nodes_eq:
  "dseg h p as None \<Longrightarrow> distinct as \<Longrightarrow> length as \<le> fuel \<Longrightarrow>
     \<exists>h'. free_nodes fuel h (hdp as None) = Ret (map (node_data h) as, h') \<and> fresh h' = fresh h \<and>
       (\<forall>a. cells h' a = (if a \<in> set as then None else cells h a))"
proof (induction as arbitrary: p fuel h)
  case Nil
  then show ?case by simp
next
  case (Cons a as)
  then obtain f where f: "fuel = Suc f" by (cases fuel) auto
  from Cons.prems(1) obtain n where n: "cells h a = Some n" "n_next n = hdp as None" by auto
  let ?h = "listnode_free a h"
  have "dseg ?h (Some a) as None"
  proof (subst dseg_cong [where h = h])
    show "cells ?h b = cells h b" if "b \<in> set as" for b
      using that Cons.prems(2) by (auto simp: listnode_free_def)
  qed (use Cons.prems(1) in simp)
  from Cons.IH [OF this, of f] Cons.prems f obtain h' where
    h': "free_nodes f ?h (hdp as None) = Ret (map (node_data ?h) as, h')" "fresh h' = fresh ?h"
      "\<forall>b. cells h' b = (if b \<in> set as then None else cells ?h b)" by auto
  have "map (node_data ?h) as = map (node_data h) as"
    using Cons.prems(2) by (auto simp: listnode_free_def node_data_def)
  with h' n f show ?case by (auto simp: deref_def node_data_def listnode_free_def)
qed

lemma lrepr_delete_all:
  assumes "lrepr l h ds"
  shows "\<exists>l' h'. list_delete_all_node l h = Ret (ds, l', h') \<and> lrepr l' h' [] \<and> l_cmp l' = l_cmp l"
proof -
  obtain as where as: "dll l h as" "map (node_data h) as = ds" using assms by (auto simp: lrepr_def)
  obtain h' where h': "free_nodes (fresh h) h (hdp as None) = Ret (map (node_data h) as, h')"
      "fresh h' = fresh h" "\<forall>a. cells h' a = (if a \<in> set as then None else cells h a)"
    using free_nodes_eq [of h None as "fresh h"] as(1) dll_length [OF as(1)] by (auto simp: dll_def)
  then show ?thesis
    using as by (auto simp: list_delete_all_node_def lrepr_def dll_def)
qed

lemma lrepr_new [simp]: "lrepr list_new \<lparr>cells = \<lambda>_. None, fresh = 0\<rparr> []"
  by (auto simp: lrepr_def dll_def list_new_def)

section \<open>The contract\<close>

text \<open>The list as the sequence of its data, read off by the loop the clients use.\<close>

definition ll_abs :: "'d llist \<times> 'd heap \<Rightarrow> ('d \<Rightarrow> 'd \<Rightarrow> int) option \<times> 'd list" where
  "ll_abs s = (l_cmp (fst s),
     case walk (fresh (snd s)) (snd s) (l_head (fst s)) of Ret ds \<Rightarrow> ds | _ \<Rightarrow> [])"

definition ll_ok :: "'d llist \<times> 'd heap \<Rightarrow> bool" where
  "ll_ok s \<longleftrightarrow> (\<exists>ds. lrepr (fst s) (snd s) ds)"

datatype 'd lop = LAddOld 'd | LAddSort 'd | LDelete 'd | LDeleteAll

fun ll_step :: "'d llist \<times> 'd heap \<Rightarrow> 'd lop \<Rightarrow> ('d llist \<times> 'd heap) outcome" where
  "ll_step (l, h) (LAddOld d) = listnode_add_old l d h"
| "ll_step (l, h) (LAddSort d) = listnode_add_sort l d h"
| "ll_step (l, h) (LDelete d) = listnode_delete l d h"
| "ll_step (l, h) LDeleteAll = omap snd (list_delete_all_node l h)"

fun seq_step :: "('d \<Rightarrow> 'd \<Rightarrow> int) option \<times> 'd list \<Rightarrow> 'd lop \<Rightarrow> ('d \<Rightarrow> 'd \<Rightarrow> int) option \<times> 'd list" where
  "seq_step (cmp, ds) (LAddOld d) = (cmp, ds @ [d])"
| "seq_step (cmp, ds) (LAddSort d) = (cmp, ins_sorted cmp d ds)"
| "seq_step (cmp, ds) (LDelete d) = (cmp, remove1 d ds)"
| "seq_step (cmp, ds) LDeleteAll = (cmp, [])"

lemma ll_abs_repr: "lrepr l h ds \<Longrightarrow> ll_abs (l, h) = (l_cmp l, ds)"
proof -
  assume "lrepr l h ds"
  then obtain as where as: "dll l h as" "map (node_data h) as = ds" by (auto simp: lrepr_def)
  with walk_eq [of h None as "fresh h"] dll_length [OF as(1)] show ?thesis
    by (simp add: ll_abs_def dll_def)
qed

interpretation ll: bounded_simulation ll_abs ll_ok ll_step seq_step "\<lambda>_. 0" "\<lambda>_. 0" 0
proof (unfold_locales, goal_cases)
  case (1 s x)
  obtain l h where s: "s = (l, h)" by fastforce
  with 1 obtain ds where r: "lrepr l h ds" by (auto simp: ll_ok_def)
  have "\<exists>l' h' ds'. ll_step (l, h) x = Ret (l', h') \<and> lrepr l' h' ds' \<and>
      (l_cmp l', ds') = seq_step (l_cmp l, ds) x"
    using lrepr_add_old [OF r] lrepr_add_sort [OF r] lrepr_delete [OF r] lrepr_delete_all [OF r]
    by (cases x) fastforce+
  then obtain l' h' ds' where s': "ll_step (l, h) x = Ret (l', h')" "lrepr l' h' ds'"
      "(l_cmp l', ds') = seq_step (l_cmp l, ds) x" by blast
  with s ll_abs_repr [OF r] ll_abs_repr [OF s'(2)] show ?case
    by (auto simp: ll_ok_def intro!: exI [of _ ds'])
qed simp

section \<open>Inserting next to a node\<close>

lemma list_add_node_prev_eq:
  assumes "dll l h (xs @ x # ys)"
  shows "list_add_node_prev l x val h =
           Ret (header l (xs @ fresh h # x # ys), ins_heap xs (x # ys) val h)"
proof -
  obtain new h1 where n: "listnode_new val h = (new, h1)" by fastforce
  have fr: "fresh h \<notin> set (xs @ x # ys)" using dll_fresh [OF assms] by simp
  obtain nn where nn: "cells h x = Some nn" "n_prev nn = lastp None xs"
    using assms by (auto simp: dll_def dseg_append)
  show ?thesis
  proof (cases xs rule: rev_cases)
    case Nil
    with assms fr nn show ?thesis
      by (auto simp: list_add_node_prev_def heap_defs dll_def heap_eq_iff mod_Suc_eq map_option_case
          split: option.split)
  next
    case (snoc bs b)
    with assms obtain m where "cells h b = Some m" "b \<noteq> x" by (auto simp: dll_def dseg_append)
    with snoc assms fr nn show ?thesis
      by (auto simp: list_add_node_prev_def heap_defs dll_def heap_eq_iff mod_Suc_eq map_option_case
          split: option.split)
  qed
qed

lemma list_add_node_next_eq:
  assumes "dll l h (xs @ x # ys)"
  shows "list_add_node_next l x val h =
           Ret (header l ((xs @ [x]) @ fresh h # ys), ins_heap (xs @ [x]) ys val h)"
proof -
  have fr: "fresh h \<notin> set (xs @ x # ys)" using dll_fresh [OF assms] by simp
  obtain nn where nn: "cells h x = Some nn" "n_next nn = hdp ys None"
    using assms by (auto simp: dll_def dseg_append)
  show ?thesis
  proof (cases ys)
    case Nil
    with assms fr nn show ?thesis
      by (auto simp: list_add_node_next_def heap_defs dll_def heap_eq_iff mod_Suc_eq map_option_case
          split: option.split)
  next
    case (Cons b bs)
    with assms obtain m where "cells h b = Some m" "b \<noteq> x" by (auto simp: dll_def dseg_append)
    with Cons assms fr nn show ?thesis
      by (auto simp: list_add_node_next_def heap_defs dll_def heap_eq_iff mod_Suc_eq map_option_case
          split: option.split)
  qed
qed

lemma listnode_add_after_head_eq:
  assumes "dll l h as"
  shows "listnode_add_after l None val h =
           Ret ((header l (fresh h # as))\<lparr>l_count := l_count l\<rparr>, ins_heap [] as val h)"
proof -
  have fr: "fresh h \<notin> set as" using dll_fresh [OF assms] by simp
  show ?thesis
  proof (cases as)
    case Nil
    with assms fr show ?thesis
      by (auto simp: listnode_add_after_def heap_defs dll_def heap_eq_iff map_option_case
          split: option.split)
  next
    case (Cons b bs)
    with assms obtain m where "cells h b = Some m" by (auto simp: dll_def)
    with Cons assms fr show ?thesis
      by (auto simp: listnode_add_after_def heap_defs dll_def heap_eq_iff map_option_case
          split: option.split)
  qed
qed

section \<open>Sorted lists\<close>

text \<open>With a comparison that agrees with a linear order, insertion keeps the list sorted.\<close>

lemma ins_sorted_set [simp]: "set (ins_sorted cmp v ds) = insert v (set ds)"
proof -
  have "set (takeWhile P ds) \<union> set (dropWhile P ds) = set ds" for P
    by (metis set_append takeWhile_dropWhile_id)
  then show ?thesis by (auto simp: ins_sorted_def split: option.split)
qed

lemma ins_sorted_sorted:
  fixes v :: "'a::linorder"
  assumes "sorted ds" and "\<And>d. c v d < 0 \<longleftrightarrow> v < d"
  shows "sorted (ins_sorted (Some c) v ds)"
  using assms(1)
proof (induction ds)
  case Nil
  then show ?case by (simp add: ins_sorted_def)
next
  case (Cons d ds)
  show ?case
  proof (cases "v < d")
    case True
    with Cons.prems assms(2) show ?thesis by (auto simp: ins_sorted_def)
  next
    case False
    with assms(2) have "ins_sorted (Some c) v (d # ds) = d # ins_sorted (Some c) v ds"
      by (simp add: ins_sorted_def)
    with Cons False show ?thesis by auto
  qed
qed

section \<open>Properties\<close>

text \<open>
  C36. Memory safety and functional correctness of the linked list: every sequence of
  \<open>listnode_add_old\<close>, \<open>listnode_add_sort\<close>, \<open>listnode_delete\<close> and
  \<open>list_delete_all_node\<close> calls on a new list returns, follows no NULL or freed pointer, leaves a
  chain that is linked both ways, and holds exactly the data that the same sequence leaves in a
  plain sequence.
\<close>

theorem linklist_refines_sequence:
  "\<exists>s. run_ops ll_step (list_new\<lparr>l_cmp := cmp\<rparr>, \<lparr>cells = \<lambda>_. None, fresh = 0\<rparr>) ops = Ret s \<and>
     ll_ok s \<and> ll_abs s = foldl seq_step (cmp, []) ops"
proof -
  have r: "lrepr (list_new\<lparr>l_cmp := cmp\<rparr>) \<lparr>cells = \<lambda>_. None, fresh = 0\<rparr> []"
    by (auto simp: lrepr_def dll_def list_new_def)
  have "ll_abs (list_new\<lparr>l_cmp := cmp\<rparr>, \<lparr>cells = \<lambda>_. None, fresh = 0\<rparr>) = (cmp, [])"
    using ll_abs_repr [OF r] by simp
  with r show ?thesis
    using ll.run_sim [of "(list_new\<lparr>l_cmp := cmp\<rparr>, \<lparr>cells = \<lambda>_. None, fresh = 0\<rparr>)" ops]
    by (auto simp: ll_ok_def)
qed



text \<open>
  C38. \<open>listnode_add_after\<close> at the front links the new node in correctly, but leaves
  \<open>list->count\<close> as it was: the count then differs from the number of nodes, unlike after every
  other insertion.
\<close>

theorem listnode_add_after_count:
  assumes "lrepr l h ds"
  shows "\<exists>l' h'. listnode_add_after l None val h = Ret (l', h') \<and>
           walk (fresh h') h' (l_head l') = Ret (val # ds) \<and>
           l_count l' = length ds mod 2 ^ 32 \<and> \<not> ll_ok (l', h')"
proof -
  obtain as where as: "dll l h as" "map (node_data h) as = ds" using assms by (auto simp: lrepr_def)
  let ?l = "header l (fresh h # as)" and ?h = "ins_heap [] as val h"
  have r: "dll ?l ?h (fresh h # as)" "map (node_data ?h) (fresh h # as) = val # ds"
    using ins_dll [of l h "[]" as val] as by simp_all
  have cnt: "l_count l = length ds mod 2 ^ 32" using as by (auto simp: dll_def)
  have w: "walk (fresh ?h) ?h (l_head ?l) = Ret (val # ds)"
    using walk_eq [of ?h None "fresh h # as" "fresh ?h"] r dll_length [OF r(1)] by (simp add: dll_def)
  have "\<not> ll_ok (?l\<lparr>l_count := l_count l\<rparr>, ?h)"
  proof
    assume "ll_ok (?l\<lparr>l_count := l_count l\<rparr>, ?h)"
    then obtain es where e: "lrepr (?l\<lparr>l_count := l_count l\<rparr>) ?h es" by (auto simp: ll_ok_def)
    have "es = val # ds" using ll_abs_repr [OF e] w by (simp add: ll_abs_def)
    then have "length ds mod 2 ^ 32 = Suc (length ds) mod 2 ^ 32"
      using e cnt by (auto simp: lrepr_def dll_def)
    then show False by (simp add: mod_Suc split: if_splits)
  qed
  with listnode_add_after_head_eq [OF as(1), of val] w cnt show ?thesis by auto
qed

theorem listnode_add_after_count_witness:
  "\<exists>l h. listnode_add_after list_new None (5 :: nat) \<lparr>cells = \<lambda>_. None, fresh = 0\<rparr> = Ret (l, h) \<and>
     walk (fresh h) h (l_head l) = Ret [5] \<and> l_count l = 0 \<and> \<not> ll_ok (l, h)"
  using listnode_add_after_count [OF lrepr_new, of "5 :: nat"] by simp

text \<open>
  Inserting before or after a given node (\<open>list_add_node_prev\<close>,
  \<open>list_add_node_next\<close>) puts the value exactly there and keeps the list well formed.
\<close>

theorem list_add_node_position:
  assumes "dll l h (xs @ x # ys)"
  shows "(\<exists>l' h'. list_add_node_prev l x val h = Ret (l', h') \<and>
            lrepr l' h' (map (node_data h) xs @ val # map (node_data h) (x # ys))) \<and>
         (\<exists>l' h'. list_add_node_next l x val h = Ret (l', h') \<and>
            lrepr l' h' (map (node_data h) (xs @ [x]) @ val # map (node_data h) ys))"
  using list_add_node_prev_eq [OF assms, of val] ins_lrepr [OF assms, of val]
    list_add_node_next_eq [OF assms, of val] ins_lrepr [of l h "xs @ [x]" ys val] assms
  by auto

theorem list_add_node_position_witness:
  "\<exists>l h. dll l h ([] @ 0 # []) \<and> node_data h 0 = (8 :: nat) \<and>
     (\<exists>l' h'. list_add_node_prev l 0 7 h = Ret (l', h') \<and> lrepr l' h' [7, 8]) \<and>
     (\<exists>l' h'. list_add_node_next l 0 9 h = Ret (l', h') \<and> lrepr l' h' [8, 9])"
proof -
  let ?e = "\<lparr>cells = \<lambda>_. None, fresh = 0\<rparr> :: nat heap"
  have "dll list_new ?e ([] @ [])" by (simp add: dll_def list_new_def)
  from ins_dll [OF this, of 8] have d: "dll (header list_new [0]) (ins_heap [] [] 8 ?e) ([] @ 0 # [])"
      "node_data (ins_heap [] [] 8 ?e) 0 = 8" by simp_all
  from list_add_node_position [OF d(1), of 7] list_add_node_position [OF d(1), of 9] d
  show ?thesis by (intro exI [of _ "header list_new [0]"] exI [of _ "ins_heap [] [] 8 ?e"]) simp
qed

end
