(* ===== verification/Vector.thy ===== *)
theory Vector
  imports C_Base
begin

text \<open>
  The growing pointer array of \<open>src/wgshell/vtysh/vector.c\<close>: the record with its capacity
  (\<open>alloced\<close>), its fill mark (\<open>max\<close>) and its slots, every operation, and the contract its
  clients rely on.

  A slot is an \<open>option\<close>: \<open>None\<close> is the NULL pointer. The fields are C's
  \<open>unsigned int\<close>: doubling \<open>alloced\<close> past \<open>2 ^ 32\<close> wraps, \<open>XREALLOC\<close> then
  shrinks the block and the \<open>memset\<close> behind it writes past its end, which is undefined; and a
  capacity of 0 doubles to 0, so the recursion never returns.

  The abstract view of a vector is the list of its slots below \<open>max\<close>. The locale
  \<open>slot_vector\<close> states what each operation does to that list, and the interpretation at the end
  discharges it for the C code, for vectors of fewer than \<open>2 ^ 31\<close> slots. The command
  interpreter (theories \<open>Cmd_Tokens\<close> and following) works on the abstract view.
\<close>

section \<open>The C code\<close>

record 'a vector =
  vmax :: nat
  valloced :: nat
  vindex :: "'a option list"

definition VECTOR_MIN_SIZE :: nat where
  "VECTOR_MIN_SIZE = 1"

definition vector_init :: "nat \<Rightarrow> 'a vector" where
  "vector_init n =
     (let n = (if n = 0 then 1 else n)
      in \<lparr>vmax = 0, valloced = n, vindex = replicate n None\<rparr>)"

definition vector_copy :: "'a vector \<Rightarrow> 'a vector" where
  "vector_copy v =
     \<lparr>vmax = vmax v, valloced = valloced v, vindex = take (valloced v) (vindex v)\<rparr>"

function vector_ensure :: "'a vector \<Rightarrow> nat \<Rightarrow> 'a vector outcome" where
  "vector_ensure v num =
     (if num < valloced v then Ret v
      else if valloced v = 0 \<or> 2 ^ 32 \<le> valloced v * 2 then Undef
      else
        let v' = v\<lparr>vindex := vindex v @ replicate (valloced v) None,
                   valloced := valloced v * 2\<rparr>
        in if valloced v' \<le> num then vector_ensure v' num else Ret v')"
  by pat_completeness auto
termination
  by (relation "measure (\<lambda>(v, num). Suc num - valloced v)") auto

declare vector_ensure.simps [simp del]

text \<open>The loop of \<open>vector_empty_slot\<close>: the index of the first NULL slot, or one past the last.\<close>

fun first_null :: "nat \<Rightarrow> 'a option list \<Rightarrow> nat" where
  "first_null i [] = i"
| "first_null i (x # xs) = (if x = None then i else first_null (Suc i) xs)"

definition vector_empty_slot :: "'a vector \<Rightarrow> nat" where
  "vector_empty_slot v =
     (if vmax v = 0 then 0 else first_null 0 (take (vmax v) (vindex v)))"

definition vector_set_index :: "'a vector \<Rightarrow> nat \<Rightarrow> 'a option \<Rightarrow> (nat \<times> 'a vector) outcome" where
  "vector_set_index v i val =
     obind (vector_ensure v i) (\<lambda>v.
       let v = v\<lparr>vindex := (vindex v)[i := val]\<rparr>
       in Ret (i, if vmax v \<le> i then v\<lparr>vmax := i + 1\<rparr> else v))"

definition vector_set :: "'a vector \<Rightarrow> 'a option \<Rightarrow> (nat \<times> 'a vector) outcome" where
  "vector_set v val =
     (let i = vector_empty_slot v in
      obind (vector_ensure v i) (\<lambda>v.
        let v = v\<lparr>vindex := (vindex v)[i := val]\<rparr>
        in Ret (i, if vmax v \<le> i then v\<lparr>vmax := i + 1\<rparr> else v)))"

definition vector_lookup :: "'a vector \<Rightarrow> nat \<Rightarrow> 'a option" where
  "vector_lookup v i = (if i \<ge> vmax v then None else vindex v ! i)"

definition vector_lookup_ensure :: "'a vector \<Rightarrow> nat \<Rightarrow> ('a option \<times> 'a vector) outcome" where
  "vector_lookup_ensure v i =
     obind (vector_ensure v i) (\<lambda>v. Ret (vindex v ! i, v))"

text \<open>
  \<open>while (i && v->index[--i] == NULL && v->max--)\<close>: the value of \<open>max\<close> when it stops.
  A \<open>max\<close> of 0 would wrap.
\<close>

fun unset_loop :: "'a option list \<Rightarrow> nat \<Rightarrow> nat \<Rightarrow> nat" where
  "unset_loop idx 0 m = m"
| "unset_loop idx (Suc i) m =
     (if idx ! i = None then (if m = 0 then 2 ^ 32 - 1 else unset_loop idx i (m - 1)) else m)"

definition vector_unset :: "'a vector \<Rightarrow> nat \<Rightarrow> 'a vector" where
  "vector_unset v i =
     (if i \<ge> valloced v then v
      else
        let v = v\<lparr>vindex := (vindex v)[i := None]\<rparr>
        in if i + 1 = vmax v
           then v\<lparr>vmax := unset_loop (vindex v) i (vmax v - 1)\<rparr>
           else v)"

fun count_slots :: "nat \<Rightarrow> 'a option list \<Rightarrow> nat" where
  "count_slots n [] = n"
| "count_slots n (x # xs) = count_slots (if x \<noteq> None then Suc n else n) xs"

definition vector_count :: "'a vector \<Rightarrow> nat" where
  "vector_count v = count_slots 0 (take (vmax v) (vindex v))"

section \<open>The abstract view and the well-formedness invariant\<close>

definition vslots :: "'a vector \<Rightarrow> 'a option list" where
  "vslots v = take (vmax v) (vindex v)"

definition vec_ok :: "'a vector \<Rightarrow> bool" where
  "vec_ok v \<longleftrightarrow>
     length (vindex v) = valloced v \<and> 0 < valloced v \<and> valloced v < 2 ^ 32 \<and>
     vmax v \<le> valloced v \<and> set (drop (vmax v) (vindex v)) \<subseteq> {None}"

text \<open>What the operations do to the list of slots.\<close>

definition slots_set :: "'a option list \<Rightarrow> 'a option \<Rightarrow> 'a option list" where
  "slots_set xs val =
     (let i = first_null 0 xs in if i < length xs then xs[i := val] else xs @ [val])"

definition slots_set_index :: "'a option list \<Rightarrow> nat \<Rightarrow> 'a option \<Rightarrow> 'a option list" where
  "slots_set_index xs i val =
     (if i < length xs then xs[i := val]
      else xs @ replicate (i - length xs) None @ [val])"

definition slots_lookup :: "'a option list \<Rightarrow> nat \<Rightarrow> 'a option" where
  "slots_lookup xs i = (if i < length xs then xs ! i else None)"

definition strip_null :: "'a option list \<Rightarrow> 'a option list" where
  "strip_null xs = rev (dropWhile (\<lambda>x. x = None) (rev xs))"

definition slots_unset :: "'a option list \<Rightarrow> nat \<Rightarrow> 'a option list" where
  "slots_unset xs i =
     (if i < length xs then
        (if Suc i = length xs then strip_null (butlast xs) else xs[i := None])
      else xs)"

lemma first_null_offset: "first_null i xs = i + first_null 0 xs"
proof (induction xs arbitrary: i)
  case (Cons x xs)
  from Cons [of "Suc i"] Cons [of "Suc 0"] show ?case by simp
qed simp

lemma first_null_le: "first_null 0 xs \<le> length xs"
proof (induction xs)
  case (Cons x xs)
  then show ?case by (simp add: first_null_offset [of "Suc 0"])
qed simp

lemma first_null_full: "None \<notin> set xs \<Longrightarrow> first_null 0 xs = length xs"
proof (induction xs)
  case (Cons x xs)
  then show ?case by (cases x) (auto simp: first_null_offset [of "Suc 0"])
qed simp

lemma slots_set_full: "None \<notin> set xs \<Longrightarrow> slots_set xs val = xs @ [val]"
  by (simp add: slots_set_def first_null_full)

lemma length_vslots [simp]: "vec_ok v \<Longrightarrow> length (vslots v) = vmax v"
  by (simp add: vslots_def vec_ok_def)

lemma vec_ok_index: "vec_ok v \<Longrightarrow> vindex v = vslots v @ replicate (valloced v - vmax v) None"
proof -
  assume ok: "vec_ok v"
  then have "drop (vmax v) (vindex v) = replicate (valloced v - vmax v) None"
    by (intro replicate_eqI) (auto simp: vec_ok_def)
  then show ?thesis by (metis append_take_drop_id vslots_def)
qed

lemma vec_ok_init [simp]: "n < 2 ^ 32 \<Longrightarrow> vec_ok (vector_init n)"
  by (auto simp: vector_init_def vec_ok_def)

lemma vslots_init [simp]: "vslots (vector_init n) = []"
  by (simp add: vector_init_def vslots_def Let_def)

lemma vector_copy_eq [simp]: "vec_ok v \<Longrightarrow> vector_copy v = v"
  by (simp add: vector_copy_def vec_ok_def)

section \<open>Growing\<close>

text \<open>
  One doubling keeps the invariant and the abstract view, so the whole growth does; and below
  \<open>2 ^ 31\<close> the doublings end before the capacity wraps.
\<close>

definition grow :: "'a vector \<Rightarrow> 'a vector" where
  "grow v = v\<lparr>vindex := vindex v @ replicate (valloced v) None, valloced := valloced v * 2\<rparr>"

lemma grow_sel [simp]:
  "vmax (grow v) = vmax v" "valloced (grow v) = valloced v * 2"
  "vindex (grow v) = vindex v @ replicate (valloced v) None"
  by (simp_all add: grow_def)

lemma vec_ok_grow: "vec_ok v \<Longrightarrow> valloced v * 2 < 2 ^ 32 \<Longrightarrow> vec_ok (grow v)"
  by (auto simp: vec_ok_def)

lemma vslots_grow: "vec_ok v \<Longrightarrow> vslots (grow v) = vslots v"
  by (simp add: vslots_def vec_ok_def)

lemma vector_ensure_enough: "num < valloced v \<Longrightarrow> vector_ensure v num = Ret v"
  by (subst vector_ensure.simps) simp

lemma vector_ensure_step:
  "vector_ensure v num =
     (if num < valloced v then Ret v
      else if valloced v = 0 \<or> 2 ^ 32 \<le> valloced v * 2 then Undef
      else vector_ensure (grow v) num)"
  by (subst vector_ensure.simps) (auto simp: Let_def grow_def vector_ensure_enough)

lemma vector_ensure_correct:
  assumes "vec_ok v" and "num < 2 ^ 31"
  shows "\<exists>v'. vector_ensure v num = Ret v' \<and> vec_ok v' \<and> num < valloced v' \<and>
           vslots v' = vslots v \<and> vmax v' = vmax v \<and> valloced v' \<le> max (valloced v) (2 * num)"
  using assms
proof (induction v num rule: vector_ensure.induct)
  case (1 v num)
  show ?case
  proof (cases "num < valloced v")
    case True
    with "1.prems" show ?thesis by (simp add: vector_ensure_step)
  next
    case False
    with "1.prems" have small: "valloced v \<noteq> 0" "valloced v * 2 < 2 ^ 32"
      by (auto simp: vec_ok_def)
    have ok: "vec_ok (grow v)" using "1.prems"(1) small(2) by (rule vec_ok_grow)
    show ?thesis
    proof (cases "valloced (grow v) \<le> num")
      case True
      have "\<exists>v'. vector_ensure (grow v) num = Ret v' \<and> vec_ok v' \<and> num < valloced v' \<and>
          vslots v' = vslots (grow v) \<and> vmax v' = vmax (grow v) \<and>
          valloced v' \<le> max (valloced (grow v)) (2 * num)"
        using "1.IH" [OF False _ _ _] small ok "1.prems"(2) True
        by (auto simp: grow_def)
      with True False small "1.prems"(1) show ?thesis
        by (auto simp: vector_ensure_step [of v] vslots_grow)
    next
      case nf: False
      then have "vector_ensure (grow v) num = Ret (grow v)"
        by (simp add: vector_ensure_enough)
      with False small ok nf "1.prems"(1) show ?thesis
        by (auto simp: vector_ensure_step [of v] vslots_grow)
    qed
  qed
qed

section \<open>The operations on the abstract view\<close>

lemma set_slot_abs:
  fixes v :: "'a vector" and val :: "'a option"
  assumes "vec_ok v" and "i < valloced v"
  defines "w \<equiv> v\<lparr>vindex := (vindex v)[i := val]\<rparr>"
  defines "w' \<equiv> if vmax w \<le> i then w\<lparr>vmax := i + 1\<rparr> else w"
  shows "vec_ok w' \<and> vslots w' = slots_set_index (vslots v) i val"
proof (cases "vmax v \<le> i")
  case True
  let ?n = "valloced v - Suc i"
  have idx: "vindex v = vslots v @ replicate (valloced v - vmax v) None"
    using assms(1) by (rule vec_ok_index)
  have split: "replicate (valloced v - vmax v) None =
      replicate (i - vmax v) None @ (None :: 'a option) # replicate ?n None"
  proof -
    have "valloced v - vmax v = (i - vmax v) + Suc ?n" using True assms(2) by simp
    then show ?thesis by (metis replicate_add replicate_Suc)
  qed
  have "vindex w = vslots v @ replicate (i - vmax v) None @ val # replicate ?n None"
    using True assms(1) idx by (simp add: w_def split list_update_append)
  then show ?thesis
    using True assms(1,2) by (auto simp: w'_def w_def vec_ok_def vslots_def slots_set_index_def)
next
  case False
  with assms(1) have "drop (vmax v) ((vindex v)[i := val]) = drop (vmax v) (vindex v)"
    by simp
  with False assms show ?thesis
    by (auto simp: w'_def w_def vec_ok_def vslots_def slots_set_index_def take_update_swap)
qed

lemma vector_set_index_abs:
  assumes "vec_ok v" and "i < 2 ^ 31"
  shows "\<exists>v'. vector_set_index v i val = Ret (i, v') \<and> vec_ok v' \<and>
           vslots v' = slots_set_index (vslots v) i val"
proof -
  obtain u where u: "vector_ensure v i = Ret u" "vec_ok u" "i < valloced u" "vslots u = vslots v"
    using vector_ensure_correct [OF assms] by blast
  show ?thesis
    using set_slot_abs [OF u(2,3), of val] u(1,4)
    by (auto simp: vector_set_index_def Let_def)
qed

lemma vector_empty_slot_abs: "vec_ok v \<Longrightarrow> vector_empty_slot v = first_null 0 (vslots v)"
  by (auto simp: vector_empty_slot_def vslots_def)

lemma vector_set_eq: "vector_set v val = vector_set_index v (vector_empty_slot v) val"
  by (simp add: vector_set_def vector_set_index_def Let_def)

lemma slots_set_eq: "slots_set xs val = slots_set_index xs (first_null 0 xs) val"
  using first_null_le [of xs] by (auto simp: slots_set_def slots_set_index_def Let_def)

lemma vector_set_abs:
  assumes "vec_ok v" and "vmax v < 2 ^ 31"
  shows "\<exists>v'. vector_set v val = Ret (first_null 0 (vslots v), v') \<and> vec_ok v' \<and>
           vslots v' = slots_set (vslots v) val"
proof -
  have "first_null 0 (vslots v) < 2 ^ 31"
    using first_null_le [of "vslots v"] assms by simp
  then show ?thesis
    using vector_set_index_abs [OF assms(1)] vector_empty_slot_abs [OF assms(1)]
    by (simp add: vector_set_eq slots_set_eq)
qed

lemma vector_lookup_abs: "vec_ok v \<Longrightarrow> vector_lookup v i = slots_lookup (vslots v) i"
  by (auto simp: vector_lookup_def slots_lookup_def vslots_def vec_ok_def)

lemma strip_null_snoc:
  "strip_null (xs @ [x]) = (if x = None then strip_null xs else xs @ [x])"
  by (simp add: strip_null_def)

lemma unset_loop_strip:
  "i \<le> length idx \<Longrightarrow> unset_loop idx i i = length (strip_null (take i idx))"
proof (induction i)
  case (Suc i)
  then show ?case
    by (simp add: take_Suc_conv_app_nth strip_null_snoc)
qed (simp add: strip_null_def)

lemma strip_null_take: "\<exists>n \<le> length xs. strip_null xs = take n xs \<and> set (drop n xs) \<subseteq> {None}"
proof (induction xs rule: rev_induct)
  case (snoc x xs)
  then obtain n where n: "n \<le> length xs" "strip_null xs = take n xs" "set (drop n xs) \<subseteq> {None}"
    by blast
  show ?case
  proof (cases "x = None")
    case True
    with n show ?thesis by (intro exI [of _ n]) (auto simp: strip_null_snoc)
  next
    case False
    then show ?thesis by (intro exI [of _ "length (xs @ [x])"]) (auto simp: strip_null_snoc)
  qed
qed (simp add: strip_null_def)

lemma vector_unset_last:
  assumes "vec_ok v" and "Suc i = vmax v"
  shows "vec_ok (vector_unset v i) \<and> vslots (vector_unset v i) = strip_null (butlast (vslots v))"
proof -
  let ?w = "(vindex v)[i := None]"
  have m: "vmax v = Suc i" using assms(2) by simp
  have i: "i < valloced v" "i < length (vindex v)" using assms by (auto simp: vec_ok_def)
  have tk: "take i ?w = butlast (vslots v)"
    using i by (simp add: vslots_def butlast_take m)
  obtain n where n: "n \<le> i" "strip_null (take i ?w) = take n ?w" "set (drop n (take i ?w)) \<subseteq> {None}"
    using strip_null_take [of "take i ?w"] i by (auto simp: min_def)
  have "set (drop n ?w) \<subseteq> {None}"
  proof -
    have "drop n ?w = drop n (take i ?w) @ drop i ?w"
    proof -
      have "drop n (take i ?w @ drop i ?w) = drop n (take i ?w) @ drop i ?w"
        using n(1) i by simp
      then show ?thesis by (simp only: append_take_drop_id)
    qed
    moreover have "drop i ?w = None # drop (vmax v) (vindex v)"
      using i Cons_nth_drop_Suc [of i ?w] by (simp add: m)
    moreover have "set (drop (vmax v) (vindex v)) \<subseteq> {None}" using assms(1) by (simp add: vec_ok_def)
    ultimately show ?thesis using n(3) by auto
  qed
  moreover have "vector_unset v i = v\<lparr>vindex := ?w, vmax := n\<rparr>"
  proof -
    have "unset_loop ?w i i = n"
      using unset_loop_strip [of i ?w] n i by simp
    then show ?thesis
      using i by (simp add: vector_unset_def Let_def m)
  qed
  ultimately show ?thesis
    using assms n tk i by (auto simp: vec_ok_def vslots_def)
qed

lemma vector_unset_abs:
  assumes "vec_ok v"
  shows "vec_ok (vector_unset v i) \<and> vslots (vector_unset v i) = slots_unset (vslots v) i"
proof (cases "Suc i = vmax v")
  case True
  with vector_unset_last [OF assms True] assms show ?thesis by (simp add: slots_unset_def)
next
  case False
  show ?thesis
  proof (cases "i < valloced v")
    case True
    have "set (drop (vmax v) ((vindex v)[i := None])) \<subseteq> {None}"
      using assms False set_update_subset_insert [of "drop (vmax v) (vindex v)" "i - vmax v" None]
      by (cases "i < vmax v") (auto simp: vec_ok_def drop_update_swap)
    with True False assms show ?thesis
      by (auto simp: vector_unset_def Let_def vec_ok_def vslots_def slots_unset_def take_update_swap
          list_update_beyond)
  next
    case nf: False
    with False assms show ?thesis
      by (auto simp: vector_unset_def slots_unset_def vslots_def vec_ok_def)
  qed
qed

lemma count_slots_eq: "count_slots n xs = n + length (filter (\<lambda>x. x \<noteq> None) xs)"
  by (induction xs arbitrary: n) auto

lemma vector_count_abs: "vector_count v = length (filter (\<lambda>x. x \<noteq> None) (vslots v))"
  by (simp add: vector_count_def vslots_def count_slots_eq)

section \<open>The contract\<close>

text \<open>The operations that change a vector, on the code and on the list of slots.\<close>

datatype 'a vop = VSet "'a option" | VSetIndex nat "'a option" | VUnset nat | VLookupEnsure nat

fun vector_step :: "'a vector \<Rightarrow> 'a vop \<Rightarrow> 'a vector outcome" where
  "vector_step v (VSet val) = omap snd (vector_set v val)"
| "vector_step v (VSetIndex i val) = omap snd (vector_set_index v i val)"
| "vector_step v (VUnset i) = Ret (vector_unset v i)"
| "vector_step v (VLookupEnsure i) = omap snd (vector_lookup_ensure v i)"

fun slots_step :: "'a option list \<Rightarrow> 'a vop \<Rightarrow> 'a option list" where
  "slots_step xs (VSet val) = slots_set xs val"
| "slots_step xs (VSetIndex i val) = slots_set_index xs i val"
| "slots_step xs (VUnset i) = slots_unset xs i"
| "slots_step xs (VLookupEnsure i) = xs"

fun vop_weight :: "'a vop \<Rightarrow> nat" where
  "vop_weight (VSet val) = 1"
| "vop_weight (VSetIndex i val) = i + 1"
| "vop_weight (VUnset i) = 0"
| "vop_weight (VLookupEnsure i) = i + 1"

lemma length_strip_null: "length (strip_null xs) \<le> length xs"
  using length_dropWhile_le [of "\<lambda>x. x = None" "rev xs"] by (simp add: strip_null_def)

lemma length_slots_step: "length (slots_step xs x) \<le> length xs + vop_weight x"
proof (cases x)
  case (VUnset i)
  have "length (strip_null (butlast xs)) \<le> length xs"
    using length_strip_null [of "butlast xs"] by simp
  with VUnset show ?thesis by (auto simp: slots_unset_def)
qed (auto simp: slots_set_def slots_set_index_def Let_def)

lemma vector_lookup_ensure_abs:
  assumes "vec_ok v" and "i < 2 ^ 31"
  shows "\<exists>v'. vector_lookup_ensure v i = Ret (slots_lookup (vslots v) i, v') \<and> vec_ok v' \<and>
           vslots v' = vslots v"
proof -
  obtain u where u: "vector_ensure v i = Ret u" "vec_ok u" "i < valloced u" "vslots u = vslots v"
      "vmax u = vmax v"
    using vector_ensure_correct [OF assms] by blast
  have "vindex u ! i = slots_lookup (vslots v) i"
    using u(2,3) vec_ok_index [OF u(2)] u(4,5) assms(1)
    by (auto simp: slots_lookup_def nth_append vec_ok_def)
  with u show ?thesis by (simp add: vector_lookup_ensure_def)
qed

interpretation vec: bounded_simulation vslots vec_ok vector_step slots_step vop_weight length "2 ^ 31"
proof (unfold_locales, goal_cases)
  case (1 v x)
  then have ok: "vec_ok v" and len: "vmax v + vop_weight x \<le> 2 ^ 31" by simp_all
  show ?case
  proof (cases x)
    case (VSet val)
    with vector_set_abs [OF ok, of val] len show ?thesis by auto
  next
    case (VSetIndex i val)
    with vector_set_index_abs [OF ok, of i val] len show ?thesis by auto
  next
    case (VUnset i)
    with vector_unset_abs [OF ok, of i] show ?thesis by simp
  next
    case (VLookupEnsure i)
    with vector_lookup_ensure_abs [OF ok, of i] len show ?thesis by auto
  qed
next
  case (2 xs x)
  show ?case by (rule length_slots_step)
qed

section \<open>Properties\<close>

text \<open>
  C34. Every sequence of \<open>vector_set\<close>, \<open>vector_set_index\<close>, \<open>vector_unset\<close> and
  \<open>vector_lookup_ensure\<close> calls on a fresh vector returns (no wrap-around of the capacity, no
  endless growth), keeps the vector well formed and leaves exactly the slots that the same
  sequence leaves in a plain list of slots, as long as the indices asked for add up to at most
  \<open>2 ^ 31\<close>.
\<close>

theorem vector_refines_slots:
  fixes ops :: "'a vop list"
  assumes "n < 2 ^ 32" and "sum_list (map vop_weight ops) \<le> 2 ^ 31"
  shows "\<exists>v. run_ops vector_step (vector_init n) ops = Ret v \<and> vec_ok v \<and>
           vslots v = foldl slots_step [] ops"
  using vec.run_sim [of "vector_init n" ops] assms by simp

theorem vector_refines_slots_witness:
  "\<exists>v. run_ops vector_step (vector_init 0) [VSet (Some True), VSetIndex 2 (Some False), VUnset 2] = Ret v
     \<and> vec_ok v \<and> vslots v = [Some True]"
proof -
  let ?ops = "[VSet (Some True), VSetIndex 2 (Some False), VUnset 2]"
  have "\<exists>v. run_ops vector_step (vector_init 0) ?ops = Ret v \<and> vec_ok v \<and>
      vslots v = foldl slots_step [] ?ops"
    by (rule vector_refines_slots) simp_all
  moreover have "foldl slots_step [] ?ops = [Some True]" by code_simp
  ultimately show ?thesis by simp
qed

lemma foldl_slots_set:
  "None \<notin> set xs \<Longrightarrow> foldl slots_step xs (map (\<lambda>y. VSet (Some y)) ys) = xs @ map Some ys"
  by (induction ys arbitrary: xs) (simp_all add: slots_set_full)

text \<open>
  Filling: setting values one after another with \<open>vector_set\<close> in a fresh vector, as the
  tokeniser and the command table do, stores them in order without gaps, for up to
  \<open>2 ^ 31\<close> values, whatever the initial size was.
\<close>

theorem vector_fill:
  fixes ys :: "'a list"
  assumes "n < 2 ^ 32" and "length ys \<le> 2 ^ 31"
  shows "\<exists>v. run_ops vector_step (vector_init n) (map (\<lambda>y. VSet (Some y)) ys) = Ret v \<and> vec_ok v \<and>
           vslots v = map Some ys"
proof -
  have "sum_list (map vop_weight (map (\<lambda>y. VSet (Some y)) ys)) = length ys"
    by (induction ys) auto
  then show ?thesis
    using vec.run_sim [of "vector_init n" "map (\<lambda>y. VSet (Some y)) ys"] assms
      foldl_slots_set [of "[]" ys] by simp
qed

theorem vector_fill_witness:
  "\<exists>v. run_ops vector_step (vector_init 1) (map (\<lambda>y. VSet (Some y)) [1, 2, 3 :: nat]) = Ret v \<and>
     vec_ok v \<and> vslots v = [Some 1, Some 2, Some 3]"
  using vector_fill [of 1 "[1, 2, 3 :: nat]"] by simp

text \<open>
  C35. Growth: \<open>vector_ensure\<close> returns for every index below \<open>2 ^ 31\<close>, makes room for it,
  changes no slot, and never allocates more than twice what was asked for (beyond what was already
  allocated).
\<close>

theorem vector_ensure_capacity:
  assumes "vec_ok v" and "num < 2 ^ 31"
  shows "\<exists>v'. vector_ensure v num = Ret v' \<and> vec_ok v' \<and> num < valloced v' \<and>
           vslots v' = vslots v \<and> valloced v' \<le> max (valloced v) (2 * num)"
  using vector_ensure_correct [OF assms] by blast

theorem vector_ensure_capacity_witness:
  "\<exists>v'. vector_ensure (vector_init 10 :: nat vector) 35 = Ret v' \<and> vec_ok v' \<and> 35 < valloced v' \<and>
     vslots v' = [] \<and> valloced v' \<le> 70"
proof -
  have "valloced (vector_init 10 :: nat vector) = 10" by (simp add: vector_init_def)
  with vector_ensure_capacity [of "vector_init 10 :: nat vector" 35] show ?thesis by simp
qed

end
