(* ===== verification/Config_Store.thy ===== *)
theory Config_Store
  imports Link_List Vector
begin

text \<open>
  The running configuration (\<open>vtysh_config.c\<close>, \<open>vtysh_config.h\<close>).

  The configuration is the list \<open>config_top\<close> of lines, kept in order by \<open>strcmp\<close>, and a
  vector of sections that \<open>config_get\<close> creates. The first group of definitions is the C code on
  the linked lists of \<open>Link_List\<close>: a line is never changed after \<open>XSTRDUP\<close> made it, so
  the data pointer of a node is modelled by its text. The second group is what the command handlers
  rely on: a list of lines with an insertion and two deletions. The refinement between the two is the
  interpretation \<open>store\<close> of \<open>bounded_simulation\<close>.
\<close>

section \<open>The lines of the configuration\<close>

definition line_cmp :: "string \<Rightarrow> string \<Rightarrow> int" where
  "line_cmp c1 c2 = strcmp c1 c2"

definition config_init :: "string llist" where
  "config_init = list_new\<lparr>l_cmp := Some line_cmp\<rparr>"

text \<open>The text \<open>vasprintf\<close> makes is added unless it is empty.\<close>

definition config_add_line ::
    "string llist \<Rightarrow> string \<Rightarrow> string list \<Rightarrow> string heap \<Rightarrow> (string llist \<times> string heap) outcome" where
  "config_add_line config line args h =
     obind (vformat line args) (\<lambda>info.
       if length info > 0 then listnode_add_sort config info h else Ret (config, h))"

text \<open>The loop of the two deletions: the first line that satisfies \<open>P\<close> is deleted.\<close>

definition config_del_first ::
    "(string \<Rightarrow> bool) \<Rightarrow> string llist \<Rightarrow> string heap \<Rightarrow> (string llist \<times> string heap) outcome" where
  "config_del_first P config h =
     obind (find_node (fresh h) P h (l_head config)) (\<lambda>nn.
       case nn of
         None \<Rightarrow> Ret (config, h)
       | Some a \<Rightarrow> obind (deref h (Some a)) (\<lambda>n. listnode_delete config (n_data n) h))"

definition config_del_line ::
    "string llist \<Rightarrow> string \<Rightarrow> string heap \<Rightarrow> (string llist \<times> string heap) outcome" where
  "config_del_line config line h = config_del_first (\<lambda>pnt. strcmp pnt line = 0) config h"

definition config_del_line_byleft ::
    "string llist \<Rightarrow> string \<Rightarrow> string heap \<Rightarrow> (string llist \<times> string heap) outcome" where
  "config_del_line_byleft config line h =
     config_del_first (\<lambda>pnt. strncmp pnt line (length line) = 0) config h"

definition config_get_line_byleft :: "string llist \<Rightarrow> string \<Rightarrow> string heap \<Rightarrow> string option outcome" where
  "config_get_line_byleft config line h =
     obind (find_node (fresh h) (\<lambda>pnt. strncmp pnt line (length line) = 0) h (l_head config)) (\<lambda>nn.
       case nn of
         None \<Rightarrow> Ret None
       | Some a \<Rightarrow> omap (\<lambda>n. Some (n_data n)) (deref h (Some a)))"

section \<open>Sections and the dump\<close>

record config =
  cname :: string
  cline :: "string list"
  cindex :: nat

definition config_cmp :: "config \<Rightarrow> config \<Rightarrow> int" where
  "config_cmp c1 c2 = strcmp (cname c1) (cname c2)"

definition config_new :: config where
  "config_new = \<lparr>cname = [], cline = [], cindex = 0\<rparr>"

text \<open>
  \<open>config_get\<close> finds the section by its name, the last one if several have it, or adds an empty
  one to the list of its index. The lists of sections are their contents in order here.
\<close>

definition config_get :: "config list vector \<Rightarrow> nat \<Rightarrow> string \<Rightarrow> (config \<times> config list vector) outcome" where
  "config_get configvec index line =
     obind (vector_lookup_ensure configvec index) (\<lambda>(master, v).
     obind (if master = None then omap snd (vector_set_index v index (Some [])) else Ret v) (\<lambda>v.
       let master = (case master of None \<Rightarrow> [] | Some m \<Rightarrow> m) in
       case filter (\<lambda>c. strcmp (cname c) line = 0) master of
         [] \<Rightarrow>
           let config = config_new\<lparr>cname := line, cindex := index\<rparr> in
           Ret (config, v\<lparr>vindex := (vindex v)[index := Some (ins_sorted (Some config_cmp) config master)]\<rparr>)
       | c # cs \<Rightarrow> Ret (last (c # cs), v)))"

definition dump_section :: "config \<Rightarrow> string list" where
  "dump_section c =
     (if cline c \<noteq> [] then cname c # map (\<lambda>l. CHR '' '' # l) (cline c) @ [''!''] else [])"

definition dump_lines :: "string \<Rightarrow> string list \<Rightarrow> config list vector \<Rightarrow> string list" where
  "dump_lines timestr ctop configvec =
     (''#Writed on '' @ timestr) # ctop @ [''!''] @
     concat (map (\<lambda>m. case m of None \<Rightarrow> [] | Some master \<Rightarrow> concat (map dump_section master))
              (take (vmax configvec) (vindex configvec)))"

text \<open>What \<open>config_dump\<close> prints, \<open>timestr\<close> being the time as \<open>strftime\<close> formats it.\<close>

definition config_dump :: "string \<Rightarrow> string list \<Rightarrow> config list vector \<Rightarrow> string" where
  "config_dump timestr ctop configvec = unlines_nl (dump_lines timestr ctop configvec)"

section \<open>The contract: a sorted list of lines\<close>

definition lines_add :: "string \<Rightarrow> string list \<Rightarrow> string list" where
  "lines_add info ls = (if info = [] then ls else ins_sorted (Some line_cmp) info ls)"

fun lines_del_first :: "(string \<Rightarrow> bool) \<Rightarrow> string list \<Rightarrow> string list" where
  "lines_del_first P [] = []"
| "lines_del_first P (l # ls) = (if P l then ls else l # lines_del_first P ls)"

definition lines_del :: "string \<Rightarrow> string list \<Rightarrow> string list" where
  "lines_del line ls = remove1 line ls"

definition lines_del_byleft :: "string \<Rightarrow> string list \<Rightarrow> string list" where
  "lines_del_byleft line ls = lines_del_first (prefix line) ls"

lemma lines_del_first_eq: "lines_del_first (\<lambda>l. l = line) ls = remove1 line ls"
  by (induction ls) auto

lemma find_first: "find P ds = (case dropWhile (\<lambda>d. \<not> P d) ds of [] \<Rightarrow> None | d # _ \<Rightarrow> Some d)"
  by (induction ds) auto

lemma find_SomeD: "find P ls = Some l \<Longrightarrow> P l \<and> l \<in> set ls"
  by (auto simp: find_Some_iff)

lemma lines_del_first_find:
  "lines_del_first P ls = (case find P ls of None \<Rightarrow> ls | Some l \<Rightarrow> remove1 l ls)"
  by (induction ls) (auto split: option.splits dest: find_SomeD)

lemma lines_add_set: "info \<noteq> [] \<Longrightarrow> set (lines_add info ls) = insert info (set ls)"
  by (simp add: lines_add_def)

lemma lines_add_subset: "set (lines_add info ls) \<subseteq> insert info (set ls)"
  by (auto simp: lines_add_def)

lemma lines_add_sorted: "sorted ls \<Longrightarrow> sorted (lines_add info ls)"
  unfolding lines_add_def by (auto intro!: ins_sorted_sorted simp: line_cmp_def cstr_simps)

lemma lines_del_first_set: "set (lines_del_first P ls) \<subseteq> set ls"
  by (induction ls) auto

lemma lines_del_first_sorted: "sorted ls \<Longrightarrow> sorted (lines_del_first P ls)"
  using lines_del_first_set by (induction ls) (auto dest: subsetD)

lemma lines_del_sorted: "sorted ls \<Longrightarrow> sorted (lines_del line ls)"
  by (simp add: lines_del_def sorted_remove1)

lemma lines_del_byleft_sorted: "sorted ls \<Longrightarrow> sorted (lines_del_byleft line ls)"
  by (simp add: lines_del_byleft_def lines_del_first_sorted)

lemma lines_del_set: "set (lines_del line ls) \<subseteq> set ls"
  by (simp add: lines_del_def set_remove1_subset)

lemma lines_del_byleft_set: "set (lines_del_byleft line ls) \<subseteq> set ls"
  by (simp add: lines_del_byleft_def lines_del_first_set)

text \<open>After a deletion by its left part and an addition, one line of that form is left if one was.\<close>

lemma lines_del_first_filter:
  "filter P (lines_del_first P ls) = tl (filter P ls)"
  "filter (\<lambda>l. \<not> P l) (lines_del_first P ls) = filter (\<lambda>l. \<not> P l) ls"
  by (induction ls) auto

lemma ins_sorted_filter:
  "\<not> P v \<Longrightarrow> filter P (ins_sorted c v ls) = filter P ls"
  by (auto simp: ins_sorted_def split: option.split) (metis filter_append takeWhile_dropWhile_id)

section \<open>Refinement\<close>

lemma lrepr_del_first:
  assumes "lrepr l h ds"
  shows "\<exists>l' h'. config_del_first P l h = Ret (l', h') \<and> lrepr l' h' (lines_del_first P ds) \<and> l_cmp l' = l_cmp l"
proof -
  obtain as where as: "dll l h as" "map (node_data h) as = ds" using assms by (auto simp: lrepr_def)
  let ?ys = "dropWhile (\<lambda>a. \<not> P (node_data h a)) as"
  have find: "find_node (fresh h) P h (l_head l) = Ret (hdp ?ys None)"
    using find_node_eq [of h None as "fresh h" P] as(1) dll_length [OF as(1)] by (simp add: dll_def)
  show ?thesis
  proof (cases ?ys)
    case Nil
    then have "find P ds = None" using as(2) by (auto simp: find_None_iff dropWhile_eq_Nil_conv)
    with find Nil assms show ?thesis by (simp add: config_del_first_def lines_del_first_find)
  next
    case (Cons y ys)
    then have y: "y \<in> set as" "P (node_data h y)"
      by (metis list.set_intros(1) set_dropWhileD, metis (mono_tags, lifting) dropWhile_eq_Cons_conv)
    have "map (node_data h) ?ys = dropWhile (\<lambda>d. \<not> P d) ds"
      using dropWhile_map_node [OF as(2), of "\<lambda>d. \<not> P d"] by simp
    then have "dropWhile (\<lambda>d. \<not> P d) ds = node_data h y # map (node_data h) ys" using Cons by simp
    then have "find P ds = Some (node_data h y)" by (simp add: find_first)
    moreover obtain n where "cells h y = Some n" "node_data h y = n_data n"
      using as(1) y(1) dseg_cell [of h None as None y] by (auto simp: dll_def node_data_def)
    ultimately show ?thesis
      using find Cons lrepr_delete [OF assms, of "node_data h y"]
      by (simp add: config_del_first_def deref_def lines_del_first_find)
  qed
qed

lemma lrepr_get_byleft:
  assumes "lrepr l h ds"
  shows "config_get_line_byleft l line h = Ret (find (prefix line) ds)"
proof -
  obtain as where as: "dll l h as" "map (node_data h) as = ds" using assms by (auto simp: lrepr_def)
  let ?ys = "dropWhile (\<lambda>a. \<not> prefix line (node_data h a)) as"
  have find: "find_node (fresh h) (prefix line) h (l_head l) = Ret (hdp ?ys None)"
    using find_node_eq [of h None as "fresh h" "prefix line"] as(1) dll_length [OF as(1)] by (simp add: dll_def)
  have map: "map (node_data h) ?ys = dropWhile (\<lambda>d. \<not> prefix line d) ds"
    using dropWhile_map_node [OF as(2), of "\<lambda>d. \<not> prefix line d"] by simp
  have "omap (\<lambda>n. Some (n_data n)) (deref h (Some y)) = Ret (Some (node_data h y))" if "y \<in> set as" for y
    using as(1) that dseg_cell [of h None as None y] by (auto simp: dll_def node_data_def deref_def)
  moreover have "set ?ys \<subseteq> set as" by (auto dest: set_dropWhileD)
  ultimately show ?thesis
    using find map
    by (cases ?ys) (auto simp: config_get_line_byleft_def find_first cstr_simps simp flip: map simp del: dropWhile_eq_Nil_conv)
qed

text \<open>The operations a handler calls, on the linked list and on the list of lines.\<close>

datatype cfg_op = Add_line string "string list" | Del_line string | Del_line_byleft string

fun store_step :: "string llist \<times> string heap \<Rightarrow> cfg_op \<Rightarrow> (string llist \<times> string heap) outcome" where
  "store_step (l, h) (Add_line line args) = config_add_line l line args h"
| "store_step (l, h) (Del_line line) = config_del_line l line h"
| "store_step (l, h) (Del_line_byleft line) = config_del_line_byleft l line h"

fun lines_step :: "string list \<Rightarrow> cfg_op \<Rightarrow> string list" where
  "lines_step ls (Add_line line args) = (case vformat line args of Ret info \<Rightarrow> lines_add info ls | _ \<Rightarrow> ls)"
| "lines_step ls (Del_line line) = lines_del line ls"
| "lines_step ls (Del_line_byleft line) = lines_del_byleft line ls"

text \<open>A format that asks for an argument that is not there counts as 1, every other call as 0.\<close>

fun bad_format :: "cfg_op \<Rightarrow> nat" where
  "bad_format (Add_line line args) = (case vformat line args of Ret _ \<Rightarrow> 0 | _ \<Rightarrow> 1)"
| "bad_format _ = 0"

definition store_ok :: "string llist \<times> string heap \<Rightarrow> bool" where
  "store_ok s \<longleftrightarrow> ll_ok s \<and> l_cmp (fst s) = Some line_cmp"

definition store_lines :: "string llist \<times> string heap \<Rightarrow> string list" where
  "store_lines s = snd (ll_abs s)"

lemma store_lines_repr: "lrepr l h ds \<Longrightarrow> store_lines (l, h) = ds"
  by (simp add: store_lines_def ll_abs_repr)

lemma store_step_repr:
  assumes "lrepr l h ds" and "l_cmp l = Some line_cmp" and "bad_format x = 0"
  shows "\<exists>l' h'. store_step (l, h) x = Ret (l', h') \<and> lrepr l' h' (lines_step ds x) \<and> l_cmp l' = Some line_cmp"
proof (cases x)
  case (Add_line line args)
  with assms(3) obtain info where "vformat line args = Ret info"
    by (cases "vformat line args") auto
  with Add_line assms lrepr_add_sort [OF assms(1), of info] show ?thesis
    by (auto simp: config_add_line_def lines_add_def)
next
  case (Del_line line)
  with assms lrepr_del_first [OF assms(1), of "\<lambda>pnt. strcmp pnt line = 0"] show ?thesis
    by (auto simp: config_del_line_def lines_del_def lines_del_first_eq)
next
  case (Del_line_byleft line)
  with assms lrepr_del_first [OF assms(1), of "\<lambda>pnt. strncmp pnt line (length line) = 0"] show ?thesis
    by (auto simp: config_del_line_byleft_def lines_del_byleft_def cstr_simps)
qed

interpretation store: bounded_simulation store_lines store_ok store_step lines_step bad_format "\<lambda>_. 0" 0
proof (unfold_locales, goal_cases)
  case (1 s x)
  obtain l h where s: "s = (l, h)" by fastforce
  with 1 obtain ds where r: "lrepr l h ds" "l_cmp l = Some line_cmp"
    by (auto simp: store_ok_def ll_ok_def)
  from 1 have "bad_format x = 0" by simp
  from store_step_repr [OF r this] obtain l' h' where s': "store_step (l, h) x = Ret (l', h')"
      "lrepr l' h' (lines_step ds x)" "l_cmp l' = Some line_cmp" by blast
  with s store_lines_repr [OF r(1)] store_lines_repr [OF s'(2)] show ?case
    by (auto simp: store_ok_def ll_ok_def)
qed simp

lemma lines_step_sorted: "sorted ls \<Longrightarrow> sorted (lines_step ls x)"
  by (cases x) (auto simp: lines_add_sorted lines_del_sorted lines_del_byleft_sorted split: outcome.split)

lemma foldl_lines_step_sorted: "sorted ls \<Longrightarrow> sorted (foldl lines_step ls xs)"
  by (induction xs arbitrary: ls) (auto simp: lines_step_sorted)

lemma config_init_repr: "lrepr config_init \<lparr>cells = \<lambda>_. None, fresh = 0\<rparr> []"
  by (auto simp: lrepr_def dll_def list_new_def config_init_def)

lemma dump_lines_top: "vmax v = 0 \<Longrightarrow> dump_lines ts ls v = (''#Writed on '' @ ts) # ls @ [''!'']"
  by (simp add: dump_lines_def)

lemma ins_sorted_hit:
  assumes "P v"
  shows "\<exists>us vs. filter P (ins_sorted c v ls) = us @ v # vs \<and> filter P ls = us @ vs"
proof -
  have "filter P ls = filter P (takeWhile Q ls) @ filter P (dropWhile Q ls)" for Q
    by (metis filter_append takeWhile_dropWhile_id)
  then show ?thesis using assms by (auto simp: ins_sorted_def split: option.split)
qed


section \<open>Properties\<close>

text \<open>
  C39. The configuration store refines a sorted list of lines: any sequence of
  \<open>config_add_line\<close>, \<open>config_del_line\<close> and \<open>config_del_line_byleft\<close> calls on
  the list of \<open>config_init\<close>, no format of which asks for a missing argument, returns without
  following a NULL or freed pointer, and leaves exactly the lines that inserting in order, removing
  the first equal line and removing the first line with the given left part leave; they are in
  \<open>strcmp\<close> order.
\<close>

theorem config_store_refines:
  assumes "sum_list (map bad_format ops) = 0"
  shows "\<exists>s. run_ops store_step (config_init, \<lparr>cells = \<lambda>_. None, fresh = 0\<rparr>) ops = Ret s \<and> store_ok s \<and>
     store_lines s = foldl lines_step [] ops \<and> sorted (store_lines s)"
proof -
  let ?s = "(config_init, \<lparr>cells = \<lambda>_. None, fresh = 0\<rparr>)"
  have "store_ok ?s" "store_lines ?s = []"
    using config_init_repr store_lines_repr [OF config_init_repr]
    by (auto simp: store_ok_def ll_ok_def config_init_def)
  with store.run_sim [of ?s ops] assms foldl_lines_step_sorted [of "[]" ops] show ?thesis by auto
qed

definition sample_ops :: "cfg_op list" where
  "sample_ops = [Add_line ''wg listenport 1'' [], Add_line ''hostname %s'' [''gw''],
     Del_line_byleft ''wg listen'', Add_line ''wg listenport 2'' []]"

theorem config_store_refines_witness:
  "\<exists>s. run_ops store_step (config_init, \<lparr>cells = \<lambda>_. None, fresh = 0\<rparr>) sample_ops = Ret s \<and> store_ok s \<and>
     store_lines s = [''hostname gw'', ''wg listenport 2''] \<and> sorted (store_lines s)"
proof -
  have "foldl lines_step [] sample_ops = [''hostname gw'', ''wg listenport 2'']"
    by code_simp
  moreover have "sum_list (map bad_format sample_ops) = 0" by code_simp
  ultimately show ?thesis using config_store_refines [of sample_ops] by simp
qed

text \<open>
  C40. What replacing a line does, which is how the handlers update a setting. On the linked list,
  \<open>config_del_line_byleft\<close> with the left part \<open>key\<close> and then \<open>config_add_line\<close>
  with a format that makes \<open>new\<close>, which starts with \<open>key\<close>, return. The lines that do not start
  with \<open>key\<close> are as before. Of those that do, the first is gone, and the new line stands among
  the others; so if there was at most one, the new line is the only one now.
\<close>

theorem config_replace_line:
  assumes "store_ok (l, h)" and "vformat fmt args = Ret new" and "new \<noteq> []" and "prefix key new"
  shows "\<exists>t. obind (config_del_line_byleft l key h) (\<lambda>(l, h). config_add_line l fmt args h) = Ret t \<and> store_ok t \<and>
    filter (\<lambda>x. \<not> prefix key x) (store_lines t) = filter (\<lambda>x. \<not> prefix key x) (store_lines (l, h)) \<and>
    (\<exists>us vs. filter (prefix key) (store_lines t) = us @ new # vs \<and>
       us @ vs = tl (filter (prefix key) (store_lines (l, h)))) \<and>
    (length (filter (prefix key) (store_lines (l, h))) \<le> 1 \<longrightarrow> filter (prefix key) (store_lines t) = [new])"
proof -
  obtain ds where r: "lrepr l h ds" "l_cmp l = Some line_cmp"
    using assms(1) by (auto simp: store_ok_def ll_ok_def)
  from store_step_repr [OF r, of "Del_line_byleft key"] obtain l1 h1 where
    1: "config_del_line_byleft l key h = Ret (l1, h1)" "lrepr l1 h1 (lines_del_byleft key ds)" "l_cmp l1 = Some line_cmp" by auto
  from store_step_repr [OF 1(2,3), of "Add_line fmt args"] assms(2) obtain l2 h2 where
    2: "config_add_line l1 fmt args h1 = Ret (l2, h2)" "lrepr l2 h2 (lines_add new (lines_del_byleft key ds))"
      "l_cmp l2 = Some line_cmp" by auto
  let ?ls = "lines_del_byleft key ds"
  have lines: "store_lines (l, h) = ds" "store_lines (l2, h2) = lines_add new ?ls"
    using store_lines_repr r(1) 2(2) by auto
  have add: "lines_add new ?ls = ins_sorted (Some line_cmp) new ?ls" using assms(3) by (simp add: lines_add_def)
  have others: "filter (\<lambda>x. \<not> prefix key x) (lines_add new ?ls) = filter (\<lambda>x. \<not> prefix key x) ds"
    unfolding add using assms(4) lines_del_first_filter(2) [of "prefix key" ds]
    by (simp add: ins_sorted_filter lines_del_byleft_def)
  have tl: "filter (prefix key) ?ls = tl (filter (prefix key) ds)"
    using lines_del_first_filter(1) [of "prefix key" ds] by (simp add: lines_del_byleft_def)
  obtain us vs where u: "filter (prefix key) (lines_add new ?ls) = us @ new # vs" "us @ vs = tl (filter (prefix key) ds)"
    using ins_sorted_hit [of "prefix key" new "Some line_cmp" ?ls] assms(4) unfolding add tl by metis
  have "us = [] \<and> vs = []" if "length (filter (prefix key) ds) \<le> 1"
  proof -
    have "tl (filter (prefix key) ds) = []" using that by (cases "filter (prefix key) ds") auto
    then show ?thesis using u(2) by simp
  qed
  moreover have "store_ok (l2, h2)" using 2 by (auto simp: store_ok_def ll_ok_def)
  ultimately show ?thesis using 1(1) 2(1) others u
    by (intro exI [of _ "(l2, h2)"]) (auto simp: lines)
qed

lemma sample_store:
  "\<exists>l h. run_ops store_step (config_init, \<lparr>cells = \<lambda>_. None, fresh = 0\<rparr>) sample_ops = Ret (l, h) \<and> store_ok (l, h) \<and>
     store_lines (l, h) = [''hostname gw'', ''wg listenport 2'']"
proof -
  let ?s = "(config_init, \<lparr>cells = \<lambda>_. None, fresh = 0\<rparr>)"
  have "store_ok ?s" "store_lines ?s = []"
    using config_init_repr store_lines_repr [OF config_init_repr]
    by (auto simp: store_ok_def ll_ok_def config_init_def)
  moreover have "foldl lines_step [] sample_ops = [''hostname gw'', ''wg listenport 2'']" by code_simp
  moreover have "sum_list (map bad_format sample_ops) = 0" by code_simp
  ultimately show ?thesis using store.run_sim [of ?s sample_ops] by auto
qed

theorem config_replace_line_witness:
  "\<exists>l h t. run_ops store_step (config_init, \<lparr>cells = \<lambda>_. None, fresh = 0\<rparr>) sample_ops = Ret (l, h) \<and>
     obind (config_del_line_byleft l ''wg listenport'' h) (\<lambda>(l, h). config_add_line l ''wg listenport %s'' [''443''] h) = Ret t \<and>
     filter (prefix ''wg listenport'') (store_lines t) = [''wg listenport 443''] \<and>
     filter (\<lambda>x. \<not> prefix ''wg listenport'' x) (store_lines t) = [''hostname gw'']"
proof -
  obtain l h where s: "run_ops store_step (config_init, \<lparr>cells = \<lambda>_. None, fresh = 0\<rparr>) sample_ops = Ret (l, h)"
      "store_ok (l, h)" "store_lines (l, h) = [''hostname gw'', ''wg listenport 2'']"
    using sample_store by blast
  have f: "vformat ''wg listenport %s'' [''443''] = Ret ''wg listenport 443''" by code_simp
  from config_replace_line [OF s(2) f, of "''wg listenport''"] s(1,3) show ?thesis by auto
qed

end
