(* ===== verification/Cmd_Tokens.thy ===== *)
theory Cmd_Tokens
  imports C_Base
begin

text \<open>
  Splitting strings into pieces (\<open>src/wgshell/vtysh/command.c\<close>): the words of an input line
  (\<open>cmd_make_strvec\<close>, \<open>cmd_make_strvec_old\<close>) and the specification string of a command
  with its help lines (\<open>cmd_make_descvec\<close>, \<open>cmd_desc_str\<close>, \<open>cmd_cmdsize\<close>).

  The vectors these functions build are only filled by \<open>vector_set\<close> with non-NULL entries, which
  appends (the contract of theory \<open>Vector\<close>); they are lists here. A \<open>char *\<close> that walks
  through a string is the suffix it points at.
\<close>

section \<open>Input lines\<close>

text \<open>A word goes on up to white space (which includes CR and LF) or the end of the line.\<close>

definition is_word_char :: "char \<Rightarrow> bool" where
  "is_word_char c \<longleftrightarrow> \<not> (isspace c \<or> c = CHR 0x0D \<or> c = CHR 0x0A)"

function strvec_loop :: "string \<Rightarrow> string list \<Rightarrow> string list" where
  "strvec_loop cp strvec =
     (let token = takeWhile is_word_char cp;
          cp = dropWhile (\<lambda>c. \<not> is_word_char c) (dropWhile is_word_char cp);
          strvec = strvec @ [token]
      in if cp = [] then strvec else strvec_loop cp strvec)"
  by pat_completeness auto
termination
proof (relation "measure (\<lambda>(cp, strvec). 2 * length cp + (if cp \<noteq> [] \<and> is_word_char (hd cp) then 0 else 1))",
    goal_cases)
  case (2 cp strvec token cp' strvec')
  then have ne: "cp' \<noteq> []" and e: "cp' = dropWhile (\<lambda>c. \<not> is_word_char c) (dropWhile is_word_char cp)"
    by simp_all
  then have h: "is_word_char (hd cp')" using hd_dropWhile by metis
  have l: "length cp' \<le> length (dropWhile is_word_char cp)" "length (dropWhile is_word_char cp) \<le> length cp"
    unfolding e by (simp_all add: length_dropWhile_le)
  show ?case
  proof (cases "cp \<noteq> [] \<and> is_word_char (hd cp)")
    case True
    then have "length (dropWhile is_word_char cp) < length cp"
      by (cases cp) (auto simp: less_Suc_eq_le length_dropWhile_le)
    with l h ne show ?thesis by simp
  next
    case False
    with l h ne show ?thesis by auto
  qed
qed auto

declare strvec_loop.simps [simp del]

definition cmd_make_strvec_old :: "string option \<Rightarrow> string list option" where
  "cmd_make_strvec_old str =
     (case str of
        None \<Rightarrow> None
      | Some s \<Rightarrow>
          let cp = dropWhile isspace s in
          if cp = [] then None
          else if hd cp = CHR ''!'' \<or> hd cp = CHR ''#'' then None
          else Some (strvec_loop cp []))"

text \<open>
  The quote handling in front of it: of the first pair of double quotes, each quote becomes a blank
  and every blank between them a hyphen, so that the quoted text is one word.
\<close>

definition join_quoted :: "string \<Rightarrow> string" where
  "join_quoted s =
     (case strchr s (CHR 0x22) of
        None \<Rightarrow> s
      | Some tstart \<Rightarrow>
          (case strchr (tl tstart) (CHR 0x22) of
             None \<Rightarrow> s
           | Some tend \<Rightarrow>
               take (length s - length tstart) s @ '' '' @
               map (\<lambda>c. if c = CHR '' '' then CHR ''-'' else c)
                 (take (length (tl tstart) - length tend) (tl tstart)) @ '' '' @ tl tend))"

definition cmd_make_strvec :: "string option \<Rightarrow> string list option" where
  "cmd_make_strvec str =
     (case str of
        None \<Rightarrow> None
      | Some s \<Rightarrow>
          let cp = dropWhile isspace (join_quoted s) in
          if cp = [] then None
          else if hd cp = CHR ''!'' \<or> hd cp = CHR ''#'' then None
          else Some (strvec_loop cp []))"

section \<open>Command specifications\<close>

record desc =
  cmd :: string
  str :: "string option"

text \<open>The next help line: the line and what is left of the help text.\<close>

definition cmd_desc_str :: "string option \<Rightarrow> string option \<times> string option" where
  "cmd_desc_str dp =
     (case dp of
        None \<Rightarrow> (None, dp)
      | Some s \<Rightarrow>
          let cp = dropWhile isspace s in
          if cp = [] then (None, dp)
          else (Some (takeWhile (\<lambda>c. c \<noteq> CHR 0x0D \<and> c \<noteq> CHR 0x0A) cp),
                Some (dropWhile (\<lambda>c. c \<noteq> CHR 0x0D \<and> c \<noteq> CHR 0x0A) cp)))"

definition skip_paren :: "char \<Rightarrow> nat \<Rightarrow> string \<Rightarrow> nat \<Rightarrow> string \<times> nat" where
  "skip_paren p m' cp m = (if cp \<noteq> [] \<and> hd cp = p then (tl cp, m') else (cp, m))"

text \<open>
  In front of every token: white space, at most one of each of \<open>(\<close>, \<open>)\<close> and \<open>|\<close> in this
  order, white space, and one more \<open>(\<close>. A \<open>|\<close> outside parentheses ends the program.
\<close>

definition descvec_skip :: "string \<Rightarrow> nat \<Rightarrow> (string \<times> nat) outcome" where
  "descvec_skip cp multiple =
     (let (cp, multiple) = skip_paren (CHR ''('') 1 (dropWhile isspace cp) multiple;
          (cp, multiple) = skip_paren (CHR '')'') 0 cp multiple;
          bar = (cp \<noteq> [] \<and> hd cp = CHR ''|'')
      in if bar \<and> multiple = 0 then Exit 1
         else Ret (skip_paren (CHR ''('') 1
                     (dropWhile isspace (if bar then tl cp else cp)) multiple))"

definition is_desc_char :: "char \<Rightarrow> bool" where
  "is_desc_char c \<longleftrightarrow>
     \<not> (isspace c \<or> c = CHR 0x0D \<or> c = CHR 0x0A \<or> c = CHR '')'' \<or> c = CHR ''|'')"

text \<open>\<open>vector_set (strvec, desc)\<close> on the strvec that was put into \<open>allvec\<close> last.\<close>

definition add_to_last :: "'a list list \<Rightarrow> 'a \<Rightarrow> 'a list list" where
  "add_to_last allvec d = butlast allvec @ [last allvec @ [d]]"

lemma dropWhile_same_length: "length (dropWhile P xs) = length xs \<Longrightarrow> dropWhile P xs = xs"
  by (metis suffix_dropWhile suffix_order.dual_order.refl suffix_length_le suffix_def append_Nil
      append_eq_append_conv length_append add_cancel_left_left length_0_conv)

lemma skip_paren_same:
  assumes "skip_paren p m' cp m = (cp', n)" and "length cp' = length cp"
  shows "cp' = cp \<and> \<not> (cp \<noteq> [] \<and> hd cp = p)"
  using assms by (cases cp) (auto simp: skip_paren_def split: if_splits)

lemma skip_paren_length: "skip_paren p m' cp m = (cp', n) \<Longrightarrow> length cp' \<le> length cp"
  by (auto simp: skip_paren_def split: if_splits)

lemma descvec_skip_length:
  assumes "descvec_skip cp m = Ret (cp', m')"
  shows "length cp' \<le> length cp \<and> (cp' \<noteq> [] \<longrightarrow> is_desc_char (hd cp') \<or> length cp' < length cp)"
proof -
  let ?d = "dropWhile isspace"
  have l: "length (?d s) \<le> length s" for s by (rule length_dropWhile_le)
  obtain a ma where a: "skip_paren (CHR ''('') 1 (?d cp) m = (a, ma)" by fastforce
  obtain b mb where b: "skip_paren (CHR '')'') 0 a ma = (b, mb)" by fastforce
  define c where "c = (if b \<noteq> [] \<and> hd b = CHR ''|'' then tl b else b)"
  have c': "skip_paren (CHR ''('') 1 (?d c) mb = (cp', m')"
    using assms unfolding descvec_skip_def a prod.case b Let_def c_def by (auto split: if_splits)
  have le: "length cp' \<le> length (?d c)" "length (?d c) \<le> length c" "length c \<le> length b"
    "length b \<le> length a" "length a \<le> length (?d cp)" "length (?d cp) \<le> length cp"
    using l skip_paren_length [OF a] skip_paren_length [OF b] skip_paren_length [OF c']
    by (auto simp: c_def)
  have "is_desc_char (hd cp')" if "cp' \<noteq> []" and eq: "length cp' = length cp"
  proof -
    have 1: "?d cp = cp" using le eq by (intro dropWhile_same_length) linarith
    have "length a = length (?d cp)" using le eq by linarith
    then have "a = cp" using skip_paren_same [OF a] 1 by simp
    moreover have "length b = length a" using le eq by linarith
    ultimately have 2: "b = cp" "\<not> (cp \<noteq> [] \<and> hd cp = CHR '')'')"
      using skip_paren_same [OF b] by simp_all
    have 3: "c = b" "\<not> (b \<noteq> [] \<and> hd b = CHR ''|'')"
      using le eq 2(1) unfolding c_def by (cases b; auto split: if_splits)+
    have "?d c = c" using le eq by (intro dropWhile_same_length) linarith
    then have "cp' = cp" using skip_paren_same [OF c'] le eq 2 3 by auto
    moreover have "\<not> isspace (hd cp)"
      using that(1) 1 \<open>cp' = cp\<close> hd_dropWhile by metis
    ultimately show ?thesis using that(1) 2 3 by (auto simp: is_desc_char_def isspace_def)
  qed
  then show ?thesis using le by fastforce
qed

function descvec_loop :: "string \<Rightarrow> string option \<Rightarrow> nat \<Rightarrow> desc list list \<Rightarrow> desc list list outcome" where
  "descvec_loop cp dp multiple allvec =
     obind (descvec_skip cp multiple) (\<lambda>(cp, multiple).
       if cp = [] then Ret allvec
       else
         let token = takeWhile is_desc_char cp;
             (line, dp) = cmd_desc_str dp;
             d = \<lparr>cmd = token, str = line\<rparr>
         in descvec_loop (dropWhile is_desc_char cp) dp
              (if multiple \<noteq> 0 then Suc multiple else 0)
              (if multiple \<le> 1 then allvec @ [[d]] else add_to_last allvec d))"
  by pat_completeness auto
termination
proof (relation "measure (\<lambda>(cp, dp, multiple, allvec). length cp)", goal_cases)
  case (2 cp dp multiple allvec x cp' m' token y line dp' d)
  then have s: "descvec_skip cp multiple = Ret (cp', m')" and ne: "cp' \<noteq> []"
    by simp_all
  obtain c cs where cs: "cp' = c # cs" using ne by (cases cp') auto
  then have "length (dropWhile is_desc_char cp') \<le> (if is_desc_char c then length cs else length cp')"
    by (simp add: length_dropWhile_le)
  then have "length (dropWhile is_desc_char cp') < length cp"
    using descvec_skip_length [OF s] cs by (auto split: if_splits)
  then show ?case by simp
qed auto

declare descvec_loop.simps [simp del]

definition cmd_make_descvec :: "string \<Rightarrow> string option \<Rightarrow> desc list list outcome" where
  "cmd_make_descvec s descstr = descvec_loop s descstr 0 []"

text \<open>The words of a specification do not depend on its help text.\<close>

lemma add_to_last_words:
  fixes av av' :: "desc list list"
  assumes "map (map cmd) av = map (map cmd) av'" and "cmd d = cmd d'"
  shows "map (map cmd) (add_to_last av d) = map (map cmd) (add_to_last av' d')"
proof (cases "av = []")
  case True
  then show ?thesis using assms by (simp add: add_to_last_def)
next
  case False
  then have "av' \<noteq> []" using assms(1) by auto
  then have "map cmd (last av) = map cmd (last av')"
    using False assms(1) by (metis last_map)
  moreover have "map (map cmd) (butlast av) = map (map cmd) (butlast av')"
    using assms(1) by (metis map_butlast)
  ultimately show ?thesis using assms(2) by (simp add: add_to_last_def)
qed

lemma descvec_loop_words:
  "map (map cmd) av = map (map cmd) av' \<Longrightarrow>
     omap (map (map cmd)) (descvec_loop cp dp m av) = omap (map (map cmd)) (descvec_loop cp dp' m av')"
proof (induction cp dp m av arbitrary: dp' av' rule: descvec_loop.induct)
  case (1 cp dp m av)
  show ?case
  proof (cases "descvec_skip cp m")
    case (Ret p)
    obtain cp1 m1 where p: "p = (cp1, m1)" by fastforce
    obtain l1 d1 where l1: "cmd_desc_str dp = (l1, d1)" by fastforce
    obtain l2 d2 where l2: "cmd_desc_str dp' = (l2, d2)" by fastforce
    let ?d = "\<lambda>l. \<lparr>cmd = takeWhile is_desc_char cp1, str = l\<rparr>"
    let ?next = "\<lambda>av l. if m1 \<le> 1 then av @ [[?d l]] else add_to_last av (?d l)"
    have "map (map cmd) (?next av l1) = map (map cmd) (?next av' l2)"
      using "1.prems" add_to_last_words [OF "1.prems", of "?d l1" "?d l2"] by simp
    from "1.IH" [OF Ret p [symmetric] _ refl l1 [symmetric] refl refl this] show ?thesis
      using "1.prems" by (subst (1 2) descvec_loop.simps) (simp add: Ret p l1 l2 Let_def)
  qed (simp_all add: descvec_loop.simps [of cp])
qed
lemma cmd_make_descvec_words:
  "omap (map (map cmd)) (cmd_make_descvec s dp) = omap (map (map cmd)) (cmd_make_descvec s dp')"
  unfolding cmd_make_descvec_def by (rule descvec_loop_words) simp

text \<open>Commands with an optional or a variable part (\<open>command.h\<close>); \<open>S[0]\<close> of "" is NUL.\<close>

definition CMD_OPTION :: "string \<Rightarrow> bool" where
  "CMD_OPTION s \<longleftrightarrow> s \<noteq> [] \<and> hd s = CHR ''[''"

definition CMD_VARIABLE :: "string \<Rightarrow> bool" where
  "CMD_VARIABLE s \<longleftrightarrow> s \<noteq> [] \<and> ((65 \<le> chr_code (hd s) \<and> chr_code (hd s) \<le> 90) \<or> hd s = CHR ''<'')"

definition CMD_VARARG :: "string \<Rightarrow> bool" where
  "CMD_VARARG s \<longleftrightarrow> s \<noteq> [] \<and> hd s = CHR ''.''"

definition CMD_RANGE :: "string \<Rightarrow> bool" where
  "CMD_RANGE s \<longleftrightarrow> s \<noteq> [] \<and> hd s = CHR ''<''"

definition CMD_IPV4 :: "string \<Rightarrow> bool" where
  "CMD_IPV4 s \<longleftrightarrow> strcmp s ''A.B.C.D'' = 0"

definition CMD_IPV4_PREFIX :: "string \<Rightarrow> bool" where
  "CMD_IPV4_PREFIX s \<longleftrightarrow> strcmp s ''A.B.C.D/M'' = 0"

definition CMD_IPV6 :: "string \<Rightarrow> bool" where
  "CMD_IPV6 s \<longleftrightarrow> strcmp s ''X:X::X:X'' = 0"

definition CMD_IPV6_PREFIX :: "string \<Rightarrow> bool" where
  "CMD_IPV6_PREFIX s \<longleftrightarrow> strcmp s ''X:X::X:X/M'' = 0"

text \<open>The number of words in front of the first optional one.\<close>

fun cmd_cmdsize :: "desc list list \<Rightarrow> nat" where
  "cmd_cmdsize [] = 0"
| "cmd_cmdsize (descvec # strvec) =
     (if length descvec = 1 \<and> CMD_OPTION (cmd (hd descvec)) then 0 else Suc (cmd_cmdsize strvec))"

section \<open>What the words of a line are\<close>

lemma is_word_char_iff: "is_word_char c \<longleftrightarrow> \<not> isspace c"
  by (auto simp: is_word_char_def isspace_def)

lemma is_word_char_eq: "is_word_char = (\<lambda>c. \<not> isspace c)"
  by (simp add: fun_eq_iff is_word_char_iff)

lemma strvec_loop_word:
  assumes "list_all is_word_char w" and "rest = [] \<or> \<not> is_word_char (hd rest)"
  shows "strvec_loop (w @ rest) acc =
    (if list_all (\<lambda>c. \<not> is_word_char c) rest then acc @ [w]
     else strvec_loop (dropWhile (\<lambda>c. \<not> is_word_char c) rest) (acc @ [w]))"
proof -
  have "takeWhile is_word_char rest = []" "dropWhile is_word_char rest = rest"
    using assms(2) by (cases rest; auto)+
  then have "takeWhile is_word_char (w @ rest) = w" "dropWhile is_word_char (w @ rest) = rest"
    using assms(1) by (auto simp: takeWhile_append dropWhile_append list_all_iff)
  then show ?thesis
    by (subst strvec_loop.simps) (simp add: Let_def list_all_iff)
qed

lemma strvec_loop_join:
  assumes "ws \<noteq> []" and "\<And>w. w \<in> set ws \<Longrightarrow> w \<noteq> [] \<and> list_all is_word_char w"
    and "sp \<noteq> [] \<Longrightarrow> \<not> is_word_char (hd sp)" "list_all (\<lambda>c. \<not> is_word_char c) sp"
  shows "strvec_loop (join (CHR '' '') ws @ sp) acc = acc @ ws"
  using assms
proof (induction "CHR '' ''" ws arbitrary: acc rule: join.induct)
  case (2 w)
  then show ?case using strvec_loop_word [of w sp acc] by fastforce
next
  case (3 w v ws)
  let ?rest = "CHR '' '' # join (CHR '' '') (v # ws) @ sp"
  have sp: "\<not> is_word_char (CHR '' '')" by (simp add: is_word_char_def isspace_def)
  have v: "v \<noteq> []" "is_word_char (hd v)" using "3.prems"(2) [of v] by (auto simp: list_all_iff)
  then have d: "dropWhile (\<lambda>c. \<not> is_word_char c) (join (CHR '' '') (v # ws) @ sp) = join (CHR '' '') (v # ws) @ sp"
    by (cases v; cases ws) auto
  have "\<not> list_all (\<lambda>c. \<not> is_word_char c) ?rest"
    using v by (cases v; cases ws) auto
  then have "strvec_loop (w @ ?rest) acc = strvec_loop (join (CHR '' '') (v # ws) @ sp) (acc @ [w])"
    using strvec_loop_word [of w ?rest acc] "3.prems"(2) [of w] sp d by (simp only: if_False) simp
  with 3 show ?case by simp
qed simp

lemma strvec_loop_spaces:
  assumes "u \<noteq> []" "sp \<noteq> []" "list_all (\<lambda>c. \<not> is_word_char c) sp" "v \<noteq> []" "is_word_char (hd v)"
  shows "strvec_loop (u @ sp @ v) acc = strvec_loop v (strvec_loop u acc)"
  using assms
proof (induction u acc rule: strvec_loop.induct)
  case (1 u acc)
  define w rest where "w = takeWhile is_word_char u" and "rest = dropWhile is_word_char u"
  let ?n = "\<lambda>c. \<not> is_word_char c"
  have u: "u = w @ rest" "list_all is_word_char w" "rest = [] \<or> \<not> is_word_char (hd rest)"
    using hd_dropWhile [of is_word_char u] by (auto simp: w_def rest_def list_all_iff dest: set_takeWhileD)
  have hsp: "\<not> is_word_char (hd sp)" using "1.prems" by (cases sp) auto
  have dsp: "dropWhile ?n (sp @ v) = v"
    using "1.prems" by (cases v) (auto simp: list_all_iff dropWhile_append2)
  have nv: "\<not> list_all ?n (sp @ v)" "\<not> list_all ?n (rest @ sp @ v)" using "1.prems" by (cases v; auto)+
  have r: "rest @ sp @ v = [] \<or> \<not> is_word_char (hd (rest @ sp @ v))"
    using u(3) hsp "1.prems"(2) by (cases rest) auto
  have L: "strvec_loop (u @ sp @ v) acc = strvec_loop (dropWhile ?n (rest @ sp @ v)) (acc @ [w])"
    using strvec_loop_word [OF u(2) r, of acc] nv by (simp only: u(1) append_assoc if_False)
  have R: "strvec_loop u acc = (if list_all ?n rest then acc @ [w] else strvec_loop (dropWhile ?n rest) (acc @ [w]))"
    using strvec_loop_word [OF u(2,3), of acc] by (simp only: u(1))
  show ?case
  proof (cases "list_all ?n rest")
    case True
    then have "dropWhile ?n (rest @ sp @ v) = v" using dsp by (simp add: list_all_iff dropWhile_append2)
    with L R True show ?thesis by simp
  next
    case False
    then obtain c where c: "c \<in> set rest" "is_word_char c" by (auto simp: list_all_iff)
    then have d: "dropWhile ?n (rest @ sp @ v) = dropWhile ?n rest @ sp @ v"
      by (intro dropWhile_append1) auto
    have ne: "dropWhile ?n rest \<noteq> []" using c by (auto simp: dropWhile_eq_Nil_conv)
    show ?thesis
      using "1.IH" [OF refl refl refl, folded w_def rest_def, OF ne ne "1.prems"(2-)] L R False d
      by (simp only: if_False)
  qed
qed

text \<open>A word the shell accepts as it is: not empty, no white space and no quote in it.\<close>

definition plain_word :: "string \<Rightarrow> bool" where
  "plain_word w \<longleftrightarrow> w \<noteq> [] \<and> list_all (\<lambda>c. \<not> isspace c \<and> c \<noteq> CHR 0x22) w"

lemma join_quoted_plain: "CHR 0x22 \<notin> set s \<Longrightarrow> join_quoted s = s"
  unfolding join_quoted_def by (simp add: strchr_None_iff [THEN iffD2])

lemma strchr_append: "c \<notin> set u \<Longrightarrow> strchr (u @ c # v) c = Some (c # v)"
  by (induction u) auto

lemma join_quoted_quoted:
  assumes "CHR 0x22 \<notin> set u" "CHR 0x22 \<notin> set q"
  shows "join_quoted (u @ CHR 0x22 # q @ CHR 0x22 # v) =
    u @ CHR '' '' # map (\<lambda>c. if c = CHR '' '' then CHR ''-'' else c) q @ CHR '' '' # v"
  using assms by (simp add: join_quoted_def strchr_append)

lemma set_join: "set (join d ws) \<subseteq> insert d (\<Union> (set ` set ws))"
  by (induction d ws rule: join.induct) auto

lemma join_hd: "ws \<noteq> [] \<Longrightarrow> hd ws \<noteq> [] \<Longrightarrow> join d ws \<noteq> [] \<and> hd (join d ws) = hd (hd ws)"
  by (induction d ws rule: join.induct) auto

lemma join_append: "us \<noteq> [] \<Longrightarrow> vs \<noteq> [] \<Longrightarrow> join d (us @ vs) = join d us @ d # join d vs"
proof (induction d us rule: join.induct)
  case (2 d w)
  then show ?case by (cases vs) auto
qed auto

lemma strvec_loop_unquoted:
  assumes ws: "ws \<noteq> []" "\<And>w. w \<in> set ws \<Longrightarrow> w \<noteq> [] \<and> list_all (\<lambda>c. \<not> isspace c) w"
    and h: "hd (hd ws) \<noteq> CHR ''!''" "hd (hd ws) \<noteq> CHR ''#''"
    and s: "join_quoted s = sp @ join (CHR '' '') ws @ sp'" "list_all isspace sp" "list_all isspace sp'"
  shows "cmd_make_strvec (Some s) = Some ws"
proof -
  have hd: "hd ws \<noteq> []" "\<not> isspace (hd (hd ws))"
    using ws(2) [of "hd ws"] ws(1) by (auto simp: list_all_iff)
  let ?j = "join (CHR '' '') ws"
  have j: "?j \<noteq> []" "hd ?j = hd (hd ws)" using join_hd [OF ws(1) hd(1)] by auto
  then have d: "dropWhile isspace (?j @ sp') = ?j @ sp'" using hd(2) by (cases ?j) auto
  have "dropWhile isspace (join_quoted s) = ?j @ sp'"
    unfolding s(1) using s(2) d by (induction sp) auto
  moreover have "strvec_loop (?j @ sp') [] = [] @ ws"
    using ws s(3) by (intro strvec_loop_join) (cases sp'; auto simp: is_word_char_eq)+
  ultimately show ?thesis using j h by (simp add: cmd_make_strvec_def)
qed

text \<open>
  The words of a text: \<open>spelled ws s\<close> says that \<open>s\<close> is made of the words \<open>ws\<close>, in
  order, with white space between any two of them and perhaps behind the last.
\<close>

inductive spelled :: "string list \<Rightarrow> string \<Rightarrow> bool" where
  last_word: "w \<noteq> [] \<Longrightarrow> list_all (\<lambda>c. \<not> isspace c) w \<Longrightarrow> list_all isspace gap \<Longrightarrow> spelled [w] (w @ gap)"
| next_word: "w \<noteq> [] \<Longrightarrow> list_all (\<lambda>c. \<not> isspace c) w \<Longrightarrow> gap \<noteq> [] \<Longrightarrow> list_all isspace gap \<Longrightarrow> spelled ws s \<Longrightarrow>
    spelled (w # ws) (w @ gap @ s)"

lemma spelled_hd: "spelled ws s \<Longrightarrow> ws \<noteq> [] \<and> hd ws \<noteq> [] \<and> s \<noteq> [] \<and> hd s = hd (hd ws) \<and> \<not> isspace (hd s)"
  by (induction rule: spelled.induct) (auto simp: list_all_iff)

lemma spelled_loop: "spelled ws s \<Longrightarrow> strvec_loop s acc = acc @ ws"
proof (induction arbitrary: acc rule: spelled.induct)
  case (last_word w gap)
  then show ?case
    using strvec_loop_word [of w gap acc] by (cases gap) (auto simp: is_word_char_eq)
next
  case (next_word w gap ws s)
  let ?n = "\<lambda>c. \<not> is_word_char c"
  note s = spelled_hd [OF next_word.hyps(5)]
  have g: "list_all ?n gap" "\<not> is_word_char (hd (gap @ s))" using next_word.hyps(3,4)
    by (cases gap; simp add: is_word_char_eq)+
  have nv: "\<not> list_all ?n (gap @ s)" using s by (cases s) (auto simp: is_word_char_iff)
  have d: "dropWhile ?n (gap @ s) = s"
    using g(1) s by (cases s) (auto simp: list_all_iff is_word_char_iff dropWhile_append2)
  have "list_all is_word_char w" using next_word.hyps(2) by (simp add: is_word_char_eq)
  from strvec_loop_word [OF this, of "gap @ s" acc] g(2) nv d have
    "strvec_loop (w @ gap @ s) acc = strvec_loop s (acc @ [w])" by (simp only: if_False simp_thms)
  then show ?case using next_word.IH [of "acc @ [w]"] by simp
qed

lemma loop_spelled:
  "cp \<noteq> [] \<Longrightarrow> is_word_char (hd cp) \<Longrightarrow> \<exists>ws. strvec_loop cp acc = acc @ ws \<and> spelled ws cp"
proof (induction cp acc rule: strvec_loop.induct)
  case (1 cp acc)
  define w rest where "w = takeWhile is_word_char cp" and "rest = dropWhile is_word_char cp"
  let ?n = "\<lambda>c. \<not> is_word_char c"
  let ?gap = "takeWhile ?n rest" and ?s = "dropWhile ?n rest"
  have cp: "cp = w @ ?gap @ ?s" by (simp add: w_def rest_def)
  have w: "w \<noteq> []" "list_all (\<lambda>c. \<not> isspace c) w"
    using "1.prems" by (cases cp; auto simp: w_def list_all_iff is_word_char_eq dest: set_takeWhileD)+
  have gap: "list_all isspace ?gap" by (auto simp: list_all_iff is_word_char_iff dest: set_takeWhileD)
  have loop: "strvec_loop cp acc = (if ?s = [] then acc @ [w] else strvec_loop ?s (acc @ [w]))"
    by (subst strvec_loop.simps) (simp only: Let_def w_def rest_def)
  show ?case
  proof (cases "?s = []")
    case True
    with loop cp spelled.last_word [OF w gap] show ?thesis by (metis append_Nil2)
  next
    case False
    then have "is_word_char (hd ?s)" using hd_dropWhile by metis
    with "1.IH" [OF refl refl refl, folded w_def rest_def] False obtain ws where
      ws: "strvec_loop ?s (acc @ [w]) = (acc @ [w]) @ ws" "spelled ws ?s" by blast
    have "rest \<noteq> []" using False by auto
    then have "?n (hd rest)" using hd_dropWhile unfolding rest_def by metis
    then have "?gap \<noteq> []" using \<open>rest \<noteq> []\<close> by (cases rest) auto
    with loop False ws cp spelled.next_word [OF w _ gap ws(2)] show ?thesis by (metis append.assoc append_Cons append_Nil)
  qed
qed

lemma cmd_make_strvec_eq:
  "cmd_make_strvec (Some s) =
     (let cp = dropWhile isspace (join_quoted s) in
      if cp = [] \<or> hd cp \<in> {CHR ''!'', CHR ''#''} then None else Some (strvec_loop cp []))"
  unfolding cmd_make_strvec_def Let_def by simp


text \<open>C24. Words without blanks and quotes survive the trip through a line: splitting the line that
  joins them by blanks returns them.\<close>

theorem cmd_make_strvec_roundtrip:
  assumes "ws \<noteq> []" and "list_all plain_word ws" and "hd (hd ws) \<notin> {CHR ''!'', CHR ''#''}"
  shows "cmd_make_strvec (Some (join (CHR '' '') ws)) = Some ws \<and>
    cmd_make_strvec_old (Some (join (CHR '' '') ws)) = Some ws"
proof -
  have "CHR 0x22 \<notin> set (join (CHR '' '') ws)"
    using set_join [of "CHR '' ''" ws] assms(2) by (auto simp: plain_word_def list_all_iff)
  then have "join_quoted (join (CHR '' '') ws) = [] @ join (CHR '' '') ws @ []"
    by (simp add: join_quoted_plain)
  then have "cmd_make_strvec (Some (join (CHR '' '') ws)) = Some ws"
    using assms by (intro strvec_loop_unquoted [of ws _ "[]" "[]"]) (auto simp: plain_word_def list_all_iff)
  moreover have "cmd_make_strvec_old (Some s) = cmd_make_strvec (Some s)" if "join_quoted s = s" for s
    using that by (simp add: cmd_make_strvec_def cmd_make_strvec_old_def)
  ultimately show ?thesis using \<open>join_quoted _ = _\<close> by simp
qed

theorem cmd_make_strvec_roundtrip_witness:
  "cmd_make_strvec (Some ''ip address eth0'') = Some [''ip'', ''address'', ''eth0'']"
  using cmd_make_strvec_roundtrip [of "[''ip'', ''address'', ''eth0'']"]
  by (simp add: plain_word_def isspace_def)

text \<open>A quoted text is one word, with its blanks turned into hyphens.\<close>

theorem cmd_make_strvec_quoted:
  assumes "us \<noteq> []" and "list_all plain_word us" and "hd (hd us) \<notin> {CHR ''!'', CHR ''#''}"
    and "list_all plain_word vs" and "q \<noteq> []"
    and "list_all (\<lambda>c. c \<noteq> CHR 0x22 \<and> (isspace c \<longrightarrow> c = CHR '' '')) q"
  shows "cmd_make_strvec (Some (join (CHR '' '') (us @ [CHR 0x22 # q @ [CHR 0x22]] @ vs))) =
    Some (us @ [map (\<lambda>c. if c = CHR '' '' then CHR ''-'' else c) q] @ vs)"
proof -
  let ?q = "map (\<lambda>c. if c = CHR '' '' then CHR ''-'' else c) q"
  let ?j = "join (CHR '' '')" and ?n = "\<lambda>c. \<not> is_word_char c"
  let ?s = "?j (us @ [CHR 0x22 # q @ [CHR 0x22]] @ vs)"
  let ?t = "if vs = [] then [] else CHR '' '' # ?j vs"
  have words: "w \<noteq> [] \<and> list_all is_word_char w" if "w \<in> set (us @ [?q] @ vs)" for w
  proof -
    have "is_word_char (CHR ''-'')" by (simp add: is_word_char_iff isspace_def)
    then have q: "list_all is_word_char ?q"
      using assms(6) unfolding list_all_iff by (auto simp: is_word_char_iff)
    have plain: "w \<noteq> [] \<and> list_all is_word_char w" if "plain_word w" for w
      using that unfolding plain_word_def is_word_char_eq by (simp add: list_all_iff)
    from that consider "w \<in> set us" | "w = ?q" | "w \<in> set vs" by auto
    then show ?thesis
    proof cases
      case 2
      with q assms(5) show ?thesis by simp
    qed (rule plain, use assms(2,4) in \<open>simp add: list_all_iff\<close>)+
  qed
  have s: "?s = (?j us @ '' '') @ CHR 0x22 # q @ CHR 0x22 # ?t"
    using assms(1) join_append [of us "(CHR 0x22 # q @ [CHR 0x22]) # vs" "CHR '' ''"]
    by (cases vs) auto
  have "CHR 0x22 \<notin> set (?j us @ '' '')" "CHR 0x22 \<notin> set q"
    using set_join [of "CHR '' ''" us] assms by (auto simp: plain_word_def list_all_iff)
  then have e: "join_quoted ?s = ?j us @ ''  '' @ ?q @ '' '' @ ?t"
    unfolding s by (subst join_quoted_quoted) auto
  have hu: "hd us \<noteq> []" "\<not> isspace (hd (hd us))" "hd (?j us) = hd (hd us)" "?j us \<noteq> []"
    using words [of "hd us"] assms(1) join_hd [of us "CHR '' ''"] by (auto simp: list_all_iff is_word_char_iff)
  have hq: "?q \<noteq> []" "is_word_char (hd ?q)"
    using words [of ?q] assms(5) by (cases q; simp)+
  have nw: "\<not> is_word_char (CHR '' '')" by (simp add: is_word_char_iff isspace_def)
  have "strvec_loop (?j us @ ''  '' @ ?q @ '' '' @ ?t) [] = strvec_loop (?q @ '' '' @ ?t) (strvec_loop (?j us) [])"
    using hq nw hu(4) by (intro strvec_loop_spaces) auto
  also have "strvec_loop (?j us) [] = us"
    using strvec_loop_join [of us "[]" "[]"] assms(1) words by simp
  also have "strvec_loop (?q @ '' '' @ ?t) us = us @ [?q] @ vs"
  proof (cases "vs = []")
    case True
    then show ?thesis using strvec_loop_join [of "[?q]" "'' ''" us] words nw assms(5) by simp
  next
    case False
    have hv: "hd vs \<noteq> []" "is_word_char (hd (hd vs))" using words [of "hd vs"] False by (auto simp: list_all_iff)
    have "strvec_loop (?q @ ''  '' @ ?j vs) us = strvec_loop (?j vs) (strvec_loop ?q us)"
      using hq nw join_hd [OF False hv(1), of "CHR '' ''"] hv(2) by (intro strvec_loop_spaces) auto
    also have "strvec_loop ?q us = us @ [?q]" using strvec_loop_join [of "[?q]" "[]" us] words assms(5) by simp
    also have "strvec_loop (?j vs) (us @ [?q]) = (us @ [?q]) @ vs"
      using strvec_loop_join [of vs "[]" "us @ [?q]"] False words by simp
    finally show ?thesis using False by simp
  qed
  finally have "strvec_loop (join_quoted ?s) [] = us @ [?q] @ vs" unfolding e .
  moreover have "dropWhile isspace (join_quoted ?s) = join_quoted ?s" "join_quoted ?s \<noteq> []" "hd (join_quoted ?s) = hd (hd us)"
    unfolding e using hu by (cases "?j us"; simp)+
  ultimately show ?thesis using assms(3) by (simp add: cmd_make_strvec_def)
qed

theorem cmd_make_strvec_quoted_witness:
  "cmd_make_strvec (Some (''hostname '' @ CHR 0x22 # ''my gw'' @ CHR 0x22 # '' now'')) = Some [''hostname'', ''my-gw'', ''now'']"
  using cmd_make_strvec_quoted [of "[''hostname'']" "[''now'']" "''my gw''"]
  by (simp add: plain_word_def isspace_def)

section \<open>Reading a specification back\<close>

text \<open>
  The specifications of the sources have one shape: words separated by blanks, a choice of words in
  parentheses with bars between them, one help line per word. This prints them.
\<close>

definition print_group :: "desc list \<Rightarrow> string" where
  "print_group ds =
     (case ds of [d] \<Rightarrow> cmd d | _ \<Rightarrow> ''('' @ join (CHR ''|'') (map cmd ds) @ '')'')"

definition print_spec :: "desc list list \<Rightarrow> string" where
  "print_spec gs = join (CHR '' '') (map print_group gs)"

definition print_doc :: "desc list list \<Rightarrow> string" where
  "print_doc gs = unlines_nl (map (\<lambda>d. the (str d)) (concat gs))"

definition spec_word :: "string \<Rightarrow> bool" where
  "spec_word w \<longleftrightarrow> w \<noteq> [] \<and> list_all is_desc_char w \<and> hd w \<noteq> CHR ''(''"

definition doc_line :: "string \<Rightarrow> bool" where
  "doc_line l \<longleftrightarrow> l \<noteq> [] \<and> \<not> isspace (hd l) \<and> list_all (\<lambda>c. c \<noteq> CHR 0x0D \<and> c \<noteq> CHR 0x0A) l"

definition spec_desc :: "desc \<Rightarrow> bool" where
  "spec_desc d \<longleftrightarrow> spec_word (cmd d) \<and> (\<exists>l. str d = Some l \<and> doc_line l)"

definition bar_tail :: "desc list \<Rightarrow> string" where
  "bar_tail ds = concat (map (\<lambda>d. CHR ''|'' # cmd d) ds)"

definition group_tail :: "desc list list \<Rightarrow> string" where
  "group_tail gs = concat (map (\<lambda>g. CHR '' '' # print_group g) gs)"

text \<open>\<open>dp\<close> stands in front of the given help lines.\<close>

definition doc_at :: "string option \<Rightarrow> string list \<Rightarrow> bool" where
  "doc_at dp ls \<longleftrightarrow> (\<exists>t. dp = Some t \<and> dropWhile isspace t = dropWhile isspace (unlines_nl ls))"

lemma join_Cons_concat: "join d (w # ws) = w @ concat (map (Cons d) ws)"
  by (induction ws arbitrary: w) auto

lemma print_group_multi:
  "print_group (d # e # ds) = CHR ''('' # cmd d @ bar_tail (e # ds) @ '')''"
  by (simp add: print_group_def join_Cons_concat bar_tail_def comp_def)

lemma print_spec_Cons: "print_spec (g # gs) = print_group g @ group_tail gs"
  by (simp add: print_spec_def group_tail_def join_Cons_concat comp_def)

lemma cmd_desc_str_line:
  assumes "doc_at dp (l # ls)" and "doc_line l"
  shows "\<exists>dp'. cmd_desc_str dp = (Some l, dp') \<and> doc_at dp' ls"
proof -
  let ?P = "\<lambda>c. c \<noteq> CHR 0x0D \<and> c \<noteq> CHR 0x0A"
  have u: "unlines_nl (l # ls) = l @ CHR 0x0A # unlines_nl ls" by (simp add: unlines_nl_def NL_def)
  have "dropWhile isspace (l @ CHR 0x0A # unlines_nl ls) = l @ CHR 0x0A # unlines_nl ls"
    using assms(2) by (cases l) (auto simp: doc_line_def)
  then obtain t where t: "dp = Some t" "dropWhile isspace t = l @ CHR 0x0A # unlines_nl ls"
    using assms(1) by (auto simp: doc_at_def u)
  have "takeWhile ?P (l @ CHR 0x0A # unlines_nl ls) = l"
      "dropWhile ?P (l @ CHR 0x0A # unlines_nl ls) = CHR 0x0A # unlines_nl ls"
    using assms(2) by (auto simp: doc_line_def list_all_iff takeWhile_append dropWhile_append)
  then show ?thesis
    using t by (auto simp: cmd_desc_str_def Let_def doc_at_def isspace_def)
qed

lemma spec_word_hd:
  assumes "spec_word w"
  shows "\<not> isspace (hd w)" "hd w \<notin> {CHR ''('', CHR '')'', CHR ''|''}" "w \<noteq> []"
  using assms by (cases w; auto simp: spec_word_def is_desc_char_def)+

lemma isspace_marks:
  "isspace (CHR '' '')" "\<not> isspace (CHR ''('')" "\<not> isspace (CHR '')'')" "\<not> isspace (CHR ''|'')"
  by (simp_all add: isspace_def)

lemma skip_word:
  assumes "spec_word w" and pre: "pre = [] \<or> pre = '' ''"
  shows "descvec_skip (pre @ w @ rest) m = Ret (w @ rest, m)"
    and "descvec_skip (pre @ CHR ''('' # w @ rest) m = Ret (w @ rest, 1)"
    and "descvec_skip (CHR '')'' # pre @ w @ rest) m = Ret (w @ rest, 0)"
    and "descvec_skip (CHR '')'' # pre @ CHR ''('' # w @ rest) m = Ret (w @ rest, 1)"
    and "m \<noteq> 0 \<Longrightarrow> descvec_skip (CHR ''|'' # w @ rest) m = Ret (w @ rest, m)"
proof -
  obtain c v where w: "w = c # v" using spec_word_hd(3) [OF assms(1)] by (cases w) auto
  have c: "\<not> isspace c" "c \<noteq> CHR ''(''" "c \<noteq> CHR '')''" "c \<noteq> CHR ''|''"
    using spec_word_hd(1,2) [OF assms(1)] by (simp_all add: w)
  note s = descvec_skip_def skip_paren_def isspace_marks w c
  show "descvec_skip (pre @ w @ rest) m = Ret (w @ rest, m)" using pre by (elim disjE) (simp_all add: s)
  show "descvec_skip (pre @ CHR ''('' # w @ rest) m = Ret (w @ rest, 1)" using pre by (elim disjE) (simp_all add: s)
  show "descvec_skip (CHR '')'' # pre @ w @ rest) m = Ret (w @ rest, 0)" using pre by (elim disjE) (simp_all add: s)
  show "descvec_skip (CHR '')'' # pre @ CHR ''('' # w @ rest) m = Ret (w @ rest, 1)"
    using pre by (elim disjE) (simp_all add: s)
  show "m \<noteq> 0 \<Longrightarrow> descvec_skip (CHR ''|'' # w @ rest) m = Ret (w @ rest, m)" by (simp add: s)
qed

lemma skip_end: "descvec_skip [] m = Ret ([], m)" "descvec_skip '')'' m = Ret ([], 0)"
  by (simp_all add: descvec_skip_def skip_paren_def isspace_marks)

text \<open>One token at the front: the loop takes the word and its help line.\<close>

lemma descvec_loop_token:
  assumes skip: "descvec_skip cp m = Ret (cmd d @ rest, m')" and d: "spec_desc d"
    and rest: "rest = [] \<or> \<not> is_desc_char (hd rest)"
    and doc: "doc_at dp (the (str d) # ls)"
  shows "\<exists>dp'. doc_at dp' ls \<and> descvec_loop cp dp m allvec =
    descvec_loop rest dp' (if m' \<noteq> 0 then Suc m' else 0)
      (if m' \<le> 1 then allvec @ [[d]] else add_to_last allvec d)"
proof -
  obtain l where l: "str d = Some l" "doc_line l" and w: "cmd d \<noteq> []" "list_all is_desc_char (cmd d)"
    using d by (auto simp: spec_desc_def spec_word_def)
  have de: "\<lparr>cmd = cmd d, str = Some l\<rparr> = d" using l by (cases d) simp
  obtain dp' where dp': "cmd_desc_str dp = (Some l, dp')" "doc_at dp' ls"
    using cmd_desc_str_line [of dp l ls] doc l by auto
  have tk: "takeWhile is_desc_char (cmd d @ rest) = cmd d" "dropWhile is_desc_char (cmd d @ rest) = rest"
    using w(2) rest by (cases rest; auto simp: list_all_iff takeWhile_append dropWhile_append)+
  have "descvec_loop cp dp m allvec = descvec_loop rest dp' (if m' \<noteq> 0 then Suc m' else 0)
      (if m' \<le> 1 then allvec @ [[d]] else add_to_last allvec d)"
    using w by (subst descvec_loop.simps) (simp add: skip tk dp' Let_def de del: if_split)
  with dp' show ?thesis by blast
qed

lemma descvec_loop_bars:
  assumes "2 \<le> m" "list_all spec_desc ds" "doc_at dp (map (\<lambda>d. the (str d)) ds @ ls)"
  shows "\<exists>dp' m'. doc_at dp' ls \<and> 2 \<le> m' \<and>
    descvec_loop (bar_tail ds @ CHR '')'' # rest) dp m (allvec @ [g]) =
    descvec_loop (CHR '')'' # rest) dp' m' (allvec @ [g @ ds])"
  using assms
proof (induction ds arbitrary: m dp g)
  case Nil
  then show ?case by (auto simp: bar_tail_def)
next
  case (Cons d ds)
  let ?rest = "bar_tail ds @ CHR '')'' # rest"
  have d: "spec_desc d" "spec_word (cmd d)" using Cons.prems by (auto simp: spec_desc_def)
  have "descvec_skip (CHR ''|'' # cmd d @ ?rest) m = Ret (cmd d @ ?rest, m)"
    using skip_word(5) [OF d(2), of "[]"] Cons.prems(1) by simp
  moreover have "\<not> is_desc_char (hd ?rest)" by (cases ds) (auto simp: bar_tail_def is_desc_char_def)
  ultimately obtain dp' where dp': "doc_at dp' (map (\<lambda>d. the (str d)) ds @ ls)"
      "descvec_loop (CHR ''|'' # cmd d @ ?rest) dp m (allvec @ [g]) =
       descvec_loop ?rest dp' (Suc m) (allvec @ [g @ [d]])"
    using descvec_loop_token [of _ m d ?rest m dp "map (\<lambda>d. the (str d)) ds @ ls" "allvec @ [g]"] d Cons.prems
    by (auto simp: add_to_last_def)
  show ?case
    using Cons.IH [of "Suc m" dp' "g @ [d]"] Cons.prems dp' by (simp add: bar_tail_def)
qed

text \<open>A whole group, and all of them, from any of the two states a group can end in.\<close>

lemma descvec_loop_groups:
  assumes "list_all (\<lambda>g. g \<noteq> [] \<and> list_all spec_desc g) gs"
    and "doc_at dp (map (\<lambda>d. the (str d)) (concat gs))"
  shows "descvec_loop (group_tail gs) dp 0 allvec = Ret (allvec @ gs) \<and>
    descvec_loop (CHR '')'' # group_tail gs) dp m allvec = Ret (allvec @ gs)"
  using assms
proof (induction gs arbitrary: dp allvec m)
  case Nil
  then show ?case by (auto simp: group_tail_def descvec_loop.simps skip_end)
next
  case (Cons g gs)
  let ?T = "group_tail gs"
  have T: "?T = [] \<or> \<not> is_desc_char (hd ?T)" by (cases gs) (auto simp: group_tail_def is_desc_char_def isspace_marks)
  obtain d ds where g: "g = d # ds" using Cons.prems(1) by (cases g) auto
  have d: "spec_desc d" "spec_word (cmd d)" "list_all spec_desc ds"
    using Cons.prems(1) by (simp_all add: g) (simp add: spec_desc_def)
  have doc: "doc_at dp (the (str d) # map (\<lambda>d. the (str d)) ds @ map (\<lambda>d. the (str d)) (concat gs))"
    using Cons.prems(2) g by simp
  have IH: "descvec_loop ?T dp' 0 (allvec @ [g]) = Ret (allvec @ g # gs)"
      "descvec_loop (CHR '')'' # ?T) dp' m (allvec @ [g]) = Ret (allvec @ g # gs)"
    if "doc_at dp' (map (\<lambda>d. the (str d)) (concat gs))" for dp' m
    using Cons.IH [of dp' "allvec @ [g]" m] Cons.prems that by simp_all
  have main: "descvec_loop cp dp m allvec = Ret (allvec @ g # gs)"
    if cp: "cp = '' '' @ print_group g @ ?T \<and> m = 0 \<or> cp = CHR '')'' # '' '' @ print_group g @ ?T" for cp m
  proof (cases ds)
    case Nil
    then have pg: "print_group g = cmd d" by (simp add: g print_group_def)
    have "descvec_skip cp m = Ret (cmd d @ ?T, 0)"
      using cp skip_word(1,3) [OF d(2), of "'' ''" ?T] by (auto simp: pg)
    from descvec_loop_token [OF this d(1) T doc] Nil obtain dp' where
      "doc_at dp' (map (\<lambda>d. the (str d)) (concat gs))"
      "descvec_loop cp dp m allvec = descvec_loop ?T dp' 0 (allvec @ [g])" by (auto simp: g)
    then show ?thesis using IH(1) by simp
  next
    case (Cons e es)
    let ?R = "bar_tail ds @ CHR '')'' # ?T"
    have pg: "print_group g @ ?T = CHR ''('' # cmd d @ ?R" by (simp add: g Cons print_group_multi)
    have "descvec_skip cp m = Ret (cmd d @ ?R, 1)"
      using cp skip_word(2,4) [OF d(2), of "'' ''" ?R] by (auto simp: pg)
    moreover have "?R = [] \<or> \<not> is_desc_char (hd ?R)" by (simp add: Cons bar_tail_def is_desc_char_def)
    ultimately obtain dp' where 1: "doc_at dp' (map (\<lambda>d. the (str d)) ds @ map (\<lambda>d. the (str d)) (concat gs))"
      "descvec_loop cp dp m allvec = descvec_loop ?R dp' 2 (allvec @ [[d]])"
      using descvec_loop_token [OF _ d(1) _ doc] by (fastforce simp: numeral_2_eq_2)
    from descvec_loop_bars [OF order_refl d(3) 1(1), of ?T allvec "[d]"] obtain dp'' m' where
      2: "doc_at dp'' (map (\<lambda>d. the (str d)) (concat gs))"
      "descvec_loop ?R dp' 2 (allvec @ [[d]]) = descvec_loop (CHR '')'' # ?T) dp'' m' (allvec @ [g])"
      by (auto simp: g)
    then show ?thesis using IH(2) 1(2) by simp
  qed
  show ?case using main by (simp add: group_tail_def)
qed

lemma descvec_print_spec:
  assumes "list_all (\<lambda>g. g \<noteq> [] \<and> list_all spec_desc g) gs"
  shows "cmd_make_descvec (print_spec gs) (Some (print_doc gs)) = Ret gs"
proof (cases gs)
  case Nil
  then show ?thesis by (simp add: cmd_make_descvec_def print_spec_def descvec_loop.simps skip_end)
next
  case (Cons g gs')
  have "descvec_skip (print_spec gs) 0 = descvec_skip (group_tail gs) 0"
    by (simp add: Cons print_spec_Cons group_tail_def descvec_skip_def isspace_marks)
  then have "cmd_make_descvec (print_spec gs) (Some (print_doc gs)) =
      descvec_loop (group_tail gs) (Some (print_doc gs)) 0 []"
    unfolding cmd_make_descvec_def by (subst (1 2) descvec_loop.simps) simp
  also have "\<dots> = Ret ([] @ gs)"
    using descvec_loop_groups [OF assms, of "Some (print_doc gs)" "[]"]
    by (simp add: doc_at_def print_doc_def)
  finally show ?thesis by simp
qed

text \<open>Of a specification without its help lines.\<close>

definition print_words :: "string list list \<Rightarrow> string" where
  "print_words wss = join (CHR '' '') (map (\<lambda>ws. case ws of [w] \<Rightarrow> w | _ \<Rightarrow> ''('' @ join (CHR ''|'') ws @ '')'') wss)"

lemma print_words_spec: "print_spec (map (map (\<lambda>w. \<lparr>cmd = w, str = x\<rparr>)) wss) = print_words wss"
  unfolding print_spec_def print_words_def print_group_def
  by (auto intro!: arg_cong [where f = "join _"] simp: comp_def split: list.splits)

lemma descvec_print_words:
  assumes "list_all (\<lambda>ws. ws \<noteq> [] \<and> list_all spec_word ws) wss"
  shows "omap (map (map cmd)) (cmd_make_descvec (print_words wss) dp) = Ret wss"
proof -
  let ?gs = "map (map (\<lambda>w. \<lparr>cmd = w, str = Some ''x''\<rparr>)) wss"
  have "list_all (\<lambda>g. g \<noteq> [] \<and> list_all spec_desc g) ?gs"
    using assms by (auto simp: list_all_iff spec_desc_def doc_line_def isspace_def)
  from descvec_print_spec [OF this] have "cmd_make_descvec (print_words wss) (Some (print_doc ?gs)) = Ret ?gs"
    by (simp add: print_words_spec)
  then show ?thesis
    using cmd_make_descvec_words [of "print_words wss" dp "Some (print_doc ?gs)"] by (simp add: comp_def)
qed

text \<open>C25. Command specifications are parsed back from their printed form: the parser recovers the
  words, the groups of alternatives and the help line of every word.\<close>

theorem cmd_make_descvec_roundtrip:
  assumes "list_all (\<lambda>g. g \<noteq> [] \<and> list_all spec_desc g) gs"
  shows "cmd_make_descvec (print_spec gs) (Some (print_doc gs)) = Ret gs"
  using assms by (rule descvec_print_spec)

theorem cmd_make_descvec_roundtrip_witness:
  "cmd_make_descvec ''show (ip|wg)'' (Some (unlines_nl [''Show'', ''IP'', ''VPN''])) =
     Ret [[\<lparr>cmd = ''show'', str = Some ''Show''\<rparr>],
          [\<lparr>cmd = ''ip'', str = Some ''IP''\<rparr>, \<lparr>cmd = ''wg'', str = Some ''VPN''\<rparr>]]"
  using cmd_make_descvec_roundtrip [of "[[\<lparr>cmd = ''show'', str = Some ''Show''\<rparr>],
          [\<lparr>cmd = ''ip'', str = Some ''IP''\<rparr>, \<lparr>cmd = ''wg'', str = Some ''VPN''\<rparr>]]"]
  by (simp add: print_spec_def print_group_def print_doc_def spec_desc_def spec_word_def doc_line_def
      is_desc_char_def isspace_def)

end
