(* ===== verification/Cmd_Match.thy ===== *)
theory Cmd_Match
  imports Cmd_Tokens
begin

text \<open>
  Matching one word of the input against one word of a command specification
  (\<open>src/wgshell/vtysh/command.c\<close>): the address matchers, the range matcher, the two filters of
  a command vector and the ambiguity check.

  A command vector is a list of slots, NULL being \<open>None\<close>. The matchers take a \<open>char *\<close> that
  may be NULL, the last word of a line that ends in a blank; reading a vector past its \<open>max\<close>
  is undefined.
\<close>

section \<open>Match types\<close>

datatype match_type =
    no_match
  | extend_match
  | ipv4_prefix_match
  | ipv4_match
  | ipv6_prefix_match
  | ipv6_match
  | range_match
  | vararg_match
  | partly_match
  | exact_match

text \<open>The enumeration is ordered by its C values.\<close>

fun match_rank :: "match_type \<Rightarrow> nat" where
  "match_rank no_match = 0"
| "match_rank extend_match = 1"
| "match_rank ipv4_prefix_match = 2"
| "match_rank ipv4_match = 3"
| "match_rank ipv6_prefix_match = 4"
| "match_rank ipv6_match = 5"
| "match_rank range_match = 6"
| "match_rank vararg_match = 7"
| "match_rank partly_match = 8"
| "match_rank exact_match = 9"

lemma match_rank_inj [simp]: "match_rank a = match_rank b \<longleftrightarrow> a = b"
  by (cases a; cases b) auto

instantiation match_type :: linorder
begin

definition less_eq_match_type :: "match_type \<Rightarrow> match_type \<Rightarrow> bool" where
  "less_eq_match_type a b \<longleftrightarrow> match_rank a \<le> match_rank b"

definition less_match_type :: "match_type \<Rightarrow> match_type \<Rightarrow> bool" where
  "less_match_type a b \<longleftrightarrow> match_rank a < match_rank b"

instance
  by standard (auto simp: less_eq_match_type_def less_match_type_def)

end

lemmas match_order = less_eq_match_type_def less_match_type_def

section \<open>IPv4 addresses and prefixes\<close>

text \<open>A scan either makes the function return, or stops in front of a character.\<close>

datatype 'a scan = Return match_type | Break 'a

text \<open>The inner loop: the digits it passes, the rest of the string and the dots seen.\<close>

fun ipv4_octet :: "string \<Rightarrow> nat \<Rightarrow> (string \<times> string \<times> nat) scan" where
  "ipv4_octet [] dots = Break ([], [], dots)"
| "ipv4_octet (c # cs) dots =
     (if c = CHR ''.'' then
        if 3 \<le> dots then Return no_match
        else if cs \<noteq> [] \<and> hd cs = CHR ''.'' then Return no_match
        else if cs = [] then Return partly_match
        else Break ([], c # cs, Suc dots)
      else if \<not> isdigit c then Return no_match
      else (case ipv4_octet cs dots of
              Return m \<Rightarrow> Return m
            | Break (buf, rest, dots) \<Rightarrow> Break (c # buf, rest, dots)))"

lemma ipv4_octet_Break:
  "ipv4_octet s dots = Break (buf, rest, dots') \<Longrightarrow> s = buf @ rest \<and> list_all isdigit buf \<and>
     (rest = [] \<and> dots' = dots \<or> (\<exists>r. rest = CHR ''.'' # r \<and> r \<noteq> [] \<and> hd r \<noteq> CHR ''.'' \<and> dots < 3 \<and> dots' = Suc dots))"
proof (induction s arbitrary: buf)
  case (Cons c cs)
  show ?case
  proof (cases "c = CHR ''.''")
    case True
    then show ?thesis using Cons.prems by (auto split: if_splits)
  next
    case False
    then obtain b where "isdigit c" "ipv4_octet cs dots = Break (b, rest, dots')" "buf = c # b"
      using Cons.prems by (simp split: if_splits scan.splits prod.splits)
    then show ?thesis using Cons.IH by simp
  qed
qed simp

function ipv4_loop :: "string \<Rightarrow> nat \<Rightarrow> nat \<Rightarrow> match_type" where
  "ipv4_loop s dots nums =
     (case ipv4_octet s dots of
        Return m \<Rightarrow> m
      | Break (buf, rest, dots) \<Rightarrow>
          if length buf > 3 then no_match
          else if atoi buf > 255 then no_match
          else if rest = [] then (if Suc nums < 4 then partly_match else exact_match)
          else ipv4_loop (tl rest) dots (Suc nums))"
  by pat_completeness auto
termination
proof (relation "measure (\<lambda>(s, dots, nums). length s)", goal_cases)
  case (2 s dots nums x buf y rest dots')
  then show ?case using ipv4_octet_Break [of s dots buf rest dots'] by auto
qed auto

declare ipv4_loop.simps [simp del]

definition cmd_ipv4_match :: "string option \<Rightarrow> match_type" where
  "cmd_ipv4_match s = (case s of None \<Rightarrow> partly_match | Some s \<Rightarrow> ipv4_loop s 0 0)"

fun prefix_octet :: "string \<Rightarrow> nat \<Rightarrow> (string \<times> string \<times> nat) scan" where
  "prefix_octet [] dots = Break ([], [], dots)"
| "prefix_octet (c # cs) dots =
     (if c = CHR ''/'' then Break ([], c # cs, dots)
      else if c = CHR ''.'' then
        if dots = 3 then Return no_match
        else if cs \<noteq> [] \<and> (hd cs = CHR ''.'' \<or> hd cs = CHR ''/'') then Return no_match
        else if cs = [] then Return partly_match
        else Break ([], c # cs, Suc dots)
      else if \<not> isdigit c then Return no_match
      else (case prefix_octet cs dots of
              Return m \<Rightarrow> Return m
            | Break (buf, rest, dots) \<Rightarrow> Break (c # buf, rest, dots)))"

lemma prefix_octet_Break:
  "prefix_octet s dots = Break (buf, rest, dots') \<Longrightarrow> s = buf @ rest \<and> list_all isdigit buf \<and>
     (dots' = dots \<and> (rest = [] \<or> hd rest = CHR ''/'') \<or> dots \<noteq> 3 \<and> dots' = Suc dots \<and> rest \<noteq> [] \<and> hd rest = CHR ''.'')"
proof (induction s arbitrary: buf)
  case (Cons c cs)
  show ?case
  proof (cases "c = CHR ''.'' \<or> c = CHR ''/''")
    case True
    then show ?thesis using Cons.prems by (elim disjE) (auto split: if_splits)
  next
    case False
    then obtain b where "isdigit c" "prefix_octet cs dots = Break (b, rest, dots')" "buf = c # b"
      using Cons.prems by (simp split: if_splits scan.splits prod.splits)
    then show ?thesis using Cons.IH by simp
  qed
qed simp

definition prefix_mask :: "string \<Rightarrow> match_type" where
  "prefix_mask sp =
     (if \<not> list_all isdigit sp then no_match else if atoi sp > 32 then no_match else exact_match)"

function prefix_loop :: "string \<Rightarrow> nat \<Rightarrow> match_type" where
  "prefix_loop s dots =
     (case prefix_octet s dots of
        Return m \<Rightarrow> m
      | Break (buf, rest, dots) \<Rightarrow>
          if length buf > 3 then no_match
          else if length buf = 0 then no_match
          else if atoi buf > 255 then no_match
          else if dots = 3 \<and> rest \<noteq> [] \<and> hd rest = CHR ''/'' then
            if tl rest = [] then partly_match else prefix_mask (tl rest)
          else if rest = [] then partly_match
          else prefix_loop (tl rest) dots)"
  by pat_completeness auto
termination
proof (relation "measure (\<lambda>(s, dots). length s)", goal_cases)
  case (2 s dots x buf y rest dots')
  then show ?case using prefix_octet_Break [of s dots buf rest dots'] by (cases rest) auto
qed auto

declare prefix_loop.simps [simp del]

definition cmd_ipv4_prefix_match :: "string option \<Rightarrow> match_type" where
  "cmd_ipv4_prefix_match s = (case s of None \<Rightarrow> partly_match | Some s \<Rightarrow> prefix_loop s 0)"

section \<open>IPv6 addresses\<close>

datatype ipv6_state = STATE_COLON | STATE_DOUBLE | STATE_ADDR | STATE_DOT

definition IPV6_ADDR_STR :: string where
  "IPV6_ADDR_STR = ''0123456789abcdefABCDEF:.%''"

text \<open>
  The loop behind \<open>STATE_START\<close>, which only chooses the state for the first character.
  \<open>sp\<close> is the suffix it points at, so \<open>str - sp\<close> is a difference of lengths.
\<close>

fun ipv6_loop :: "string \<Rightarrow> ipv6_state \<Rightarrow> int \<Rightarrow> nat \<Rightarrow> nat \<Rightarrow> string \<Rightarrow> match_type" where
  "ipv6_loop [] state colons nums dbl sp = exact_match"
| "ipv6_loop (c # cs) state colons nums dbl sp =
     (let at_colon = (cs \<noteq> [] \<and> hd cs = CHR '':'');
          go = (\<lambda>state colons nums dbl sp.
            if nums > 8 then no_match else if colons > 7 then no_match
            else ipv6_loop cs state colons nums dbl sp)
      in case state of
           STATE_COLON \<Rightarrow>
             if at_colon then go STATE_DOUBLE (colons + 1) nums dbl sp
             else go STATE_ADDR (colons + 1) nums dbl cs
         | STATE_DOUBLE \<Rightarrow>
             if dbl \<noteq> 0 then no_match
             else if at_colon then no_match
             else go STATE_ADDR (if cs \<noteq> [] then colons + 1 else colons) (nums + 1) (dbl + 1) cs
         | STATE_ADDR \<Rightarrow>
             if at_colon \<or> cs = [] then
               if int (length sp) - int (Suc (length cs)) > 3 then no_match
               else go STATE_COLON colons (nums + 1) dbl sp
             else if hd cs = CHR ''.'' then go STATE_DOT colons nums dbl sp
             else go STATE_ADDR colons nums dbl sp
         | STATE_DOT \<Rightarrow> go STATE_ADDR colons nums dbl sp)"

definition cmd_ipv6_match :: "string option \<Rightarrow> match_type" where
  "cmd_ipv6_match s =
     (case s of
        None \<Rightarrow> partly_match
      | Some s \<Rightarrow>
          if strspn s IPV6_ADDR_STR \<noteq> length s then no_match
          else if s = [] then exact_match
          else if hd s = CHR '':'' then
            if tl s \<noteq> [] \<and> hd (tl s) \<noteq> CHR '':'' then no_match
            else ipv6_loop s STATE_COLON (- 1) 0 0 []
          else ipv6_loop s STATE_ADDR 0 0 0 s)"

section \<open>Ranges\<close>

definition DECIMAL_STRLEN_MAX :: nat where
  "DECIMAL_STRLEN_MAX = 10"

text \<open>
  One bound of \<open><min-max>\<close>: the digits up to the delimiter as a number, and the rest behind the
  delimiter. The copy into \<open>buf\<close> is guarded by the length test.
\<close>

definition range_bound :: "string \<Rightarrow> char \<Rightarrow> (nat \<times> string) option" where
  "range_bound rng d =
     (case strchr rng d of
        None \<Rightarrow> None
      | Some p \<Rightarrow>
          let len = length rng - length p in
          if len > DECIMAL_STRLEN_MAX then None
          else let (n, endptr) = strtoul (take len rng) in
            if endptr \<noteq> [] then None else Some (n, tl p))"

definition cmd_range_match :: "string \<Rightarrow> string option \<Rightarrow> bool" where
  "cmd_range_match rng s =
     (case s of
        None \<Rightarrow> True
      | Some s \<Rightarrow>
          let (val, endptr) = strtoul s in
          if endptr \<noteq> [] then False
          else
            (case range_bound (tl rng) (CHR ''-'') of
               None \<Rightarrow> False
             | Some (lo, rng) \<Rightarrow>
                 (case range_bound rng (CHR ''>'') of
                    None \<Rightarrow> False
                  | Some (hi, _) \<Rightarrow> \<not> (val < lo \<or> val > hi))))"

section \<open>Filters over a command vector\<close>

record 'f cmd_element =
  estring :: string
  func :: 'f
  doc :: string
  daemon :: int
  strvec :: "desc list list"
  cmdsize :: nat

type_synonym 'f cmd_slots = "'f cmd_element option list"

text \<open>\<open>if (match_type < m) match_type = m;\<close>\<close>

definition raise_match :: "match_type \<Rightarrow> match_type \<Rightarrow> match_type" where
  "raise_match m match = (if match < m then m else match)"

text \<open>The bodies of the loops over a descvec: they update \<open>match_type\<close> and \<open>matched\<close>.\<close>

definition completion_desc :: "string \<Rightarrow> desc \<Rightarrow> match_type \<times> nat \<Rightarrow> match_type \<times> nat" where
  "completion_desc command desc = (\<lambda>(match, matched).
     let s = cmd desc; hit = (\<lambda>m. (raise_match m match, Suc matched)); miss = (match, matched) in
     if CMD_VARARG s then hit vararg_match
     else if CMD_RANGE s then if cmd_range_match s (Some command) then hit range_match else miss
     else if CMD_IPV6 s then if cmd_ipv6_match (Some command) \<noteq> no_match then hit ipv6_match else miss
     else if CMD_IPV6_PREFIX s then miss
     else if CMD_IPV4 s then if cmd_ipv4_match (Some command) \<noteq> no_match then hit ipv4_match else miss
     else if CMD_IPV4_PREFIX s then
       if cmd_ipv4_prefix_match (Some command) \<noteq> no_match then hit ipv4_prefix_match else miss
     else if CMD_OPTION s \<or> CMD_VARIABLE s then hit extend_match
     else if strncmp command s (length command) = 0 then
       if strcmp command s = 0 then (exact_match, Suc matched) else hit partly_match
     else miss)"

definition string_desc :: "string \<Rightarrow> desc \<Rightarrow> match_type \<times> nat \<Rightarrow> match_type \<times> nat" where
  "string_desc command desc = (\<lambda>(match, matched).
     let s = cmd desc; hit = (\<lambda>m. (raise_match m match, Suc matched)); miss = (match, matched) in
     if CMD_VARARG s then hit vararg_match
     else if CMD_RANGE s then if cmd_range_match s (Some command) then hit range_match else miss
     else if CMD_IPV6 s then if cmd_ipv6_match (Some command) = exact_match then hit ipv6_match else miss
     else if CMD_IPV6_PREFIX s then miss
     else if CMD_IPV4 s then if cmd_ipv4_match (Some command) = exact_match then hit ipv4_match else miss
     else if CMD_IPV4_PREFIX s then
       if cmd_ipv4_prefix_match (Some command) = exact_match then hit ipv4_prefix_match else miss
     else if CMD_OPTION s \<or> CMD_VARIABLE s then hit extend_match
     else if strcmp command s = 0 then (exact_match, Suc matched)
     else miss)"

text \<open>The loop over the vector, the same in both filters.\<close>

fun cmd_filter :: "(desc \<Rightarrow> match_type \<times> nat \<Rightarrow> match_type \<times> nat) \<Rightarrow> nat \<Rightarrow> 'f cmd_slots \<Rightarrow> match_type
    \<Rightarrow> match_type \<times> 'f cmd_slots" where
  "cmd_filter body index [] match = (match, [])"
| "cmd_filter body index (None # v) match =
     (let (match, v) = cmd_filter body index v match in (match, None # v))"
| "cmd_filter body index (Some e # v) match =
     (if index \<ge> length (strvec e) then
        let (match, v) = cmd_filter body index v match in (match, None # v)
      else
        let (match, matched) = fold body (strvec e ! index) (match, 0);
            (match, v) = cmd_filter body index v match
        in (match, (if matched = 0 then None else Some e) # v))"

definition cmd_filter_by_completion :: "string \<Rightarrow> 'f cmd_slots \<Rightarrow> nat \<Rightarrow> match_type \<times> 'f cmd_slots" where
  "cmd_filter_by_completion command v index = cmd_filter (completion_desc command) index v no_match"

definition cmd_filter_by_string :: "string \<Rightarrow> 'f cmd_slots \<Rightarrow> nat \<Rightarrow> match_type \<times> 'f cmd_slots" where
  "cmd_filter_by_string command v index = cmd_filter (string_desc command) index v no_match"

text \<open>
  The ambiguity check. Over one descvec it either returns 1 or 2, or goes on with \<open>matched\<close>
  (the last string that matched) and \<open>match\<close> (how many did).
\<close>

datatype amb_step = Amb_skip | Amb_match | Amb_set | Amb_return nat

definition ambiguous_step :: "string \<Rightarrow> match_type \<Rightarrow> string \<Rightarrow> string option \<Rightarrow> amb_step" where
  "ambiguous_step command type s matched =
     (let set_matched = (if matched \<noteq> None \<and> strcmp (the matched) s \<noteq> 0 then Amb_return 1 else Amb_set)
      in case type of
           exact_match \<Rightarrow>
             if \<not> (CMD_OPTION s \<or> CMD_VARIABLE s) \<and> strcmp command s = 0 then Amb_match else Amb_skip
         | partly_match \<Rightarrow>
             if \<not> (CMD_OPTION s \<or> CMD_VARIABLE s) \<and> strncmp command s (length command) = 0
             then set_matched else Amb_skip
         | range_match \<Rightarrow> if cmd_range_match s (Some command) then set_matched else Amb_skip
         | ipv6_match \<Rightarrow> if CMD_IPV6 s then Amb_match else Amb_skip
         | ipv4_match \<Rightarrow> if CMD_IPV4 s then Amb_match else Amb_skip
         | ipv4_prefix_match \<Rightarrow>
             let ret = cmd_ipv4_prefix_match (Some command) in
             if ret \<noteq> no_match then if ret = partly_match then Amb_return 2 else Amb_match else Amb_skip
         | extend_match \<Rightarrow> if CMD_OPTION s \<or> CMD_VARIABLE s then Amb_match else Amb_skip
         | _ \<Rightarrow> Amb_skip)"

fun ambiguous_descs :: "string \<Rightarrow> match_type \<Rightarrow> desc list \<Rightarrow> string option \<Rightarrow> nat
    \<Rightarrow> nat + (string option \<times> nat)" where
  "ambiguous_descs command type [] matched match = Inr (matched, match)"
| "ambiguous_descs command type (d # ds) matched match =
     (case ambiguous_step command type (cmd d) matched of
        Amb_skip \<Rightarrow> ambiguous_descs command type ds matched match
      | Amb_match \<Rightarrow> ambiguous_descs command type ds matched (Suc match)
      | Amb_set \<Rightarrow> ambiguous_descs command type ds (Some (cmd d)) (Suc match)
      | Amb_return ret \<Rightarrow> Inl ret)"

text \<open>Over the vector: the return value and the vector, its entries without a match set to NULL.\<close>

fun ambiguous_slots :: "string \<Rightarrow> nat \<Rightarrow> match_type \<Rightarrow> 'f cmd_slots \<Rightarrow> string option
    \<Rightarrow> (nat \<times> 'f cmd_slots) outcome" where
  "ambiguous_slots command index type [] matched = Ret (0, [])"
| "ambiguous_slots command index type (None # v) matched =
     omap (\<lambda>(ret, v). (ret, None # v)) (ambiguous_slots command index type v matched)"
| "ambiguous_slots command index type (Some e # v) matched =
     (if index \<ge> length (strvec e) then Undef
      else case ambiguous_descs command type (strvec e ! index) matched 0 of
        Inl ret \<Rightarrow> Ret (ret, Some e # v)
      | Inr (matched, match) \<Rightarrow>
          omap (\<lambda>(ret, v). (ret, (if match = 0 then None else Some e) # v))
            (ambiguous_slots command index type v matched))"

definition is_cmd_ambiguous :: "string \<Rightarrow> 'f cmd_slots \<Rightarrow> nat \<Rightarrow> match_type \<Rightarrow> (nat \<times> 'f cmd_slots) outcome" where
  "is_cmd_ambiguous command v index type = ambiguous_slots command index type v None"

section \<open>What a filter keeps\<close>

text \<open>How a word of the line matches a word of a specification, for the two filters.\<close>

definition completion_kind :: "string \<Rightarrow> string \<Rightarrow> match_type" where
  "completion_kind command s =
     (if CMD_VARARG s then vararg_match
      else if CMD_RANGE s then if cmd_range_match s (Some command) then range_match else no_match
      else if CMD_IPV6 s then if cmd_ipv6_match (Some command) \<noteq> no_match then ipv6_match else no_match
      else if CMD_IPV6_PREFIX s then no_match
      else if CMD_IPV4 s then if cmd_ipv4_match (Some command) \<noteq> no_match then ipv4_match else no_match
      else if CMD_IPV4_PREFIX s then
        if cmd_ipv4_prefix_match (Some command) \<noteq> no_match then ipv4_prefix_match else no_match
      else if CMD_OPTION s \<or> CMD_VARIABLE s then extend_match
      else if prefix command s then if command = s then exact_match else partly_match
      else no_match)"

definition string_kind :: "string \<Rightarrow> string \<Rightarrow> match_type" where
  "string_kind command s =
     (if CMD_VARARG s then vararg_match
      else if CMD_RANGE s then if cmd_range_match s (Some command) then range_match else no_match
      else if CMD_IPV6 s then if cmd_ipv6_match (Some command) = exact_match then ipv6_match else no_match
      else if CMD_IPV6_PREFIX s then no_match
      else if CMD_IPV4 s then if cmd_ipv4_match (Some command) = exact_match then ipv4_match else no_match
      else if CMD_IPV4_PREFIX s then
        if cmd_ipv4_prefix_match (Some command) = exact_match then ipv4_prefix_match else no_match
      else if CMD_OPTION s \<or> CMD_VARIABLE s then extend_match
      else if command = s then exact_match
      else no_match)"

lemma raise_match_max: "raise_match m a = max a m"
  by (simp add: raise_match_def max_def le_less)

lemma max_exact [simp]: "max m exact_match = exact_match"
  by (cases m) (simp_all add: max_def match_order)

lemma max_no_match [simp]: "max no_match m = m" "max m no_match = m"
  by (cases m; simp add: max_def match_order)+

text \<open>
  The contract of a loop body: a word of the specification that matches raises the match type to
  its kind and is counted, another one leaves both alone.
\<close>

locale desc_body =
  fixes body :: "desc \<Rightarrow> match_type \<times> nat \<Rightarrow> match_type \<times> nat" and kind :: "string \<Rightarrow> match_type"
  assumes body: "body d (m, n) = (if kind (cmd d) = no_match then (m, n) else (max m (kind (cmd d)), Suc n))"
begin

text \<open>The slot of an element after the filter.\<close>

definition keeps :: "nat \<Rightarrow> 'f cmd_element \<Rightarrow> bool" where
  "keeps index e \<longleftrightarrow> index < length (strvec e) \<and> (\<exists>d \<in> set (strvec e ! index). kind (cmd d) \<noteq> no_match)"

definition kinds :: "nat \<Rightarrow> 'f cmd_slots \<Rightarrow> match_type list" where
  "kinds index v = concat (map (\<lambda>e. case e of None \<Rightarrow> []
     | Some e \<Rightarrow> if index < length (strvec e) then map (kind \<circ> cmd) (strvec e ! index) else []) v)"

lemma fold_body:
  "fold body ds (m, n) = (fold max (map (kind \<circ> cmd) ds) m, n + length (filter (\<lambda>d. kind (cmd d) \<noteq> no_match) ds))"
  by (induction ds arbitrary: m n) (auto simp: body max.commute)

lemma filter_slots:
  "snd (cmd_filter body index v m) =
     map (\<lambda>e. case e of None \<Rightarrow> None | Some e \<Rightarrow> if keeps index e then Some e else None) v"
proof (induction v arbitrary: m)
  case (Cons s v)
  then show ?case unfolding keeps_def
    by (cases s) (auto simp: fold_body Let_def filter_empty_conv case_prod_beta)
qed simp

lemma filter_match: "fst (cmd_filter body index v m) = fold max (kinds index v) m"
proof (induction v arbitrary: m)
  case (Cons s v)
  then show ?case
    by (cases s) (auto simp: fold_body kinds_def Let_def case_prod_beta)
qed (simp add: kinds_def)

lemma fold_max_in: "fold max ks m = m \<or> fold max ks m \<in> set (ks :: match_type list)"
proof (induction ks arbitrary: m)
  case (Cons k ks)
  from Cons [of "max k m"] show ?case by (auto simp: max_def split: if_splits)
qed simp

lemma filter_match_attained:
  assumes "fst (cmd_filter body index v no_match) = k" and "k \<noteq> no_match"
  obtains e d where "Some e \<in> set (snd (cmd_filter body index v no_match))" "index < length (strvec e)"
    "d \<in> set (strvec e ! index)" "kind (cmd d) = k"
proof -
  have "k \<in> set (kinds index v)"
    using fold_max_in [of "kinds index v" no_match] assms by (auto simp: filter_match)
  then obtain e d where e: "Some e \<in> set v" "index < length (strvec e)" "d \<in> set (strvec e ! index)" "kind (cmd d) = k"
    by (auto simp: kinds_def split: option.splits if_splits)
  moreover have "Some e \<in> set (snd (cmd_filter body index v no_match))"
    unfolding filter_slots using e assms(2) by (force simp: keeps_def image_iff)
  ultimately show ?thesis using that by blast
qed

lemma fold_max_exact: "exact_match \<in> set ks \<or> m = exact_match \<Longrightarrow> fold max ks m = exact_match"
proof (induction ks arbitrary: m)
  case (Cons k ks)
  have "max exact_match m = exact_match" for m :: match_type
    using max_exact [of m] by (simp only: max.commute)
  then have "exact_match \<in> set ks \<or> max k m = exact_match"
    using Cons.prems by (elim disjE) (simp_all, blast)
  then show ?case using Cons.IH by simp
qed simp

lemma filter_match_exact:
  assumes "Some e \<in> set v" "index < length (strvec e)" "d \<in> set (strvec e ! index)" "kind (cmd d) = exact_match"
  shows "fst (cmd_filter body index v m) = exact_match"
proof -
  have "exact_match \<in> set (kinds index v)"
  proof -
    have "kind (cmd d) \<in> set (map (kind \<circ> cmd) (strvec e ! index))"
      using assms(3) by simp
    then have "exact_match \<in> set (map (kind \<circ> cmd) (strvec e ! index))" by (simp only: assms(4))
    with assms(1,2) show ?thesis
      unfolding kinds_def set_concat UN_iff by (intro bexI [of _ "map (kind \<circ> cmd) (strvec e ! index)"])
        (simp_all add: image_iff bexI [of _ "Some e"])
  qed
  then show ?thesis by (simp add: filter_match fold_max_exact)
qed

end

definition count_kind :: "match_type \<times> nat \<Rightarrow> match_type \<Rightarrow> match_type \<times> nat" where
  "count_kind = (\<lambda>(m, n) k. if k = no_match then (m, n) else (max m k, Suc n))"

lemma count_kind_no: "count_kind (m, n) no_match = (m, n)"
  by (simp add: count_kind_def)

lemma count_kind_hit: "k \<noteq> no_match \<Longrightarrow> (max m k, Suc n) = count_kind (m, n) k"
  by (simp add: count_kind_def)

lemma count_kind_exact: "(exact_match, Suc n) = count_kind (m, n) exact_match"
  by (simp add: count_kind_def)

lemmas count_kind_leaves = count_kind_hit [of vararg_match] count_kind_hit [of range_match]
  count_kind_hit [of ipv6_match] count_kind_hit [of ipv4_match] count_kind_hit [of ipv4_prefix_match]
  count_kind_hit [of extend_match] count_kind_hit [of partly_match]

lemma completion_desc_eq:
  "completion_desc command d (m, n) = count_kind (m, n) (completion_kind command (cmd d))"
  unfolding completion_desc_def completion_kind_def Let_def split_conv raise_match_max
    strncmp_prefix_iff strcmp_eq_0_iff if_distrib [of "count_kind (m, n)"] count_kind_no
    count_kind_exact [of n m]
  by (simp only: count_kind_leaves match_type.distinct not_False_eq_True)

lemma string_desc_eq:
  "string_desc command d (m, n) = count_kind (m, n) (string_kind command (cmd d))"
  unfolding string_desc_def string_kind_def Let_def split_conv raise_match_max
    strcmp_eq_0_iff if_distrib [of "count_kind (m, n)"] count_kind_no
    count_kind_exact [of n m]
  by (simp only: count_kind_leaves match_type.distinct not_False_eq_True)

interpretation completion: desc_body "completion_desc command" "completion_kind command" for command
  by unfold_locales (simp add: completion_desc_eq count_kind_def)

interpretation by_string: desc_body "string_desc command" "string_kind command" for command
  by unfold_locales (simp add: string_desc_eq count_kind_def)

lemma kind_vararg:
  "completion_kind w s = vararg_match \<Longrightarrow> CMD_VARARG s" "string_kind w s = vararg_match \<Longrightarrow> CMD_VARARG s"
  by (simp_all add: completion_kind_def string_kind_def split: if_splits)

section \<open>What the ambiguity check leaves\<close>

text \<open>It never keeps an element that was not there, and keeps the others in their places.\<close>

definition sub_slots :: "'f cmd_slots \<Rightarrow> 'f cmd_slots \<Rightarrow> bool" where
  "sub_slots v w \<longleftrightarrow> list_all2 (\<lambda>a b. a = None \<or> a = b) v w"

lemma sub_slots_refl [simp]: "sub_slots v v"
  by (simp add: sub_slots_def list_all2_refl)

lemma sub_slots_trans: "sub_slots u v \<Longrightarrow> sub_slots v w \<Longrightarrow> sub_slots u w"
  unfolding sub_slots_def by (rule list_all2_trans) auto

lemma sub_slots_memD: "sub_slots v w \<Longrightarrow> Some e \<in> set v \<Longrightarrow> Some e \<in> set w"
  unfolding sub_slots_def by (induction rule: list_all2_induct) auto

lemma sub_slots_filter: "sub_slots (map (\<lambda>e. case e of None \<Rightarrow> None | Some e \<Rightarrow> if P e then Some e else None) v) v"
  by (induction v) (auto simp: sub_slots_def split: option.splits)

lemma ambiguous_slots_sub:
  "ambiguous_slots command index type v matched = Ret (ret, v') \<Longrightarrow> sub_slots v' v"
proof (induction v arbitrary: matched ret v')
  case (Cons s v)
  then show ?case
    by (cases s) (auto simp: sub_slots_def outcome_simps list_all2_refl split: if_splits sum.splits prod.splits)
qed (simp add: sub_slots_def)

text \<open>It is defined on every vector a filter has passed.\<close>

lemma ambiguous_slots_defined:
  assumes "\<And>e. Some e \<in> set v \<Longrightarrow> index < length (strvec e)"
  shows "\<exists>r. ambiguous_slots command index type v matched = Ret r"
  using assms
proof (induction v arbitrary: matched)
  case (Cons s v)
  then have IH: "\<exists>r. ambiguous_slots command index type v m = Ret r" for m by auto
  show ?case
  proof (cases s)
    case None
    with IH [of matched] show ?thesis by auto
  next
    case (Some e)
    then have "index < length (strvec e)" using Cons.prems by auto
    moreover have "\<exists>r. omap f (ambiguous_slots command index type v m) = Ret r" for f :: "nat \<times> 'a cmd_slots \<Rightarrow> nat \<times> 'a cmd_slots" and m
      using IH [of m] by auto
    ultimately show ?thesis using Some by (auto split: sum.splits)
  qed
qed simp

text \<open>The kinds of match that is left when the check returns 0, by the type it checked for.\<close>

definition match_left :: "string \<Rightarrow> match_type \<Rightarrow> string \<Rightarrow> bool" where
  "match_left command type s =
     (case type of
        exact_match \<Rightarrow> \<not> (CMD_OPTION s \<or> CMD_VARIABLE s) \<and> command = s
      | partly_match \<Rightarrow> \<not> (CMD_OPTION s \<or> CMD_VARIABLE s) \<and> prefix command s
      | range_match \<Rightarrow> cmd_range_match s (Some command)
      | ipv6_match \<Rightarrow> CMD_IPV6 s
      | ipv4_match \<Rightarrow> CMD_IPV4 s
      | ipv4_prefix_match \<Rightarrow> cmd_ipv4_prefix_match (Some command) \<noteq> no_match
      | extend_match \<Rightarrow> CMD_OPTION s \<or> CMD_VARIABLE s
      | _ \<Rightarrow> False)"

lemma kind_exact:
  "completion_kind w s = exact_match \<Longrightarrow> match_left w exact_match s"
  "string_kind w s = exact_match \<Longrightarrow> match_left w exact_match s"
  by (simp_all add: completion_kind_def string_kind_def match_left_def split: if_splits)

lemma special_word_variable: "CMD_RANGE s \<or> CMD_IPV6 s \<or> CMD_IPV6_PREFIX s \<or> CMD_IPV4 s \<or> CMD_IPV4_PREFIX s \<Longrightarrow> CMD_VARIABLE s"
  by (auto simp: CMD_RANGE_def CMD_VARIABLE_def CMD_IPV6_def CMD_IPV6_PREFIX_def CMD_IPV4_def
      CMD_IPV4_PREFIX_def chr_code_def)

lemma kind_self:
  assumes "match_left w exact_match s"
  shows "completion_kind w s \<noteq> no_match" and "string_kind w s \<noteq> no_match"
proof -
  have "w = s" "\<not> CMD_OPTION s" "\<not> CMD_VARIABLE s" using assms by (simp_all add: match_left_def)
  moreover from this have "\<not> CMD_RANGE s" "\<not> CMD_IPV6 s" "\<not> CMD_IPV6_PREFIX s" "\<not> CMD_IPV4 s" "\<not> CMD_IPV4_PREFIX s"
    using special_word_variable [of s] by blast+
  ultimately show "completion_kind w s \<noteq> no_match" and "string_kind w s \<noteq> no_match"
    by (simp_all add: completion_kind_def string_kind_def)
qed

lemma ambiguous_step_skip:
  "ambiguous_step command type s matched = Amb_skip \<longleftrightarrow> \<not> match_left command type s"
  by (cases type) (simp_all add: ambiguous_step_def match_left_def Let_def)

lemma ambiguous_step_return: "ambiguous_step command type s matched = Amb_return r \<Longrightarrow> r = 1 \<or> r = 2"
  by (cases type) (auto simp: ambiguous_step_def Let_def split: if_splits)

lemma ambiguous_descs_left:
  "ambiguous_descs command type ds matched n = Inr (matched', n') \<Longrightarrow>
     n' = n + length (filter (\<lambda>d. match_left command type (cmd d)) ds)"
proof (induction ds arbitrary: matched n)
  case (Cons d ds)
  then show ?case
    using ambiguous_step_skip [of command type "cmd d" matched]
    by (auto split: amb_step.splits dest!: Cons.IH)
qed simp

lemma ambiguous_descs_ret: "ambiguous_descs command type ds matched n = Inl r \<Longrightarrow> r = 1 \<or> r = 2"
  by (induction ds arbitrary: matched n) (auto split: amb_step.splits dest: ambiguous_step_return)

lemma ambiguous_slots_left:
  "ambiguous_slots command index type v matched = Ret (0, v') \<Longrightarrow>
     v' = map (\<lambda>e. case e of None \<Rightarrow> None
        | Some e \<Rightarrow> if \<exists>d \<in> set (strvec e ! index). match_left command type (cmd d) then Some e else None) v"
proof (induction v arbitrary: matched v')
  case (Cons s v)
  show ?case
  proof (cases s)
    case None
    then show ?thesis using Cons by (auto simp: outcome_simps)
  next
    case (Some e)
    let ?a = "ambiguous_descs command type (strvec e ! index) matched 0"
    have i: "\<not> length (strvec e) \<le> index" using Cons.prems Some by (auto split: if_splits)
    show ?thesis
    proof (cases ?a)
      case (Inl r)
      then show ?thesis using Cons.prems Some i ambiguous_descs_ret [OF Inl] by auto
    next
      case (Inr p)
      obtain m n where p: "p = (m, n)" by fastforce
      with Cons.prems Some Inr i obtain w where
        w: "ambiguous_slots command index type v m = Ret (0, w)" "v' = (if n = 0 then None else Some e) # w"
        by (auto simp: outcome_simps)
      have "n = 0 \<longleftrightarrow> \<not> (\<exists>d \<in> set (strvec e ! index). match_left command type (cmd d))"
        using ambiguous_descs_left [of command type "strvec e ! index" matched 0 m n] Inr p
        by (auto simp: filter_empty_conv)
      then show ?thesis using w Cons.IH [OF w(1)] Some by auto
    qed
  qed
qed simp

section \<open>What the matchers accept\<close>

definition octet :: "string \<Rightarrow> bool" where
  "octet x \<longleftrightarrow> list_all isdigit x \<and> length x \<le> 3 \<and> digits_val 0 x \<le> 255"

lemma octet_atoi: "list_all isdigit x \<Longrightarrow> length x \<le> 3 \<Longrightarrow> octet x \<longleftrightarrow> \<not> atoi x > 255"
  using atoi_digits [of x] by (auto simp: octet_def)

lemma digit_not_mark [simp]: "isdigit c \<Longrightarrow> c \<noteq> CHR ''.'' \<and> c \<noteq> CHR ''/''"
  by (auto simp: isdigit_def)

lemma ipv4_octet_digits:
  "list_all isdigit x \<Longrightarrow> ipv4_octet (x @ rest) dots =
     (case ipv4_octet rest dots of Return m \<Rightarrow> Return m | Break (b, r, d) \<Rightarrow> Break (x @ b, r, d))"
  by (induction x) (auto split: scan.splits)

lemma prefix_octet_digits:
  "list_all isdigit x \<Longrightarrow> prefix_octet (x @ rest) dots =
     (case prefix_octet rest dots of Return m \<Rightarrow> Return m | Break (b, r, d) \<Rightarrow> Break (x @ b, r, d))"
  by (induction x) (auto split: scan.splits)

definition octets :: "string list \<Rightarrow> bool" where
  "octets xs \<longleftrightarrow> (\<forall>y \<in> set xs. octet y \<and> y \<noteq> [])"

lemma join_octets_hd:
  assumes "octets (y # xs)"
  shows "join (CHR ''.'') (y # xs) \<noteq> [] \<and> isdigit (hd (join (CHR ''.'') (y # xs)))"
  using assms by (cases y; cases xs) (auto simp: octets_def octet_def)

lemma ipv4_loop_accepts:
  "octet x \<Longrightarrow> octets xs \<Longrightarrow> length xs = 3 - k \<Longrightarrow> k \<le> 3 \<Longrightarrow>
     ipv4_loop (join (CHR ''.'') (x # xs)) k k = exact_match"
proof (induction xs arbitrary: x k)
  case Nil
  then have "k = 3" by simp
  have "ipv4_octet x 3 = Break (x, [], 3)"
    using ipv4_octet_digits [of x "[]" 3] Nil.prems(1) by (simp add: octet_def)
  then show ?case using Nil.prems(1) octet_atoi [of x]
    by (subst ipv4_loop.simps) (simp add: \<open>k = 3\<close> octet_def)
next
  case (Cons y xs)
  let ?r = "join (CHR ''.'') (y # xs)"
  have r: "?r \<noteq> []" "hd ?r \<noteq> CHR ''.''" using join_octets_hd [OF Cons.prems(2)] digit_not_mark by blast+
  have "ipv4_octet (x @ CHR ''.'' # ?r) k = Break (x, CHR ''.'' # ?r, Suc k)"
    using ipv4_octet_digits [of x "CHR ''.'' # ?r" k] Cons.prems r by (simp add: octet_def)
  then have "ipv4_loop (x @ CHR ''.'' # ?r) k k = ipv4_loop ?r (Suc k) (Suc k)"
    using Cons.prems(1) octet_atoi [of x] by (subst ipv4_loop.simps) (simp add: octet_def)
  with Cons show ?case by (simp add: octets_def)
qed

lemma ipv4_loop_exactD:
  "ipv4_loop s k k = exact_match \<Longrightarrow> k \<le> 3 \<Longrightarrow>
     \<exists>x xs. octet x \<and> octets xs \<and> length xs = 3 - k \<and> s = join (CHR ''.'') (x # xs)"
proof (induction "length s" arbitrary: s k rule: less_induct)
  case less
  show ?case
  proof (cases "ipv4_octet s k")
    case (Return m)
    then have "m \<noteq> exact_match" by (induction s) (auto split: if_splits scan.splits)
    then show ?thesis using less.prems(1) Return by (subst (asm) ipv4_loop.simps) simp
  next
    case (Break p)
    obtain buf rest d where p: "p = (buf, rest, d)" by (cases p)
    note b = ipv4_octet_Break [OF Break [unfolded p]]
    have l: "ipv4_loop s k k = (if length buf > 3 \<or> atoi buf > 255 then no_match
        else if rest = [] then (if Suc k < 4 then partly_match else exact_match)
        else ipv4_loop (tl rest) d (Suc k))"
      by (subst ipv4_loop.simps) (simp add: Break p)
    then have o: "octet buf" using less.prems(1) b octet_atoi [of buf] by (auto split: if_splits)
    show ?thesis
    proof (cases "rest = []")
      case True
      then have "k = 3" using l less.prems by (auto split: if_splits)
      then show ?thesis using o b True by (intro exI [of _ buf] exI [of _ "[]"]) (simp add: octets_def)
    next
      case False
      then obtain r where r: "rest = CHR ''.'' # r" "r \<noteq> []" "hd r \<noteq> CHR ''.''" "k < 3" "d = Suc k"
        using b by auto
      then have "ipv4_loop r (Suc k) (Suc k) = exact_match" using l less.prems(1) by (auto split: if_splits)
      then obtain x xs where x: "octet x" "octets xs" "length xs = 3 - Suc k" "r = join (CHR ''.'') (x # xs)"
        using less.hyps [of r "Suc k"] b r by auto
      then have "x \<noteq> []" using r by (cases xs) auto
      then show ?thesis using o b r x
        by (intro exI [of _ buf] exI [of _ "x # xs"]) (auto simp: octets_def)
    qed
  qed
qed

text \<open>C26. The IPv4 matcher accepts four numbers of at most three digits and at most 255, separated
  by dots. The last three have a digit; the first may be empty.\<close>

theorem cmd_ipv4_match_exact:
  "cmd_ipv4_match (Some s) = exact_match \<longleftrightarrow>
     (\<exists>a b c d. s = join (CHR ''.'') [a, b, c, d] \<and> octet a \<and> octet b \<and> octet c \<and> octet d \<and>
        b \<noteq> [] \<and> c \<noteq> [] \<and> d \<noteq> [])"
proof
  assume "cmd_ipv4_match (Some s) = exact_match"
  then obtain x xs where x: "octet x" "octets xs" "length xs = 3" "s = join (CHR ''.'') (x # xs)"
    using ipv4_loop_exactD [of s 0] by (auto simp: cmd_ipv4_match_def)
  then obtain b c d where "xs = [b, c, d]" by (auto simp: eval_nat_numeral length_Suc_conv)
  with x show "\<exists>a b c d. s = join (CHR ''.'') [a, b, c, d] \<and> octet a \<and> octet b \<and> octet c \<and> octet d \<and>
      b \<noteq> [] \<and> c \<noteq> [] \<and> d \<noteq> []"
    by (intro exI [of _ x] exI [of _ b] exI [of _ c] exI [of _ d]) (simp add: octets_def)
next
  assume "\<exists>a b c d. s = join (CHR ''.'') [a, b, c, d] \<and> octet a \<and> octet b \<and> octet c \<and> octet d \<and>
      b \<noteq> [] \<and> c \<noteq> [] \<and> d \<noteq> []"
  then obtain a b c d where s: "s = join (CHR ''.'') [a, b, c, d]" "octet a" "octets [b, c, d]"
    by (auto simp: octets_def)
  then show "cmd_ipv4_match (Some s) = exact_match"
    using ipv4_loop_accepts [of a "[b, c, d]" 0] by (simp only: cmd_ipv4_match_def option.case) simp
qed

lemma prefix_loop_accepts:
  "octet x \<Longrightarrow> x \<noteq> [] \<Longrightarrow> octets xs \<Longrightarrow> length xs = 3 - k \<Longrightarrow> k \<le> 3 \<Longrightarrow> m \<noteq> [] \<Longrightarrow>
     prefix_loop (join (CHR ''.'') (x # xs) @ CHR ''/'' # m) k = prefix_mask m"
proof (induction xs arbitrary: x k)
  case Nil
  then have "k = 3" by simp
  have "prefix_octet (x @ CHR ''/'' # m) 3 = Break (x, CHR ''/'' # m, 3)"
    using prefix_octet_digits [of x "CHR ''/'' # m" 3] Nil.prems(1) by (simp add: octet_def)
  then show ?case using Nil.prems octet_atoi [of x]
    by (subst prefix_loop.simps) (simp add: \<open>k = 3\<close> octet_def)
next
  case (Cons y xs)
  let ?r = "join (CHR ''.'') (y # xs)"
  have r: "?r \<noteq> []" "hd ?r \<noteq> CHR ''.''" "hd ?r \<noteq> CHR ''/''"
    using join_octets_hd [OF Cons.prems(3)] digit_not_mark by blast+
  let ?s = "?r @ CHR ''/'' # m"
  have "prefix_octet (x @ CHR ''.'' # ?s) k = Break (x, CHR ''.'' # ?s, Suc k)"
    using prefix_octet_digits [of x "CHR ''.'' # ?s" k] Cons.prems r by (simp add: octet_def)
  then have "prefix_loop (x @ CHR ''.'' # ?s) k = prefix_loop ?s (Suc k)"
    using Cons.prems octet_atoi [of x] by (subst prefix_loop.simps) (simp add: octet_def)
  moreover have "prefix_loop ?s (Suc k) = prefix_mask m"
    using Cons.prems by (intro Cons.IH) (auto simp: octets_def)
  ultimately show ?case by simp
qed

text \<open>C27. The prefix matcher accepts every address in dotted notation followed by a prefix length
  of at most 32, and rejects the same address with a longer prefix.\<close>

theorem cmd_ipv4_prefix_match_accepts:
  assumes "octets [a, b, c, d]" and "m \<le> 999999999"
  shows "cmd_ipv4_prefix_match (Some (join (CHR ''.'') [a, b, c, d] @ CHR ''/'' # string_of_nat m)) =
    (if m \<le> 32 then exact_match else no_match)"
proof -
  have m: "list_all isdigit (string_of_nat m)" "string_of_nat m \<noteq> []"
    using string_of_nat_digits by blast+
  have "length (string_of_nat m) \<le> 9" using assms(2) by (intro length_string_of_nat) auto
  then have "atoi (string_of_nat m) = int m" using atoi_digits [OF m(1)] by simp
  moreover have "prefix_loop (join (CHR ''.'') [a, b, c, d] @ CHR ''/'' # string_of_nat m) 0 = prefix_mask (string_of_nat m)"
    using assms(1) m(2) by (intro prefix_loop_accepts) (simp_all add: octets_def)
  ultimately show ?thesis using m(1) by (simp add: cmd_ipv4_prefix_match_def prefix_mask_def)
qed

theorem cmd_ipv4_prefix_match_accepts_witness:
  "cmd_ipv4_prefix_match (Some (''10.1.1.0/'' @ string_of_nat 24)) = exact_match"
  using cmd_ipv4_prefix_match_accepts [of "''10''" "''1''" "''1''" "''0''" 24]
  by (simp add: octets_def octet_def isdigit_def digit_val_def chr_code_def)

text \<open>
  The separators of a prefix after \<open>k\<close> dots: slashes in front of the third dot are skipped, and
  the third dot is followed by one number and the slash in front of the length.
\<close>

fun separators :: "nat \<Rightarrow> string \<Rightarrow> bool" where
  "separators k [] \<longleftrightarrow> False"
| "separators k (c # cs) \<longleftrightarrow> (if k = 3 then c = CHR ''/'' \<and> cs = []
     else c = CHR ''.'' \<and> separators (Suc k) cs \<or> c = CHR ''/'' \<and> separators k cs)"

definition prefix_parts :: "nat \<Rightarrow> string \<Rightarrow> bool" where
  "prefix_parts k s \<longleftrightarrow> (\<exists>ps m. s = concat (map (\<lambda>(x, c). x @ [c]) ps) @ m \<and> separators k (map snd ps) \<and>
     (\<forall>(x, c) \<in> set ps. octet x \<and> x \<noteq> []) \<and> m \<noteq> [] \<and> list_all isdigit m \<and> atoi m \<le> 32)"

lemma prefix_mask_exact: "prefix_mask m = exact_match \<longleftrightarrow> list_all isdigit m \<and> atoi m \<le> 32"
  by (simp add: prefix_mask_def)

lemma prefix_parts_last:
  "prefix_parts 3 s \<longleftrightarrow> (\<exists>x m. s = x @ CHR ''/'' # m \<and> octet x \<and> x \<noteq> [] \<and> m \<noteq> [] \<and> list_all isdigit m \<and> atoi m \<le> 32)"
proof
  assume "prefix_parts 3 s"
  then obtain ps m where p: "s = concat (map (\<lambda>(x, c). x @ [c]) ps) @ m" "separators 3 (map snd ps)"
    "\<forall>(x, c) \<in> set ps. octet x \<and> x \<noteq> []" "m \<noteq> []" "list_all isdigit m" "atoi m \<le> 32"
    unfolding prefix_parts_def by blast
  then obtain x where "ps = [(x, CHR ''/'')]" by (cases ps) auto
  with p show "\<exists>x m. s = x @ CHR ''/'' # m \<and> octet x \<and> x \<noteq> [] \<and> m \<noteq> [] \<and> list_all isdigit m \<and> atoi m \<le> 32" by auto
next
  assume "\<exists>x m. s = x @ CHR ''/'' # m \<and> octet x \<and> x \<noteq> [] \<and> m \<noteq> [] \<and> list_all isdigit m \<and> atoi m \<le> 32"
  then obtain x m where "s = x @ CHR ''/'' # m" "octet x" "x \<noteq> []" "m \<noteq> []" "list_all isdigit m" "atoi m \<le> 32" by blast
  then show "prefix_parts 3 s" unfolding prefix_parts_def
    by (intro exI [of _ "[(x, CHR ''/'')]"] exI [of _ m]) simp
qed

lemma prefix_parts_step:
  assumes "k < 3"
  shows "prefix_parts k s \<longleftrightarrow> (\<exists>x c t. s = x @ c # t \<and> octet x \<and> x \<noteq> [] \<and>
    (c = CHR ''.'' \<and> prefix_parts (Suc k) t \<or> c = CHR ''/'' \<and> prefix_parts k t))"
proof
  assume "prefix_parts k s"
  then obtain ps m where p: "s = concat (map (\<lambda>(x, c). x @ [c]) ps) @ m" "separators k (map snd ps)"
    "\<forall>(x, c) \<in> set ps. octet x \<and> x \<noteq> []" and m: "m \<noteq> []" "list_all isdigit m" "atoi m \<le> 32"
    unfolding prefix_parts_def by blast
  then obtain x c qs where ps: "ps = (x, c) # qs" by (cases ps) auto
  let ?t = "concat (map (\<lambda>(x, c). x @ [c]) qs) @ m"
  have q: "prefix_parts n ?t" if "separators n (map snd qs)" for n
    unfolding prefix_parts_def using that p(3) m ps by (intro exI [of _ qs] exI [of _ m]) auto
  have "c = CHR ''.'' \<and> prefix_parts (Suc k) ?t \<or> c = CHR ''/'' \<and> prefix_parts k ?t"
    using p(2) assms q ps by auto
  with p ps show "\<exists>x c t. s = x @ c # t \<and> octet x \<and> x \<noteq> [] \<and>
    (c = CHR ''.'' \<and> prefix_parts (Suc k) t \<or> c = CHR ''/'' \<and> prefix_parts k t)"
    by (intro exI [of _ x] exI [of _ c] exI [of _ ?t]) auto
next
  assume "\<exists>x c t. s = x @ c # t \<and> octet x \<and> x \<noteq> [] \<and>
    (c = CHR ''.'' \<and> prefix_parts (Suc k) t \<or> c = CHR ''/'' \<and> prefix_parts k t)"
  then obtain x c t n where x: "s = x @ c # t" "octet x" "x \<noteq> []" "prefix_parts n t"
    and n: "c = CHR ''.'' \<and> n = Suc k \<or> c = CHR ''/'' \<and> n = k" by blast
  from x(4) obtain ps m where "t = concat (map (\<lambda>(x, c). x @ [c]) ps) @ m" "separators n (map snd ps)"
    "\<forall>(x, c) \<in> set ps. octet x \<and> x \<noteq> []" "m \<noteq> []" "list_all isdigit m" "atoi m \<le> 32"
    unfolding prefix_parts_def by blast
  with x n assms show "prefix_parts k s" unfolding prefix_parts_def
    by (intro exI [of _ "(x, c) # ps"] exI [of _ m]) auto
qed

lemma prefix_octet_nonexact: "prefix_octet s k = Return r \<Longrightarrow> r \<noteq> exact_match"
  by (induction s) (auto split: if_splits scan.splits)

text \<open>One number and its separator.\<close>

lemma prefix_loop_part:
  assumes "octet x" and "x \<noteq> []" and "k \<le> 3"
  shows "prefix_loop (x @ CHR ''/'' # t) k = (if k = 3 then if t = [] then partly_match else prefix_mask t else prefix_loop t k)"
    and "k < 3 \<Longrightarrow> t \<noteq> [] \<Longrightarrow> hd t \<noteq> CHR ''.'' \<Longrightarrow> hd t \<noteq> CHR ''/'' \<Longrightarrow> prefix_loop (x @ CHR ''.'' # t) k = prefix_loop t (Suc k)"
proof -
  have x: "list_all isdigit x" "length x \<le> 3" "\<not> atoi x > 255" using assms(1) octet_atoi [of x] by (auto simp: octet_def)
  have "prefix_octet (x @ CHR ''/'' # t) k = Break (x, CHR ''/'' # t, k)"
    using prefix_octet_digits [OF x(1), of "CHR ''/'' # t" k] by simp
  then show "prefix_loop (x @ CHR ''/'' # t) k = (if k = 3 then if t = [] then partly_match else prefix_mask t else prefix_loop t k)"
    using x assms(2) by (subst prefix_loop.simps) simp
  assume t: "k < 3" "t \<noteq> []" "hd t \<noteq> CHR ''.''" "hd t \<noteq> CHR ''/''"
  have "prefix_octet (x @ CHR ''.'' # t) k = Break (x, CHR ''.'' # t, Suc k)"
    using prefix_octet_digits [OF x(1), of "CHR ''.'' # t" k] t by simp
  then show "prefix_loop (x @ CHR ''.'' # t) k = prefix_loop t (Suc k)"
    using x assms(2) by (subst prefix_loop.simps) simp
qed

lemma prefix_parts_hd: "prefix_parts k s \<Longrightarrow> k \<le> 3 \<Longrightarrow> s \<noteq> [] \<and> isdigit (hd s)"
proof -
  assume "prefix_parts k s" "k \<le> 3"
  then have "\<exists>x c t. s = x @ c # t \<and> octet x \<and> x \<noteq> []"
    using prefix_parts_last [of s] prefix_parts_step [of k s] by (cases "k = 3") auto
  then show ?thesis by (auto simp: octet_def neq_Nil_conv)
qed

lemma prefix_loop_parts: "k \<le> 3 \<Longrightarrow> prefix_parts k s \<Longrightarrow> prefix_loop s k = exact_match"
proof (induction "length s" arbitrary: s k rule: less_induct)
  case less
  show ?case
  proof (cases "k = 3")
    case True
    then show ?thesis using less.prems(2) prefix_loop_part(1) [where k = 3] by (auto simp: prefix_parts_last prefix_mask_exact)
  next
    case False
    then have k: "k < 3" using less.prems by simp
    then obtain x c t where x: "s = x @ c # t" "octet x" "x \<noteq> []"
      and "c = CHR ''.'' \<and> prefix_parts (Suc k) t \<or> c = CHR ''/'' \<and> prefix_parts k t"
      using less.prems(2) prefix_parts_step by blast
    then consider "c = CHR ''.''" "prefix_parts (Suc k) t" | "c = CHR ''/''" "prefix_parts k t" by blast
    then show ?thesis
    proof cases
      case 1
      then have "t \<noteq> []" "isdigit (hd t)" using prefix_parts_hd k by auto
      with prefix_loop_part(2) [OF x(2,3) less.prems(1) k, of t] less.hyps [of t "Suc k"] 1 x k show ?thesis by auto
    next
      case 2
      with prefix_loop_part(1) [OF x(2,3) less.prems(1), of t] less.hyps [of t k] x k show ?thesis by auto
    qed
  qed
qed

lemma prefix_loop_exactD: "k \<le> 3 \<Longrightarrow> prefix_loop s k = exact_match \<Longrightarrow> prefix_parts k s"
proof (induction "length s" arbitrary: s k rule: less_induct)
  case less
  show ?case
  proof (cases "prefix_octet s k")
    case (Return r)
    then show ?thesis using prefix_octet_nonexact [OF Return] less.prems(2) by (subst (asm) prefix_loop.simps) simp
  next
    case (Break p)
    obtain x rest d where p: "p = (x, rest, d)" by (cases p)
    note b = prefix_octet_Break [OF Break [unfolded p]]
    have l: "prefix_loop s k = (if length x > 3 then no_match else if length x = 0 then no_match
        else if atoi x > 255 then no_match
        else if d = 3 \<and> rest \<noteq> [] \<and> hd rest = CHR ''/'' then if tl rest = [] then partly_match else prefix_mask (tl rest)
        else if rest = [] then partly_match else prefix_loop (tl rest) d)"
      by (subst prefix_loop.simps) (simp add: Break p)
    then have x: "octet x" "x \<noteq> []" and rest: "rest \<noteq> []"
      using less.prems(2) b octet_atoi [of x] by (auto split: if_splits)
    from rest b obtain c t where c: "rest = c # t" "s = x @ c # t" "d = k \<and> c = CHR ''/'' \<or> k \<noteq> 3 \<and> d = Suc k \<and> c = CHR ''.''"
      by (cases rest) auto
    show ?thesis
    proof (cases "k = 3")
      case True
      then have "t \<noteq> []" "prefix_mask t = exact_match" "c = CHR ''/''"
        using l less.prems(2) c x by (auto split: if_splits)
      then show ?thesis using True c x by (auto simp: prefix_parts_last prefix_mask_exact)
    next
      case False
      then have k: "k < 3" using less.prems(1) by simp
      have "prefix_loop t d = exact_match"
        using l less.prems(2) c k by (auto split: if_splits)
      moreover have "d \<le> 3" using c k by auto
      ultimately have "prefix_parts d t" using less.hyps [of t d] c(2) by simp
      then show ?thesis using prefix_parts_step [OF k] c x by blast
    qed
  qed
qed

lemma separators_iff:
  "k < 3 \<Longrightarrow> separators k cs \<longleftrightarrow> (\<exists>q. cs = q @ ''./'' \<and> set q \<subseteq> set ''./'' \<and> length (filter (\<lambda>c. c = CHR ''.'') q) = 2 - k)"
proof (induction cs arbitrary: k)
  case (Cons c cs)
  let ?n = "\<lambda>q. length (filter (\<lambda>c. c = CHR ''.'') q)"
  have ex: "(\<exists>q. c # cs = q @ ''./'' \<and> P q) \<longleftrightarrow> (c = CHR ''.'' \<and> cs = ''/'' \<and> P [] \<or> (\<exists>q. cs = q @ ''./'' \<and> P (c # q)))" for P
    by (auto simp: Cons_eq_append_conv)
  show ?case
  proof (cases "k = 2")
    case True
    have "separators 3 cs \<longleftrightarrow> cs = ''/''" by (cases cs) auto
    then show ?thesis using True Cons.IH [of 2] unfolding ex by (auto simp: eval_nat_numeral)
  next
    case False
    then have "k < 2" using Cons.prems by simp
    then have "2 - k = Suc (2 - Suc k)" by simp
    then show ?thesis using False Cons.prems Cons.IH [of k] Cons.IH [of "Suc k"] unfolding ex by auto
  qed
qed auto

text \<open>C28. Exactly which strings the prefix matcher accepts: numbers of at most three digits and at most
  255, with a dot or a slash behind each, then a number that is at most 32. There are three dots, and the
  slash that counts is behind the number after the third dot. Every slash in front of the third dot is
  taken for one more separator, so that \<open>1/2.3.4.5/24\<close> is accepted.\<close>

theorem cmd_ipv4_prefix_match_exact:
  "cmd_ipv4_prefix_match (Some s) = exact_match \<longleftrightarrow>
     (\<exists>ps q m. s = concat (map (\<lambda>(x, c). x @ [c]) ps) @ m \<and>
        (\<forall>(x, c) \<in> set ps. octet x \<and> x \<noteq> []) \<and> map snd ps = q @ ''./'' \<and>
        set q \<subseteq> set ''./'' \<and> length (filter (\<lambda>c. c = CHR ''.'') q) = 2 \<and>
        m \<noteq> [] \<and> list_all isdigit m \<and> atoi m \<le> 32)"
proof -
  have "cmd_ipv4_prefix_match (Some s) = exact_match \<longleftrightarrow> prefix_parts 0 s"
    using prefix_loop_parts [of 0 s] prefix_loop_exactD [of 0 s] by (auto simp: cmd_ipv4_prefix_match_def)
  then show ?thesis unfolding prefix_parts_def separators_iff [OF zero_less_numeral] diff_zero by blast
qed

theorem cmd_ipv4_prefix_match_exact_witness:
  "cmd_ipv4_prefix_match (Some ''1/2.3.4.5/24'') = exact_match"
  unfolding cmd_ipv4_prefix_match_exact
  by (intro exI [of _ "[(''1'', CHR ''/''), (''2'', CHR ''.''), (''3'', CHR ''.''), (''4'', CHR ''.''), (''5'', CHR ''/'')]"]
      exI [of _ "''/..''"] exI [of _ "''24''"])
    (simp add: octet_def isdigit_def digit_val_def chr_code_def atoi_def isspace_def to_int32_def)

lemma range_bound_number:
  assumes "n < 10 ^ 10" and "\<not> isdigit d"
  shows "range_bound (string_of_nat n @ d # rest) d = Some (n, rest)"
proof -
  let ?s = "string_of_nat n"
  have s: "list_all isdigit ?s" "?s \<noteq> []" using string_of_nat_digits by blast+
  then have "d \<notin> set ?s" using assms(2) by (auto simp: list_all_iff)
  then have "strchr (?s @ d # rest) d = Some (d # rest)" by (rule strchr_append)
  moreover have "length ?s \<le> 10" using assms(1) by (rule length_string_of_nat) simp
  moreover have "strtoul ?s = (n, [])" using strtoul_digits [OF s] assms(1) by (simp add: ULONG_MAX_def)
  ultimately show ?thesis by (simp add: range_bound_def DECIMAL_STRLEN_MAX_def)
qed

text \<open>C29. A number matches a range word exactly if it lies between the bounds, both included,
  whatever its size.\<close>

theorem cmd_range_match_iff:
  assumes "lo < 10 ^ 10" and "hi < 10 ^ 10"
  shows "cmd_range_match (CHR ''<'' # string_of_nat lo @ CHR ''-'' # string_of_nat hi @ ''>'')
      (Some (string_of_nat v)) \<longleftrightarrow> lo \<le> v \<and> v \<le> hi"
proof -
  have nd: "\<not> isdigit (CHR ''-'')" "\<not> isdigit (CHR ''>'')" by (simp_all add: isdigit_def)
  have s: "list_all isdigit (string_of_nat v)" "string_of_nat v \<noteq> []" using string_of_nat_digits by blast+
  have "strtoul (string_of_nat v) = (min v ULONG_MAX, [])"
    using strtoul_digits [OF s] strtoul_overflow [OF s(1)] by (auto simp: min_def)
  moreover have "hi < ULONG_MAX" "lo < ULONG_MAX" using assms by (simp_all add: ULONG_MAX_def)
  ultimately show ?thesis
    using range_bound_number [OF assms(1) nd(1)] range_bound_number [OF assms(2) nd(2), of "[]"]
    by (auto simp: cmd_range_match_def)
qed

theorem cmd_range_match_iff_witness:
  "\<not> cmd_range_match (CHR ''<'' # string_of_nat 1 @ CHR ''-'' # string_of_nat 65535 @ ''>'') (Some (string_of_nat 65536))"
  using cmd_range_match_iff [of 1 65535 65536] by simp

text \<open>C30. Both filters keep an element exactly if it has a word at the position and one of the
  alternatives there matches the word of the line; no slot moves.\<close>

theorem cmd_filter_keeps:
  "snd (cmd_filter_by_completion command v index) =
     map (\<lambda>s. case s of None \<Rightarrow> None | Some e \<Rightarrow>
       if index < length (strvec e) \<and> list_ex (\<lambda>d. completion_kind command (cmd d) \<noteq> no_match) (strvec e ! index)
       then Some e else None) v \<and>
   snd (cmd_filter_by_string command v index) =
     map (\<lambda>s. case s of None \<Rightarrow> None | Some e \<Rightarrow>
       if index < length (strvec e) \<and> list_ex (\<lambda>d. string_kind command (cmd d) \<noteq> no_match) (strvec e ! index)
       then Some e else None) v"
  unfolding cmd_filter_by_completion_def cmd_filter_by_string_def
    completion.filter_slots by_string.filter_slots completion.keeps_def by_string.keeps_def
  by (simp add: Bex_set_list_ex)

end
