(* ===== verification/Cmd_Engine.thy ===== *)
theory Cmd_Engine
  imports Cmd_Match Vector
begin

text \<open>
  The command interpreter of \<open>src/wgshell/vtysh/command.c\<close>: the command table
  (\<open>cmdvec\<close>), installing and sorting commands, and looking a line up in it: execution, the help
  of the \<open>?\<close> key and completion.

  The table is the vector of nodes, each with its vector of commands; both are lists of slots and
  are changed by the abstract vector operations that theory \<open>Vector\<close> shows the code to refine.
  A command's function pointer is a value of a type \<open>'f\<close> of handler names; what calling it does
  is the parameter \<open>invoke\<close> of the execution functions.
\<close>

section \<open>Nodes and return codes\<close>

datatype node_type =
    AUTH_NODE | VIEW_NODE | AUTH_ENABLE_NODE | ENABLE_NODE | CONFIG_NODE | NAC_NODE | USER_NODE | VTY_NODE

fun node_index :: "node_type \<Rightarrow> nat" where
  "node_index AUTH_NODE = 0"
| "node_index VIEW_NODE = 1"
| "node_index AUTH_ENABLE_NODE = 2"
| "node_index ENABLE_NODE = 3"
| "node_index CONFIG_NODE = 4"
| "node_index NAC_NODE = 5"
| "node_index USER_NODE = 6"
| "node_index VTY_NODE = 7"

lemma node_index_inj [simp]: "node_index a = node_index b \<longleftrightarrow> a = b"
  by (cases a; cases b) auto

record 'f cmd_node =
  cnode :: node_type
  prompt :: string
  vtysh :: int
  cmd_vector :: "'f cmd_slots"

type_synonym 'f cmdvec = "'f cmd_node option list"

definition view_node :: "'f cmd_node" where
  "view_node = \<lparr>cnode = VIEW_NODE, prompt = ''%s> '', vtysh = 0, cmd_vector = []\<rparr>"

definition enable_node :: "'f cmd_node" where
  "enable_node = \<lparr>cnode = ENABLE_NODE, prompt = ''%s# '', vtysh = 0, cmd_vector = []\<rparr>"

definition config_node :: "'f cmd_node" where
  "config_node = \<lparr>cnode = CONFIG_NODE, prompt = ''%s(config)# '', vtysh = 1, cmd_vector = []\<rparr>"

definition auth_enable_node :: "'f cmd_node" where
  "auth_enable_node = \<lparr>cnode = AUTH_ENABLE_NODE, prompt = ''Password: '', vtysh = 0, cmd_vector = []\<rparr>"

definition CMD_SUCCESS :: int where "CMD_SUCCESS = 0"
definition CMD_WARNING :: int where "CMD_WARNING = 1"
definition CMD_ERR_NO_MATCH :: int where "CMD_ERR_NO_MATCH = 2"
definition CMD_ERR_AMBIGUOUS :: int where "CMD_ERR_AMBIGUOUS = 3"
definition CMD_ERR_INCOMPLETE :: int where "CMD_ERR_INCOMPLETE = 4"
definition CMD_ERR_EXEED_ARGC_MAX :: int where "CMD_ERR_EXEED_ARGC_MAX = 5"
definition CMD_ERR_NOTHING_TODO :: int where "CMD_ERR_NOTHING_TODO = 6"
definition CMD_COMPLETE_FULL_MATCH :: int where "CMD_COMPLETE_FULL_MATCH = 7"
definition CMD_COMPLETE_MATCH :: int where "CMD_COMPLETE_MATCH = 8"
definition CMD_COMPLETE_LIST_MATCH :: int where "CMD_COMPLETE_LIST_MATCH = 9"
definition CMD_SUCCESS_DAEMON :: int where "CMD_SUCCESS_DAEMON = 10"
definition CMD_ARGC_MAX :: nat where "CMD_ARGC_MAX = 25"

lemmas cmd_codes = CMD_SUCCESS_def CMD_WARNING_def CMD_ERR_NO_MATCH_def CMD_ERR_AMBIGUOUS_def
  CMD_ERR_INCOMPLETE_def CMD_ERR_EXEED_ARGC_MAX_def CMD_ERR_NOTHING_TODO_def
  CMD_COMPLETE_FULL_MATCH_def CMD_COMPLETE_MATCH_def CMD_COMPLETE_LIST_MATCH_def CMD_SUCCESS_DAEMON_def

section \<open>The table\<close>

definition cmd_install_node :: "'f cmdvec \<Rightarrow> 'f cmd_node \<Rightarrow> 'f cmdvec" where
  "cmd_install_node cmdvec node =
     slots_set_index cmdvec (node_index (cnode node)) (Some (node\<lparr>cmd_vector := []\<rparr>))"

text \<open>A node that \<open>vector_slot\<close> finds; NULL would be dereferenced.\<close>

definition node_slot :: "'f cmdvec \<Rightarrow> node_type \<Rightarrow> 'f cmd_node outcome" where
  "node_slot cmdvec ntype =
     (case slots_lookup cmdvec (node_index ntype) of None \<Rightarrow> Undef | Some n \<Rightarrow> Ret n)"

definition cmd_prompt :: "'f cmdvec \<Rightarrow> node_type \<Rightarrow> string outcome" where
  "cmd_prompt cmdvec node = omap prompt (node_slot cmdvec node)"

definition cmd_node_vector :: "'f cmdvec \<Rightarrow> node_type \<Rightarrow> 'f cmd_slots outcome" where
  "cmd_node_vector v ntype = omap cmd_vector (node_slot v ntype)"

definition cmd_install_element :: "'f cmdvec \<Rightarrow> node_type \<Rightarrow> 'f cmd_element \<Rightarrow> 'f cmdvec outcome" where
  "cmd_install_element cmdvec ntype e =
     (case slots_lookup cmdvec (node_index ntype) of
        None \<Rightarrow> Exit 1
      | Some n \<Rightarrow>
          obind (cmd_make_descvec (estring e) (Some (doc e))) (\<lambda>sv.
            Ret (cmdvec[node_index ntype := Some (n\<lparr>cmd_vector :=
              slots_set (cmd_vector n) (Some (e\<lparr>strvec := sv, cmdsize := cmd_cmdsize sv\<rparr>))\<rparr>)])))"

text \<open>
  Sorting a node: its commands by their strings, then in every command the alternatives of its last
  word. \<open>qsort\<close> leaves the order of equal keys open; the stable sort here is one of its results,
  and the only one when the keys differ. The comparison functions dereference every slot.
\<close>

definition cmp_node :: "'f cmd_element \<Rightarrow> 'f cmd_element \<Rightarrow> int" where
  "cmp_node a b = strcmp (estring a) (estring b)"

definition cmp_desc :: "desc \<Rightarrow> desc \<Rightarrow> int" where
  "cmp_desc a b = strcmp (cmd a) (cmd b)"

fun qsort_insert :: "('a \<Rightarrow> 'a \<Rightarrow> int) \<Rightarrow> 'a \<Rightarrow> 'a list \<Rightarrow> 'a list" where
  "qsort_insert cmp x [] = [x]"
| "qsort_insert cmp x (y # ys) = (if cmp x y \<le> 0 then x # y # ys else y # qsort_insert cmp x ys)"

definition qsort :: "('a \<Rightarrow> 'a \<Rightarrow> int) \<Rightarrow> 'a list \<Rightarrow> 'a list" where
  "qsort cmp xs = foldr (qsort_insert cmp) xs []"

definition sort_last_desc :: "'f cmd_element \<Rightarrow> 'f cmd_element" where
  "sort_last_desc e = e\<lparr>strvec := butlast (strvec e) @ [qsort cmp_desc (last (strvec e))]\<rparr>"

definition sort_cnode :: "'f cmd_node \<Rightarrow> 'f cmd_node outcome" where
  "sort_cnode n =
     (if None \<in> set (cmd_vector n) \<or> (\<exists>e \<in> set (cmd_vector n). strvec (the e) = []) then Undef
      else Ret (n\<lparr>cmd_vector := map (Some \<circ> sort_last_desc) (qsort cmp_node (map the (cmd_vector n)))\<rparr>))"

fun cmd_sort_node :: "'f cmdvec \<Rightarrow> 'f cmdvec outcome" where
  "cmd_sort_node [] = Ret []"
| "cmd_sort_node (None # v) = omap (Cons None) (cmd_sort_node v)"
| "cmd_sort_node (Some n # v) = obind (sort_cnode n) (\<lambda>n. omap (Cons (Some n)) (cmd_sort_node v))"

section \<open>Execution\<close>

text \<open>
  The loop over the words of the line: filter, check for ambiguity. It ends early at a vararg; the
  result is the last match type and the number of words passed, or the error code to return.
\<close>

type_synonym 'f word_filter = "string \<Rightarrow> 'f cmd_slots \<Rightarrow> nat \<Rightarrow> match_type \<times> 'f cmd_slots"

fun match_words :: "'f word_filter \<Rightarrow> string list \<Rightarrow> nat \<Rightarrow> match_type \<Rightarrow> 'f cmd_slots
    \<Rightarrow> (int + (match_type \<times> nat \<times> 'f cmd_slots)) outcome" where
  "match_words filt [] index match v = Ret (Inr (match, index, v))"
| "match_words filt (command # vline) index match v =
     (let (match, v) = filt command v index in
      if match = vararg_match then Ret (Inr (match, index, v))
      else obind (is_cmd_ambiguous command v index match) (\<lambda>(ret, v).
        if ret = 1 then Ret (Inl CMD_ERR_AMBIGUOUS)
        else if ret = 2 then Ret (Inl CMD_ERR_NO_MATCH)
        else match_words filt vline (Suc index) match v))"

text \<open>The loop that counts: the last matched element, the matched and the incomplete ones.\<close>

fun count_matched :: "match_type \<Rightarrow> nat \<Rightarrow> 'f cmd_slots \<Rightarrow> 'f cmd_element option \<Rightarrow> nat \<Rightarrow> nat
    \<Rightarrow> 'f cmd_element option \<times> nat \<times> nat" where
  "count_matched match index [] me mc ic = (me, mc, ic)"
| "count_matched match index (None # v) me mc ic = count_matched match index v me mc ic"
| "count_matched match index (Some e # v) me mc ic =
     (if match = vararg_match \<or> index \<ge> cmdsize e then count_matched match index v (Some e) (Suc mc) ic
      else count_matched match index v me mc (Suc ic))"

text \<open>
  The arguments: words that stand for a variable, an option, a choice or the rest of the line.
  The strvec is read at the position of the word, which is undefined past its end. \<open>sv\<close> is the
  strvec from the position on; one step gives the new \<open>varflag\<close> and whether the word is taken.
\<close>

definition arg_step :: "bool \<Rightarrow> desc list list \<Rightarrow> (bool \<times> bool) outcome" where
  "arg_step varflag sv =
     (if varflag then Ret (True, True)
      else case sv of
        [] \<Rightarrow> Undef
      | descvec # _ \<Rightarrow>
          if length descvec = 1 then
            let s = cmd (hd descvec) in
            Ret (CMD_VARARG s, CMD_VARARG s \<or> CMD_VARIABLE s \<or> CMD_OPTION s)
          else Ret (False, True))"

fun collect_args :: "desc list list \<Rightarrow> string list \<Rightarrow> bool \<Rightarrow> string list \<Rightarrow> (int + string list) outcome" where
  "collect_args sv [] varflag argv = Ret (Inr argv)"
| "collect_args sv (w # vline) varflag argv =
     obind (arg_step varflag sv) (\<lambda>(varflag, is_arg).
       let argv = (if is_arg then argv @ [w] else argv) in
       if length argv \<ge> CMD_ARGC_MAX then Ret (Inl CMD_ERR_EXEED_ARGC_MAX)
       else collect_args (tl sv) vline varflag argv)"

definition find_command :: "'f word_filter \<Rightarrow> 'f cmdvec \<Rightarrow> string list \<Rightarrow> node_type
    \<Rightarrow> (int + ('f cmd_element \<times> string list)) outcome" where
  "find_command filt cmdvec vline node =
     obind (cmd_node_vector cmdvec node) (\<lambda>v.
     obind (match_words filt vline 0 no_match v) (\<lambda>r.
       case r of
         Inl err \<Rightarrow> Ret (Inl err)
       | Inr (match, index, v) \<Rightarrow>
           let (me, mc, ic) = count_matched match index v None 0 0 in
           if mc = 0 then Ret (Inl (if ic \<noteq> 0 then CMD_ERR_INCOMPLETE else CMD_ERR_NO_MATCH))
           else if mc > 1 then Ret (Inl CMD_ERR_AMBIGUOUS)
           else (case me of
              None \<Rightarrow> Ret (Inl CMD_ERR_NO_MATCH)
            | Some e \<Rightarrow>
                omap (map_sum id (\<lambda>argv. (e, argv))) (collect_args (strvec e) vline False []))))"

text \<open>
  \<open>cmd_execute_command\<close> and \<open>cmd_execute_command_strict\<close>: the return code, the element
  stored through \<open>cmd\<close>, and the state the handler leaves.
\<close>

type_synonym ('f, 's) invoke = "'f \<Rightarrow> string list \<Rightarrow> 's \<Rightarrow> (int \<times> 's) outcome"

definition execute_with :: "'f word_filter \<Rightarrow> ('f, 's) invoke \<Rightarrow> 'f cmdvec \<Rightarrow> string list \<Rightarrow> node_type \<Rightarrow> 's
    \<Rightarrow> (int \<times> 'f cmd_element option \<times> 's) outcome" where
  "execute_with filt invoke cmdvec vline node s =
     obind (find_command filt cmdvec vline node) (\<lambda>r.
       case r of
         Inl err \<Rightarrow> Ret (err, None, s)
       | Inr (e, argv) \<Rightarrow>
           if daemon e \<noteq> 0 then Ret (CMD_SUCCESS_DAEMON, Some e, s)
           else omap (\<lambda>(ret, s). (ret, Some e, s)) (invoke (func e) argv s))"

definition cmd_execute_command :: "('f, 's) invoke \<Rightarrow> 'f cmdvec \<Rightarrow> string list \<Rightarrow> node_type \<Rightarrow> 's
    \<Rightarrow> (int \<times> 'f cmd_element option \<times> 's) outcome" where
  "cmd_execute_command = execute_with cmd_filter_by_completion"

definition cmd_execute_command_strict :: "('f, 's) invoke \<Rightarrow> 'f cmdvec \<Rightarrow> string list \<Rightarrow> node_type \<Rightarrow> 's
    \<Rightarrow> (int \<times> 'f cmd_element option \<times> 's) outcome" where
  "cmd_execute_command_strict = execute_with cmd_filter_by_string"

section \<open>Help for the \<open>?\<close> key\<close>

definition cmd_entry_function :: "string option \<Rightarrow> string \<Rightarrow> string option" where
  "cmd_entry_function src dst =
     (if CMD_OPTION dst \<or> CMD_VARIABLE dst \<or> CMD_VARARG dst \<or> CMD_IPV4 dst \<or> CMD_IPV4_PREFIX dst \<or> CMD_RANGE dst
      then None
      else (case src of
              None \<Rightarrow> Some dst
            | Some s \<Rightarrow> if strncmp s dst (length s) = 0 then Some dst else None))"

definition cmd_entry_function_desc :: "string option \<Rightarrow> string \<Rightarrow> string option" where
  "cmd_entry_function_desc src dst =
     (if CMD_VARARG dst then Some dst
      else if CMD_RANGE dst then if cmd_range_match dst src then Some dst else None
      else if CMD_IPV6 dst then if cmd_ipv6_match src \<noteq> no_match then Some dst else None
      else if CMD_IPV4 dst then if cmd_ipv4_match src \<noteq> no_match then Some dst else None
      else if CMD_IPV4_PREFIX dst then if cmd_ipv4_prefix_match src \<noteq> no_match then Some dst else None
      else if CMD_OPTION dst \<or> CMD_VARIABLE dst then Some dst
      else (case src of
              None \<Rightarrow> Some dst
            | Some s \<Rightarrow> if strncmp s dst (length s) = 0 then Some dst else None))"

text \<open>Vectors of results, which hold no NULL in between: lists. 1 in C is \<open>True\<close> here.\<close>

definition cmd_unique_string :: "string list \<Rightarrow> string \<Rightarrow> bool" where
  "cmd_unique_string v s = list_all (\<lambda>m. strcmp m s \<noteq> 0) v"

definition desc_unique_string :: "desc list \<Rightarrow> string \<Rightarrow> bool" where
  "desc_unique_string v s = list_ex (\<lambda>d. strcmp (cmd d) s = 0) v"

definition desc_cr :: desc where
  "desc_cr = \<lparr>cmd = ''<cr>'', str = Some []\<rparr>"

text \<open>
  The words in front of the one the cursor is on. \<open>Inl\<close> is an early return: the status it
  sets, if it sets one, and the vector it returns, if it returns one.
\<close>

fun describe_words :: "string list \<Rightarrow> nat \<Rightarrow> 'f cmd_slots
    \<Rightarrow> ((int option \<times> desc list option) + 'f cmd_slots) outcome" where
  "describe_words [] index v = Ret (Inr v)"
| "describe_words (command # ws) index v =
     (let (match, v) = cmd_filter_by_completion command v index in
      if match = vararg_match then
        if (\<exists>e \<in> set v. e \<noteq> None \<and> strvec (the e) = []) then Undef
        else Ret (Inl (None, Some (concat (map (\<lambda>e. case e of None \<Rightarrow> [] | Some e \<Rightarrow> last (strvec e)) v)
                                   @ [desc_cr])))
      else obind (is_cmd_ambiguous command v index match) (\<lambda>(ret, v).
        if ret = 1 then Ret (Inl (Some CMD_ERR_AMBIGUOUS, None))
        else if ret = 2 then Ret (Inl (Some CMD_ERR_NO_MATCH, None))
        else describe_words ws (Suc index) v))"

definition add_desc :: "string option \<Rightarrow> desc \<Rightarrow> desc list \<Rightarrow> desc list" where
  "add_desc command d matchvec =
     (case cmd_entry_function_desc command (cmd d) of
        None \<Rightarrow> matchvec
      | Some s \<Rightarrow> if \<not> desc_unique_string matchvec s then matchvec @ [d] else matchvec)"

fun describe_elements :: "string option \<Rightarrow> nat \<Rightarrow> 'f cmd_slots \<Rightarrow> desc list \<Rightarrow> desc list outcome" where
  "describe_elements command index [] matchvec = Ret matchvec"
| "describe_elements command index (None # v) matchvec = describe_elements command index v matchvec"
| "describe_elements command index (Some e # v) matchvec =
     (let sv = strvec e in
      if command \<noteq> None \<and> index \<ge> length sv then describe_elements command index v matchvec
      else if command = None \<and> index = length sv then
        describe_elements command index v
          (if \<not> desc_unique_string matchvec ''<cr>'' then matchvec @ [desc_cr] else matchvec)
      else if index \<ge> length sv then Undef
      else describe_elements command index v (fold (add_desc command) (sv ! index) matchvec))"

text \<open>\<open>pre\<close> are the words in front of the cursor, \<open>command\<close> the one it is on (NULL: none yet).\<close>

definition cmd_describe_command :: "'f cmdvec \<Rightarrow> string list \<Rightarrow> string option \<Rightarrow> node_type
    \<Rightarrow> (int option \<times> desc list option) outcome" where
  "cmd_describe_command cmdvec pre command node =
     obind (cmd_node_vector cmdvec node) (\<lambda>v.
     obind (describe_words pre 0 v) (\<lambda>r.
       case r of
         Inl early \<Rightarrow> Ret early
       | Inr v \<Rightarrow>
           let index = length pre;
               v = (case command of None \<Rightarrow> v | Some c \<Rightarrow> snd (cmd_filter_by_completion c v index))
           in omap (\<lambda>matchvec. if matchvec = [] then (Some CMD_ERR_NO_MATCH, None)
                               else (Some CMD_SUCCESS, Some matchvec))
                (describe_elements command index v [])))"

section \<open>Completion\<close>

fun common_prefix :: "string \<Rightarrow> string \<Rightarrow> nat" where
  "common_prefix (a # as) (b # bs) = (if a = b then Suc (common_prefix as bs) else 0)"
| "common_prefix as bs = 0"

fun lcd_loop :: "string \<Rightarrow> string list \<Rightarrow> nat option \<Rightarrow> nat option" where
  "lcd_loop s1 [] lcd = lcd"
| "lcd_loop s1 (s2 # ss) lcd =
     (let j = common_prefix s1 s2 in
      lcd_loop s2 ss (case lcd of None \<Rightarrow> Some j | Some l \<Rightarrow> if l > j then Some j else Some l))"

definition cmd_lcd :: "string list \<Rightarrow> nat" where
  "cmd_lcd matched =
     (case matched of
        s1 # s2 # ss \<Rightarrow> the (lcd_loop s1 (s2 # ss) None)
      | _ \<Rightarrow> 0)"

text \<open>A 2 of the ambiguity check is ignored here, and so is a vararg.\<close>

fun complete_words :: "string list \<Rightarrow> nat \<Rightarrow> 'f cmd_slots \<Rightarrow> (int + 'f cmd_slots) outcome" where
  "complete_words [] index v = Ret (Inr v)"
| "complete_words (command # ws) index v =
     (let (match, v) = cmd_filter_by_completion command v index in
      obind (is_cmd_ambiguous command v index match) (\<lambda>(ret, v).
        if ret = 1 then Ret (Inl CMD_ERR_AMBIGUOUS) else complete_words ws (Suc index) v))"

definition add_match :: "string option \<Rightarrow> desc \<Rightarrow> string list \<Rightarrow> string list" where
  "add_match command d matchvec =
     (case cmd_entry_function command (cmd d) of
        None \<Rightarrow> matchvec
      | Some s \<Rightarrow> if cmd_unique_string matchvec s then matchvec @ [s] else matchvec)"

fun complete_elements :: "string option \<Rightarrow> nat \<Rightarrow> 'f cmd_slots \<Rightarrow> string list \<Rightarrow> string list" where
  "complete_elements command index [] matchvec = matchvec"
| "complete_elements command index (None # v) matchvec = complete_elements command index v matchvec"
| "complete_elements command index (Some e # v) matchvec =
     (if index \<ge> length (strvec e) then complete_elements command index v matchvec
      else complete_elements command index v (fold (add_match command) (strvec e ! index) matchvec))"

text \<open>The status and the NULL-terminated array of strings, as a list.\<close>

definition cmd_complete_command :: "'f cmdvec \<Rightarrow> string list \<Rightarrow> string option \<Rightarrow> node_type
    \<Rightarrow> (int \<times> string list option) outcome" where
  "cmd_complete_command cmdvec pre command node =
     obind (cmd_node_vector cmdvec node) (\<lambda>v.
     obind (complete_words pre 0 v) (\<lambda>r.
       case r of
         Inl err \<Rightarrow> Ret (err, None)
       | Inr v \<Rightarrow>
           (let matchvec = complete_elements command (length pre) v [] in
            case matchvec of
              [] \<Rightarrow> Ret (if command = None then CMD_ERR_NOTHING_TODO else CMD_ERR_NO_MATCH, None)
            | [m] \<Rightarrow> Ret (CMD_COMPLETE_FULL_MATCH, Some [m])
            | m # _ \<Rightarrow>
                let lcd = cmd_lcd matchvec in
                if command \<noteq> None \<and> lcd \<noteq> 0 \<and> length (the command) < lcd
                then Ret (CMD_COMPLETE_MATCH, Some [take lcd m])
                else Ret (CMD_COMPLETE_LIST_MATCH, Some matchvec))))"

section \<open>Initialisation\<close>

text \<open>\<open>cmd_init\<close>: the four nodes (the host structure it clears is part of the shell state).\<close>

definition cmd_init :: "'f cmdvec" where
  "cmd_init =
     cmd_install_node (cmd_install_node (cmd_install_node (cmd_install_node []
       view_node) enable_node) auth_enable_node) config_node"

section \<open>The interface of the interpreter to a filter\<close>

text \<open>What the lookup relies on: the filter keeps the elements with a match of some kind at the
  position, and the match type it returns is the kind of one of them.\<close>

definition matches_at :: "(string \<Rightarrow> string \<Rightarrow> match_type) \<Rightarrow> string \<Rightarrow> nat \<Rightarrow> 'f cmd_element \<Rightarrow> bool" where
  "matches_at kind w i e \<longleftrightarrow> i < length (strvec e) \<and> (\<exists>d \<in> set (strvec e ! i). kind w (cmd d) \<noteq> no_match)"

locale word_filter =
  fixes filt :: "'f word_filter" and kind :: "string \<Rightarrow> string \<Rightarrow> match_type"
  assumes filt_slots: "snd (filt w v i) =
      map (\<lambda>s. case s of None \<Rightarrow> None | Some e \<Rightarrow> if matches_at kind w i e then Some e else None) v"
    and filt_type: "fst (filt w v i) = k \<Longrightarrow> k \<noteq> no_match \<Longrightarrow>
      \<exists>e d. Some e \<in> set (snd (filt w v i)) \<and> i < length (strvec e) \<and> d \<in> set (strvec e ! i) \<and> kind w (cmd d) = k"
    and filt_exact: "Some e \<in> set v \<Longrightarrow> i < length (strvec e) \<Longrightarrow> d \<in> set (strvec e ! i) \<Longrightarrow>
      kind w (cmd d) = exact_match \<Longrightarrow> fst (filt w v i) = exact_match"
    and kind_vararg: "kind w s = vararg_match \<Longrightarrow> CMD_VARARG s"
begin

lemma filt_mem: "Some e \<in> set (snd (filt w v i)) \<longleftrightarrow> Some e \<in> set v \<and> matches_at kind w i e"
  unfolding filt_slots by (force split: option.splits if_splits)

lemma ambiguous_filt:
  obtains ret v' where "is_cmd_ambiguous w (snd (filt w v i)) i k = Ret (ret, v')" "sub_slots v' (snd (filt w v i))"
proof -
  have "\<exists>r. is_cmd_ambiguous w (snd (filt w v i)) i k = Ret r"
    unfolding is_cmd_ambiguous_def
    by (rule ambiguous_slots_defined) (simp add: filt_mem matches_at_def)
  then obtain ret v' where r: "is_cmd_ambiguous w (snd (filt w v i)) i k = Ret (ret, v')" by auto
  with that ambiguous_slots_sub [OF r [unfolded is_cmd_ambiguous_def]] show ?thesis by blast
qed

text \<open>Every element left matches every word that was looked at.\<close>

lemma match_words_sound:
  "match_words filt ws i m v = Ret (Inr (m', i', v')) \<Longrightarrow>
     i \<le> i' \<and> i' \<le> i + length ws \<and> sub_slots v' v \<and>
     (\<forall>e j. Some e \<in> set v' \<longrightarrow> j < i' - i \<longrightarrow> matches_at kind (ws ! j) (i + j) e) \<and>
     (i' = i + length ws \<and> (m \<noteq> vararg_match \<longrightarrow> m' \<noteq> vararg_match) \<or>
      i' < i + length ws \<and> m' = vararg_match \<and> (\<exists>v0. (m', v') = filt (ws ! (i' - i)) v0 i'))"
proof (induction ws arbitrary: i m v)
  case (Cons w ws)
  let ?f = "filt w v i"
  show ?case
  proof (cases "fst ?f = vararg_match")
    case True
    then have "m' = vararg_match" "i' = i" "v' = snd ?f"
      using Cons.prems by (auto simp: case_prod_beta Let_def)
    moreover have "sub_slots (snd ?f) v" unfolding filt_slots by (rule sub_slots_filter)
    ultimately show ?thesis using True by (auto intro!: exI [of _ v] simp: prod_eq_iff)
  next
    case False
    obtain ret u where u: "is_cmd_ambiguous w (snd ?f) i (fst ?f) = Ret (ret, u)" "sub_slots u (snd ?f)"
      using ambiguous_filt .
    with False Cons.prems have rec: "match_words filt ws (Suc i) (fst ?f) u = Ret (Inr (m', i', v'))"
      by (auto simp: case_prod_beta Let_def split: if_splits)
    note IH = Cons.IH [OF rec]
    have "matches_at kind ((w # ws) ! j) (i + j) e" if "Some e \<in> set v'" "j < i' - i" for e j
    proof (cases j)
      case 0
      have "Some e \<in> set (snd ?f)" using IH that(1) u(2) sub_slots_memD by blast
      then show ?thesis using 0 by (simp add: filt_mem)
    next
      case (Suc k)
      then show ?thesis using IH that by auto
    qed
    moreover have "sub_slots (snd ?f) v" unfolding filt_slots by (rule sub_slots_filter)
    with IH u(2) have "sub_slots v' v" by (blast intro: sub_slots_trans)
    moreover have "i' - i = Suc (i' - Suc i)" if "\<not> i' = i + length (w # ws)" using IH that by auto
    ultimately show ?thesis using IH False by auto
  qed
qed simp

lemma match_words_no_undef: "match_words filt ws i m v \<noteq> Undef \<and> match_words filt ws i m v \<noteq> Exit n"
proof (induction ws arbitrary: i m v)
  case (Cons w ws)
  obtain ret u where "is_cmd_ambiguous w (snd (filt w v i)) i (fst (filt w v i)) = Ret (ret, u)"
    using ambiguous_filt .
  with Cons show ?case by (auto simp: case_prod_beta Let_def)
qed simp

end

section \<open>Counting and arguments\<close>

definition somes :: "'a option list \<Rightarrow> 'a list" where
  "somes v = map the (filter (\<lambda>s. s \<noteq> None) v)"

lemma somes_simps [simp]: "somes [] = []" "somes (None # v) = somes v" "somes (Some e # v) = e # somes v"
  by (simp_all add: somes_def)

lemma set_somes: "e \<in> set (somes v) \<longleftrightarrow> Some e \<in> set v"
  by (force simp: somes_def)

definition complete_at :: "match_type \<Rightarrow> nat \<Rightarrow> 'f cmd_element \<Rightarrow> bool" where
  "complete_at match index e \<longleftrightarrow> match = vararg_match \<or> index \<ge> cmdsize e"

lemma count_matched_eq:
  "count_matched match index v me mc ic =
     (let es = filter (complete_at match index) (somes v) in
      (if es = [] then me else Some (last es), mc + length es,
       ic + length (filter (\<lambda>e. \<not> complete_at match index e) (somes v))))"
proof (induction v arbitrary: me mc ic)
  case (Cons s v)
  then show ?case by (cases s) (auto simp: Let_def complete_at_def)
qed simp

lemma collect_args_bound:
  "collect_args sv ws vf argv = Ret (Inr a) \<Longrightarrow> length argv < CMD_ARGC_MAX \<Longrightarrow> length a < CMD_ARGC_MAX"
proof (induction ws arbitrary: sv vf argv)
  case (Cons w ws)
  obtain vf' b where "arg_step vf sv = Ret (vf', b)" using Cons.prems(1) by (cases "arg_step vf sv") auto
  then show ?case using Cons.prems by (cases b) (auto simp: Let_def split: if_splits dest!: Cons.IH)
qed simp

lemma collect_args_subseq:
  "collect_args sv ws vf argv = Ret (Inr a) \<Longrightarrow> \<exists>b. a = argv @ b \<and> subseq b ws"
proof (induction ws arbitrary: sv vf argv)
  case (Cons w ws)
  obtain vf' b where s: "arg_step vf sv = Ret (vf', b)" using Cons.prems(1) by (cases "arg_step vf sv") auto
  then have "collect_args (tl sv) ws vf' (if b then argv @ [w] else argv) = Ret (Inr a)"
    using Cons.prems by (auto simp: Let_def split: if_splits)
  from Cons.IH [OF this] obtain c where "a = (if b then argv @ [w] else argv) @ c" "subseq c ws" by blast
  then show ?case by (cases b) (auto intro!: exI [of _ "if b then w # c else c"])
qed simp

lemma arg_step_total: "vf \<or> sv \<noteq> [] \<Longrightarrow> \<exists>r. arg_step vf sv = Ret r"
  by (cases sv) (auto simp: arg_step_def Let_def)

lemma collect_args_defined:
  assumes "vf \<or> length ws \<le> length sv \<or> (\<exists>i < length sv. \<exists>d. sv ! i = [d] \<and> CMD_VARARG (cmd d))"
  shows "\<exists>r. collect_args sv ws vf argv = Ret r"
  using assms
proof (induction ws arbitrary: sv vf argv)
  case (Cons w ws)
  then have "vf \<or> sv \<noteq> []" by auto
  then obtain vf' b where s: "arg_step vf sv = Ret (vf', b)" using arg_step_total by fastforce
  have "vf' \<or> length ws \<le> length (tl sv) \<or> (\<exists>i < length (tl sv). \<exists>d. tl sv ! i = [d] \<and> CMD_VARARG (cmd d))"
  proof (cases "vf \<or> length (w # ws) \<le> length sv")
    case True
    with s show ?thesis by (auto simp: arg_step_def)
  next
    case False
    then obtain i d where i: "i < length sv" "sv ! i = [d]" "CMD_VARARG (cmd d)" using Cons.prems by blast
    with s False show ?thesis by (cases sv; cases i) (auto simp: arg_step_def)
  qed
  with Cons.IH s show ?case by (auto simp: Let_def)
qed simp

text \<open>A specification in which the rest-of-line word has no alternatives.\<close>

definition vararg_alone :: "'f cmd_element \<Rightarrow> bool" where
  "vararg_alone e \<longleftrightarrow> list_all (\<lambda>ds. list_ex (\<lambda>d. CMD_VARARG (cmd d)) ds \<longrightarrow> length ds = 1) (strvec e)"

text \<open>The words are matched up to position \<open>n\<close>: the end of the line, or a rest-of-line word.\<close>

definition line_matches :: "(string \<Rightarrow> string \<Rightarrow> match_type) \<Rightarrow> string list \<Rightarrow> 'f cmd_element \<Rightarrow> bool" where
  "line_matches kind vline e \<longleftrightarrow>
     (\<exists>n \<le> length vline. (\<forall>j < n. matches_at kind (vline ! j) j e) \<and>
       (n = length vline \<and> cmdsize e \<le> n \<or>
        n < length (strvec e) \<and> list_ex (\<lambda>d. CMD_VARARG (cmd d)) (strvec e ! n)))"

context word_filter
begin

text \<open>A successful lookup, taken apart.\<close>

lemma find_commandE:
  assumes "find_command filt cmdvec vline node = Ret (Inr (e, argv))" and "cmd_node_vector cmdvec node = Ret v"
  obtains m i v' where "match_words filt vline 0 no_match v = Ret (Inr (m, i, v'))"
    "filter (complete_at m i) (somes v') = [e]"
    "collect_args (strvec e) vline False [] = Ret (Inr argv)"
proof -
  from assms obtain r where r: "match_words filt vline 0 no_match v = Ret r"
    by (auto simp: find_command_def outcome_simps)
  then obtain m i v' where r': "r = Inr (m, i, v')"
    using assms by (auto simp: find_command_def split: sum.splits)
  let ?es = "filter (complete_at m i) (somes v')"
  have e: "find_command filt cmdvec vline node =
      (if ?es = [] then Ret (Inl (if filter (\<lambda>e. \<not> complete_at m i e) (somes v') \<noteq> [] then CMD_ERR_INCOMPLETE else CMD_ERR_NO_MATCH))
       else if length ?es > 1 then Ret (Inl CMD_ERR_AMBIGUOUS)
       else omap (map_sum id (Pair (last ?es))) (collect_args (strvec (last ?es)) vline False []))"
    unfolding find_command_def using assms(2) r r' by (simp add: count_matched_eq Let_def)
  then obtain c where c: "?es \<noteq> []" "\<not> length ?es > 1"
      "collect_args (strvec (last ?es)) vline False [] = Ret c" "map_sum id (Pair (last ?es)) c = Inr (e, argv)"
    using assms(1) by (auto simp: outcome_simps split: if_splits dest!: sym [of "Ret _"])
  then have "c = Inr argv" "last ?es = e" by (cases c; auto)+
  with c have "?es = [e]" by (cases ?es) (auto simp: Suc_lessI)
  with that r r' c \<open>c = Inr argv\<close> \<open>last ?es = e\<close> show ?thesis by auto
qed

lemma match_words_vararg:
  assumes mw: "match_words filt vline 0 no_match v = Ret (Inr (m, i, v'))" and "i \<noteq> length vline"
    and one: "filter (complete_at m i) (somes v') = [e]"
  shows "i < length vline \<and> i < length (strvec e) \<and> list_ex (\<lambda>d. CMD_VARARG (cmd d)) (strvec e ! i)"
proof -
  obtain v0 where m: "m = vararg_match" "i < length vline" "(m, v') = filt (vline ! i) v0 i"
    using match_words_sound [OF mw] assms(2) by auto
  have f: "fst (filt (vline ! i) v0 i) = vararg_match" "snd (filt (vline ! i) v0 i) = v'"
    using m(1) arg_cong [OF m(3), of fst] arg_cong [OF m(3), of snd] by simp_all
  obtain e' d where e': "Some e' \<in> set v'" "i < length (strvec e')" "d \<in> set (strvec e' ! i)"
      "kind (vline ! i) (cmd d) = vararg_match"
    using filt_type [OF f(1)] by (auto simp: f(2))
  have "e' \<in> set (filter (complete_at m i) (somes v'))"
    using e'(1) m(1) by (simp add: set_somes complete_at_def)
  then have "e' = e" using one by simp
  with e' m(2) kind_vararg show ?thesis by (auto simp: list_ex_iff)
qed

lemma find_command_sound:
  assumes "find_command filt cmdvec vline node = Ret (Inr (e, argv))" and "cmd_node_vector cmdvec node = Ret v"
  shows "Some e \<in> set v \<and> length argv < CMD_ARGC_MAX \<and> subseq argv vline \<and> line_matches kind vline e"
proof -
  obtain m i v' where
    mw: "match_words filt vline 0 no_match v = Ret (Inr (m, i, v'))"
    and one: "filter (complete_at m i) (somes v') = [e]"
    and args: "collect_args (strvec e) vline False [] = Ret (Inr argv)"
    using find_commandE [OF assms] .
  have "e \<in> set (filter (complete_at m i) (somes v'))" by (simp add: one)
  then have e: "Some e \<in> set v'" "complete_at m i e" by (simp_all add: set_somes)
  note s = match_words_sound [OF mw]
  have j: "\<forall>j < i. matches_at kind (vline ! j) j e" using s e(1) by auto
  have "line_matches kind vline e"
  proof (cases "i = length vline")
    case True
    then have "m \<noteq> vararg_match" using s by auto
    then show ?thesis using True j e(2) unfolding line_matches_def complete_at_def by auto
  next
    case False
    then show ?thesis using match_words_vararg [OF mw False one] j
      unfolding line_matches_def by (intro exI [of _ i]) auto
  qed
  moreover have "Some e \<in> set v" using s e(1) sub_slots_memD by blast
  moreover have "length argv < CMD_ARGC_MAX" using collect_args_bound [OF args] by (simp add: CMD_ARGC_MAX_def)
  moreover have "subseq argv vline" using collect_args_subseq [OF args] by auto
  ultimately show ?thesis by blast
qed

text \<open>The lookup is defined on every table whose rest-of-line words stand alone.\<close>

lemma find_command_defined:
  assumes "cmd_node_vector cmdvec node = Ret v" and wf: "\<And>e. Some e \<in> set v \<Longrightarrow> vararg_alone e"
  shows "\<exists>r. find_command filt cmdvec vline node = Ret r"
proof -
  obtain r where r: "match_words filt vline 0 no_match v = Ret r"
    using match_words_no_undef by (cases "match_words filt vline 0 no_match v") auto
  show ?thesis
  proof (cases r)
    case (Inl err)
    then show ?thesis using r assms(1) by (simp add: find_command_def)
  next
    case (Inr p)
    obtain m i v' where p: "p = (m, i, v')" by (cases p)
    note mw = r [unfolded Inr p]
    let ?es = "filter (complete_at m i) (somes v')"
    have "\<exists>c. collect_args (strvec e) vline False [] = Ret c" if one: "?es = [e]" for e
    proof (cases "i = length vline")
      case True
      have "e \<in> set ?es" by (simp add: one)
      then have "\<forall>j < i. matches_at kind (vline ! j) j e"
        using match_words_sound [OF mw] by (auto simp: set_somes)
      then have "length vline \<le> length (strvec e)"
        using True by (cases i) (auto simp: matches_at_def dest!: spec [of _ "i - 1"])
      then show ?thesis by (intro collect_args_defined) simp
    next
      case False
      have "e \<in> set ?es" by (simp add: one)
      then have "vararg_alone e"
        using match_words_sound [OF mw] wf sub_slots_memD by (auto simp: set_somes)
      moreover note va = match_words_vararg [OF mw False one]
      ultimately have "\<exists>d. strvec e ! i = [d] \<and> CMD_VARARG (cmd d)"
        by (auto simp: vararg_alone_def list_all_length length_Suc_conv)
      with va show ?thesis by (intro collect_args_defined) blast
    qed
    then show ?thesis
      unfolding find_command_def using assms(1) mw
      by (cases ?es) (auto simp: count_matched_eq Let_def)
  qed
qed

end

text \<open>
  Lines that spell the keywords of a command out. The filters tell a keyword from a pattern, and a
  keyword matches itself exactly.
\<close>

definition exact_at :: "string \<Rightarrow> nat \<Rightarrow> 'f cmd_element \<Rightarrow> bool" where
  "exact_at w i e \<longleftrightarrow> i < length (strvec e) \<and> list_ex (\<lambda>d. match_left w exact_match (cmd d)) (strvec e ! i)"

definition spells :: "string list \<Rightarrow> nat \<Rightarrow> 'f cmd_element \<Rightarrow> bool" where
  "spells ws i e \<longleftrightarrow> (\<forall>j < length ws. exact_at (ws ! j) (i + j) e)"

lemma spells_Nil [simp]: "spells [] i e"
  by (simp add: spells_def)

lemma spells_Cons: "spells (w # ws) i e \<longleftrightarrow> exact_at w i e \<and> spells ws (Suc i) e"
  unfolding spells_def by (auto simp: nth_Cons' less_Suc_eq_0_disj)

text \<open>The check never finds an ambiguity in these types.\<close>

definition plain_types :: "match_type set" where
  "plain_types = {exact_match, extend_match, ipv4_match}"

lemma ambiguous_step_plain: "type \<in> plain_types \<Longrightarrow> ambiguous_step w type s matched \<in> {Amb_skip, Amb_match}"
  by (cases type) (simp_all add: ambiguous_step_def plain_types_def)

lemma ambiguous_descs_plain: "type \<in> plain_types \<Longrightarrow> \<exists>p. ambiguous_descs w type ds matched n = Inr p"
proof (induction ds arbitrary: matched n)
  case (Cons d ds)
  then show ?case using ambiguous_step_plain [of type w "cmd d" matched] by auto
qed simp

lemma ambiguous_slots_plain:
  assumes "type \<in> plain_types" and "ambiguous_slots w i type v matched = Ret (ret, v')"
  shows "ret = 0"
  using assms(2)
proof (induction v arbitrary: matched ret v')
  case (Cons s v)
  show ?case
  proof (cases s)
    case None
    then show ?thesis using Cons by (auto simp: outcome_simps)
  next
    case (Some e)
    obtain m n where "ambiguous_descs w type (strvec e ! i) matched 0 = Inr (m, n)"
      using ambiguous_descs_plain [OF assms(1)] by (metis surj_pair)
    then show ?thesis using Cons Some by (auto simp: outcome_simps split: if_splits)
  qed
qed simp

lemma ambiguous_slots_exact: "ambiguous_slots w i exact_match v matched = Ret (ret, v') \<Longrightarrow> ret = 0"
  by (erule ambiguous_slots_plain [rotated]) (simp add: plain_types_def)

locale literal_filter = word_filter +
  assumes kind_exact: "kind w s = exact_match \<Longrightarrow> match_left w exact_match s"
    and kind_self: "match_left w exact_match s \<Longrightarrow> kind w s \<noteq> no_match"
begin

lemma exact_at_matches: "exact_at w i e \<Longrightarrow> matches_at kind w i e"
  using kind_self by (auto simp: exact_at_def matches_at_def list_ex_iff)

definition types_exactly :: "string \<Rightarrow> nat \<Rightarrow> 'a cmd_element \<Rightarrow> bool" where
  "types_exactly w i e \<longleftrightarrow> i < length (strvec e) \<and> (\<exists>d \<in> set (strvec e ! i). kind w (cmd d) = exact_match)"

lemma match_words_exact:
  assumes "Some e \<in> set v" and "\<And>j. j < length ws \<Longrightarrow> types_exactly (ws ! j) (i + j) e"
  shows "\<exists>m'. match_words filt ws i m v = Ret (Inr (m', i + length ws,
      map (\<lambda>s. case s of None \<Rightarrow> None | Some e \<Rightarrow> if spells ws i e then Some e else None) v)) \<and>
    (m' = m \<and> ws = [] \<or> m' = exact_match)"
  using assms
proof (induction ws arbitrary: i m v)
  case Nil
  have "map (\<lambda>s. case s of None \<Rightarrow> None | Some e \<Rightarrow> if spells [] i e then Some e else None) v = v"
    by (rule map_idI) (auto split: option.splits)
  then show ?case by simp
next
  case (Cons w ws)
  let ?f = "filt w v i"
  have te: "types_exactly w i e" using Cons.prems(2) [of 0] by simp
  then have x: "fst ?f = exact_match" using filt_exact [OF Cons.prems(1)] by (auto simp: types_exactly_def)
  obtain ret u where u: "is_cmd_ambiguous w (snd ?f) i exact_match = Ret (ret, u)"
    using ambiguous_filt .
  then have "ret = 0" using ambiguous_slots_exact by (auto simp: is_cmd_ambiguous_def)
  then have uv: "u = map (\<lambda>s. case s of None \<Rightarrow> None | Some e \<Rightarrow> if exact_at w i e then Some e else None) v"
    using ambiguous_slots_left [OF u [unfolded is_cmd_ambiguous_def \<open>ret = 0\<close>]] exact_at_matches
    by (auto simp: filt_slots exact_at_def matches_at_def list_ex_iff split: option.splits)
  have "exact_at w i e" using te kind_exact by (auto simp: types_exactly_def exact_at_def list_ex_iff)
  then have eu: "Some e \<in> set u" unfolding uv using Cons.prems(1) by force
  have step: "match_words filt (w # ws) i m v = match_words filt ws (Suc i) exact_match u"
    using u x \<open>ret = 0\<close> by (simp add: case_prod_beta Let_def)
  have "map (\<lambda>s. case s of None \<Rightarrow> None | Some e \<Rightarrow> if spells ws (Suc i) e then Some e else None) u =
      map (\<lambda>s. case s of None \<Rightarrow> None | Some e \<Rightarrow> if spells (w # ws) i e then Some e else None) v"
    unfolding uv by (auto simp: spells_Cons split: option.splits)
  moreover have "types_exactly (ws ! j) (Suc i + j) e" if "j < length ws" for j
    using Cons.prems(2) [of "Suc j"] that by simp
  ultimately show ?case using Cons.IH [OF eu, of "Suc i" exact_match] step by fastforce
qed

lemma somes_filter: "somes (map (\<lambda>s. case s of None \<Rightarrow> None | Some e \<Rightarrow> if P e then Some e else None) v) = filter P (somes v)"
  by (induction v) (auto split: option.splits)

lemma find_command_exact:
  assumes "cmd_node_vector cmdvec node = Ret v" and "vline \<noteq> []"
    and "\<And>j. j < length vline \<Longrightarrow> types_exactly (vline ! j) j e"
    and one: "filter (\<lambda>e'. cmdsize e' \<le> length vline \<and> spells vline 0 e') (somes v) = [e]"
  shows "find_command filt cmdvec vline node =
    omap (map_sum id (Pair e)) (collect_args (strvec e) vline False [])"
proof -
  have "e \<in> set (filter (\<lambda>e'. cmdsize e' \<le> length vline \<and> spells vline 0 e') (somes v))" by (simp add: one)
  then have "Some e \<in> set v" by (simp add: set_somes)
  from match_words_exact [OF this, of vline 0 no_match] assms(2,3) have
    mw: "match_words filt vline 0 no_match v = Ret (Inr (exact_match, length vline,
      map (\<lambda>s. case s of None \<Rightarrow> None | Some e \<Rightarrow> if spells vline 0 e then Some e else None) v))"
    by auto
  have "filter (complete_at exact_match (length vline)) (filter (spells vline 0) (somes v)) = [e]"
    using one by (simp add: complete_at_def filter_filter conj_commute)
  then show ?thesis
    unfolding find_command_def by (simp add: assms(1) mw count_matched_eq Let_def somes_filter)
qed

end

interpretation completion_filter: literal_filter cmd_filter_by_completion completion_kind
proof (unfold_locales, goal_cases)
  case (1 w v i)
  show ?case unfolding cmd_filter_by_completion_def completion.filter_slots completion.keeps_def matches_at_def ..
next
  case (2 w v i k)
  then show ?case unfolding cmd_filter_by_completion_def by (metis completion.filter_match_attained)
next
  case (3 e v i d w)
  then show ?case unfolding cmd_filter_by_completion_def by (rule completion.filter_match_exact)
next
  case (4 w s)
  then show ?case by (rule kind_vararg)
next
  case (5 w s)
  then show ?case by (rule kind_exact)
next
  case (6 w s)
  then show ?case by (rule kind_self)
qed

interpretation string_filter: literal_filter cmd_filter_by_string string_kind
proof (unfold_locales, goal_cases)
  case (1 w v i)
  show ?case unfolding cmd_filter_by_string_def by_string.filter_slots by_string.keeps_def matches_at_def ..
next
  case (2 w v i k)
  then show ?case unfolding cmd_filter_by_string_def by (metis by_string.filter_match_attained)
next
  case (3 e v i d w)
  then show ?case unfolding cmd_filter_by_string_def by (rule by_string.filter_match_exact)
next
  case (4 w s)
  then show ?case by (rule kind_vararg)
next
  case (5 w s)
  then show ?case by (rule kind_exact)
next
  case (6 w s)
  then show ?case by (rule kind_self)
qed

section \<open>Properties of the interpreter\<close>

lemma map_sum_id_Inl: "map_sum id f c = Inl x \<longleftrightarrow> c = Inl x"
  by (cases c) auto

lemma find_command_codes:
  assumes "find_command filt cmdvec vline node = Ret (Inl err)"
  shows "err \<in> {CMD_ERR_NO_MATCH, CMD_ERR_AMBIGUOUS, CMD_ERR_INCOMPLETE, CMD_ERR_EXEED_ARGC_MAX}"
proof -
  have mw: "x \<in> {CMD_ERR_NO_MATCH, CMD_ERR_AMBIGUOUS}" if "match_words filt ws i m v = Ret (Inl x)" for ws i m v x
    using that
  proof (induction ws arbitrary: i m v)
    case (Cons w ws)
    then show ?case by (auto simp: case_prod_beta Let_def outcome_simps split: if_splits)
  qed simp
  have ca: "x = CMD_ERR_EXEED_ARGC_MAX" if "collect_args sv ws vf argv = Ret (Inl x)" for sv ws vf argv x
    using that
  proof (induction ws arbitrary: sv vf argv)
    case (Cons w ws)
    then show ?case by (auto simp: outcome_simps Let_def split: if_splits)
  qed simp
  obtain v r where v: "cmd_node_vector cmdvec node = Ret v" "match_words filt vline 0 no_match v = Ret r"
    using assms by (auto simp: find_command_def outcome_simps)
  show ?thesis
  proof (cases r)
    case (Inl x)
    then show ?thesis using mw [of vline 0 no_match v x] v assms by (auto simp: find_command_def)
  next
    case (Inr p)
    obtain m i v' where p: "p = (m, i, v')" by (cases p)
    show ?thesis using assms v Inr p unfolding find_command_def
      by (auto simp: outcome_simps Let_def case_prod_beta split: if_splits option.splits
          dest!: sym [of "Inl _"] simp: map_sum_id_Inl dest!: ca)
  qed
qed

text \<open>C19. What a line executes: with an element, the element is installed in the node, every word
  of the line up to its end (or up to a rest-of-line word) matches the element's word at that place,
  the command has no mandatory word left, and the handler, if any ran, got at most 24 arguments, all
  of them words of the line in order. Without an element nothing ran, and the code is one of the
  four errors.\<close>

theorem cmd_execute_command_sound:
  assumes "cmd_execute_command invoke cmdvec vline node s = Ret (ret, found, s')"
    and "cmd_node_vector cmdvec node = Ret v"
  shows "case found of
      None \<Rightarrow> s' = s \<and> ret \<in> {CMD_ERR_NO_MATCH, CMD_ERR_AMBIGUOUS, CMD_ERR_INCOMPLETE, CMD_ERR_EXEED_ARGC_MAX}
    | Some e \<Rightarrow> Some e \<in> set v \<and> line_matches completion_kind vline e \<and>
        (\<exists>argv. subseq argv vline \<and> length argv < CMD_ARGC_MAX \<and>
          (if daemon e \<noteq> 0 then s' = s \<and> ret = CMD_SUCCESS_DAEMON else invoke (func e) argv s = Ret (ret, s')))"
proof -
  from assms obtain r where r: "find_command cmd_filter_by_completion cmdvec vline node = Ret r"
    by (auto simp: cmd_execute_command_def execute_with_def outcome_simps)
  show ?thesis
  proof (cases r)
    case (Inl err)
    then show ?thesis using assms(1) r find_command_codes [OF r [unfolded Inl]]
      by (auto simp: cmd_execute_command_def execute_with_def)
  next
    case (Inr p)
    obtain e argv where p: "p = (e, argv)" by (cases p)
    note s = completion_filter.find_command_sound [OF r [unfolded Inr p] assms(2)]
    have "found = Some e" "if daemon e \<noteq> 0 then s' = s \<and> ret = CMD_SUCCESS_DAEMON else invoke (func e) argv s = Ret (ret, s')"
      using assms(1) r Inr p
      by (auto simp: cmd_execute_command_def execute_with_def outcome_simps split: if_splits)
    with s show ?thesis by auto
  qed
qed

text \<open>A one-command table for the witnesses: \<open>ping WORD\<close> in the view node.\<close>

definition sample_element :: "unit cmd_element" where
  "sample_element = \<lparr>estring = ''ping WORD'', func = (), doc = unlines_nl [''Ping'', ''Host''], daemon = 0,
     strvec = [[\<lparr>cmd = ''ping'', str = Some ''Ping''\<rparr>], [\<lparr>cmd = ''WORD'', str = Some ''Host''\<rparr>]], cmdsize = 2\<rparr>"

definition sample_table :: "unit cmdvec" where
  "sample_table = [None, Some (view_node\<lparr>cmd_vector := [Some sample_element]\<rparr>)]"

definition sample_invoke :: "(unit, string list) invoke" where
  "sample_invoke f argv s = Ret (0, argv @ s)"

lemma sample_run: "cmd_execute_command sample_invoke sample_table [''pi'', ''gw''] VIEW_NODE [] =
    Ret (0, Some sample_element, [''gw''])"
  by code_simp

lemma sample_vector: "cmd_node_vector sample_table VIEW_NODE = Ret [Some sample_element]"
  by (simp add: cmd_node_vector_def node_slot_def sample_table_def slots_lookup_def view_node_def)

theorem cmd_execute_command_sound_witness:
  "line_matches completion_kind [''pi'', ''gw''] sample_element"
  using cmd_execute_command_sound [OF sample_run sample_vector] by simp

text \<open>C21. Looking a line up is defined: on a table whose rest-of-line words have no alternatives,
  neither execution function reads past the end of a specification, whatever the line.\<close>

theorem find_command_no_undef:
  assumes "cmd_node_vector cmdvec node = Ret v" and "list_all vararg_alone (somes v)"
  shows "(\<exists>r. find_command cmd_filter_by_completion cmdvec vline node = Ret r) \<and>
    (\<exists>r. find_command cmd_filter_by_string cmdvec vline node = Ret r)"
proof -
  have "vararg_alone e" if "Some e \<in> set v" for e
    using that assms(2) by (auto simp: list_all_iff set_somes)
  then show ?thesis
    using completion_filter.find_command_defined [OF assms(1)]
      string_filter.find_command_defined [OF assms(1)] by blast
qed

theorem find_command_no_undef_witness:
  "\<exists>r. find_command cmd_filter_by_completion sample_table [''ping'', ''a'', ''b''] VIEW_NODE = Ret r"
  using find_command_no_undef [OF sample_vector, of "[''ping'', ''a'', ''b'']"]
  by (simp add: vararg_alone_def sample_element_def CMD_VARARG_def)

text \<open>C20. Keywords typed in full win: if every word of the line is a keyword of the command, the
  command needs no more words, and no other command of the node that needs no more words spells the
  same line, the lookup selects it, whatever other commands the words abbreviate or fit.\<close>

theorem find_command_keywords:
  assumes "cmd_node_vector cmdvec node = Ret v" and "vline \<noteq> []"
    and "\<And>j. j < length vline \<Longrightarrow> j < length (strvec e) \<and>
      list_ex (\<lambda>d. completion_kind (vline ! j) (cmd d) = exact_match) (strvec e ! j)"
    and "filter (\<lambda>e'. cmdsize e' \<le> length vline \<and> spells vline 0 e') (somes v) = [e]"
  shows "find_command cmd_filter_by_completion cmdvec vline node =
    omap (map_sum id (Pair e)) (collect_args (strvec e) vline False [])"
  using assms(3)
  by (intro completion_filter.find_command_exact [OF assms(1,2) _ assms(4)])
    (auto simp: completion_filter.types_exactly_def list_ex_iff)

text \<open>Two commands, one a prefix of the other: \<open>show ip\<close> and \<open>show ipsec\<close>.\<close>

definition keyword_element :: "string list \<Rightarrow> unit cmd_element" where
  "keyword_element ws = \<lparr>estring = join (CHR '' '') ws, func = (), doc = [], daemon = 0,
     strvec = map (\<lambda>w. [\<lparr>cmd = w, str = None\<rparr>]) ws, cmdsize = length ws\<rparr>"

definition keyword_table :: "unit cmdvec" where
  "keyword_table = [None, Some (view_node\<lparr>cmd_vector :=
     [Some (keyword_element [''show'', ''ip'']), Some (keyword_element [''show'', ''ipsec''])]\<rparr>)]"

lemma keyword_vector: "cmd_node_vector keyword_table VIEW_NODE =
    Ret [Some (keyword_element [''show'', ''ip'']), Some (keyword_element [''show'', ''ipsec''])]"
  by (simp add: cmd_node_vector_def node_slot_def keyword_table_def slots_lookup_def view_node_def)

theorem find_command_keywords_witness:
  "find_command cmd_filter_by_completion keyword_table [''show'', ''ip''] VIEW_NODE =
     Ret (Inr (keyword_element [''show'', ''ip''], []))"
proof -
  have kinds: "completion_kind ''show'' ''show'' = exact_match" "completion_kind ''ip'' ''ip'' = exact_match"
    by code_simp+
  have sp: "match_left ''show'' exact_match ''show''" "match_left ''ip'' exact_match ''ip''"
      "\<not> match_left ''ip'' exact_match ''ipsec''"
    by code_simp+
  have "find_command cmd_filter_by_completion keyword_table [''show'', ''ip''] VIEW_NODE =
      omap (map_sum id (Pair (keyword_element [''show'', ''ip''])))
        (collect_args (strvec (keyword_element [''show'', ''ip''])) [''show'', ''ip''] False [])"
    by (rule find_command_keywords [OF keyword_vector])
      (auto simp: keyword_element_def kinds sp spells_Cons exact_at_def less_Suc_eq)
  also have "collect_args (strvec (keyword_element [''show'', ''ip''])) [''show'', ''ip''] False [] = Ret (Inr [])"
    by code_simp
  finally show ?thesis by simp
qed

section \<open>Completion\<close>

lemma common_prefix_take: "j \<le> common_prefix a b \<longleftrightarrow> j \<le> length a \<and> j \<le> length b \<and> take j a = take j b"
proof (induction a b arbitrary: j rule: common_prefix.induct)
  case (1 a as b bs)
  then show ?case by (cases j) auto
qed auto

text \<open>The longest common prefix of neighbours is that of the whole list.\<close>

lemma lcd_loop_take:
  "lcd_loop s ss lcd = Some n \<Longrightarrow>
     (\<forall>l. j \<le> n \<and> lcd = Some l \<longrightarrow> j \<le> l) \<and>
     (j \<le> n \<longleftrightarrow> (case lcd of None \<Rightarrow> True | Some l \<Rightarrow> j \<le> l) \<and>
        (\<forall>t \<in> set ss. j \<le> length s \<and> j \<le> length t \<and> take j t = take j s))"
proof (induction ss arbitrary: s lcd)
  case Nil
  then show ?case by auto
next
  case (Cons t ss)
  let ?l = "case lcd of None \<Rightarrow> common_prefix s t | Some l \<Rightarrow> min l (common_prefix s t)"
  have "lcd_loop s (t # ss) lcd = lcd_loop t ss (Some ?l)"
    by (auto simp: Let_def min_def split: option.splits)
  with Cons.prems Cons.IH [of t "Some ?l"] show ?case
    by (auto simp: common_prefix_take split: option.splits)
qed

lemma lcd_loop_Some: "ss \<noteq> [] \<or> lcd \<noteq> None \<Longrightarrow> \<exists>n. lcd_loop s ss lcd = Some n"
  by (induction ss arbitrary: s lcd) (auto simp: Let_def split: option.splits)

lemma cmd_lcd_iff:
  assumes "2 \<le> length ms"
  shows "j \<le> cmd_lcd ms \<longleftrightarrow> list_all (\<lambda>m. j \<le> length m \<and> take j m = take j (hd ms)) ms"
proof -
  obtain s1 s2 ss where ms: "ms = s1 # s2 # ss" using assms by (cases ms; cases "tl ms") auto
  obtain n where n: "lcd_loop s1 (s2 # ss) None = Some n" using lcd_loop_Some by blast
  have "j \<le> n \<longleftrightarrow> (\<forall>t \<in> set (s2 # ss). j \<le> length s1 \<and> j \<le> length t \<and> take j t = take j s1)"
    using lcd_loop_take [OF n, of j] by simp
  then show ?thesis using n by (auto simp: ms cmd_lcd_def list_all_iff simp del: lcd_loop.simps)
qed

text \<open>\<open>cmd_lcd\<close> on two or more strings is the length of their longest common prefix.\<close>

theorem cmd_lcd_longest:
  assumes "2 \<le> length ms"
  shows "j \<le> cmd_lcd ms \<longleftrightarrow> list_all (\<lambda>m. j \<le> length m \<and> take j m = take j (hd ms)) ms"
  using assms by (rule cmd_lcd_iff)

theorem cmd_lcd_longest_witness: "cmd_lcd [''show'', ''shutdown'', ''shell''] \<ge> 2"
  using cmd_lcd_longest [of "[''show'', ''shutdown'', ''shell'']" 2] by simp

text \<open>A word of a specification that is typed as it is: no variable, option, range or rest of a line.\<close>

definition is_keyword :: "string \<Rightarrow> bool" where
  "is_keyword k \<longleftrightarrow> (k \<noteq> [] \<longrightarrow> hd k \<notin> set ''[<.ABCDEFGHIJKLMNOPQRSTUVWXYZ'')"

lemma upper_codes: "(65 \<le> chr_code c \<and> chr_code c \<le> 90) \<longleftrightarrow> c \<in> set ''ABCDEFGHIJKLMNOPQRSTUVWXYZ''"
proof -
  have "65 \<le> n \<and> n \<le> 90 \<longleftrightarrow> n \<in> set [65..<91]" for n :: nat
    unfolding set_upt atLeastLessThan_iff by arith
  moreover have "chr_code c \<in> set [65..<91] \<longleftrightarrow> c \<in> char_of ` set [65..<91 :: nat]"
  proof
    assume "chr_code c \<in> set [65..<91]"
    moreover have "char_of (chr_code c) = c" by (simp add: chr_code_def)
    ultimately show "c \<in> char_of ` set [65..<91 :: nat]" by (metis imageI)
  next
    assume "c \<in> char_of ` set [65..<91 :: nat]"
    then show "chr_code c \<in> set [65..<91]" by (auto simp: chr_code_def)
  qed
  moreover have "map char_of [65..<91 :: nat] = ''ABCDEFGHIJKLMNOPQRSTUVWXYZ''" by code_simp
  ultimately show ?thesis by (metis list.set_map)
qed

lemma entry_function_iff:
  "cmd_entry_function command s = Some k \<longleftrightarrow>
     k = s \<and> is_keyword s \<and> (case command of None \<Rightarrow> True | Some c \<Rightarrow> prefix c s)"
proof -
  have "CMD_IPV4 s \<Longrightarrow> CMD_VARIABLE s" "CMD_IPV4_PREFIX s \<Longrightarrow> CMD_VARIABLE s" "CMD_RANGE s \<Longrightarrow> CMD_VARIABLE s"
    using special_word_variable [of s] by (auto simp: CMD_RANGE_def CMD_VARIABLE_def)
  then have "CMD_OPTION s \<or> CMD_VARIABLE s \<or> CMD_VARARG s \<or> CMD_IPV4 s \<or> CMD_IPV4_PREFIX s \<or> CMD_RANGE s \<longleftrightarrow> \<not> is_keyword s"
    by (auto simp: is_keyword_def CMD_OPTION_def CMD_VARIABLE_def CMD_VARARG_def upper_codes)
  then show ?thesis by (auto simp: cmd_entry_function_def split: option.splits)
qed

text \<open>The candidates of a completion: the keywords at a position of the elements that are left.\<close>

definition candidates :: "string option \<Rightarrow> nat \<Rightarrow> 'f cmd_slots \<Rightarrow> string set" where
  "candidates command i v = {cmd d | d e. Some e \<in> set v \<and> i < length (strvec e) \<and> d \<in> set (strvec e ! i) \<and>
     is_keyword (cmd d) \<and> (case command of None \<Rightarrow> True | Some c \<Rightarrow> prefix c (cmd d))}"

lemma fold_add_match:
  "distinct mv \<Longrightarrow> distinct (fold (add_match command) ds mv) \<and>
     set (fold (add_match command) ds mv) = set mv \<union> {k. \<exists>d \<in> set ds. cmd_entry_function command (cmd d) = Some k}"
proof (induction ds arbitrary: mv)
  case (Cons d ds)
  have "distinct (add_match command d mv) \<and>
      set (add_match command d mv) = set mv \<union> {k. cmd_entry_function command (cmd d) = Some k}"
    using Cons.prems by (auto simp: add_match_def cmd_unique_string_def list_all_iff split: option.splits)
  with Cons.IH [of "add_match command d mv"] show ?case by auto
qed simp

lemma complete_elements_set:
  "distinct mv \<Longrightarrow> distinct (complete_elements command i v mv) \<and>
     set (complete_elements command i v mv) = set mv \<union> candidates command i v"
proof (induction v arbitrary: mv)
  case (Cons s v)
  show ?case
  proof (cases s)
    case None
    then show ?thesis using Cons by (simp add: candidates_def)
  next
    case (Some e)
    define mv' where "mv' = (if length (strvec e) \<le> i then mv else fold (add_match command) (strvec e ! i) mv)"
    have "distinct mv' \<and> set mv' = set mv \<union> candidates command i [Some e]"
      unfolding mv'_def candidates_def using fold_add_match [of mv command "strvec e ! i"] Cons.prems
      by (auto simp: entry_function_iff split: if_split)
    moreover have "complete_elements command i (s # v) mv = complete_elements command i v mv'"
      using Some by (simp add: mv'_def)
    moreover have "candidates command i (s # v) = candidates command i [Some e] \<union> candidates command i v"
      unfolding candidates_def Some by auto
    ultimately show ?thesis using Cons.IH [of mv'] by auto
  qed
qed (simp add: candidates_def)

text \<open>What is left after the words in front: elements of the node that all of them fit.\<close>

lemma complete_words_sound:
  "complete_words ws i v = Ret (Inr v') \<Longrightarrow> sub_slots v' v \<and>
     (\<forall>e j. Some e \<in> set v' \<longrightarrow> j < length ws \<longrightarrow> matches_at completion_kind (ws ! j) (i + j) e)"
proof (induction ws arbitrary: i v)
  case (Cons w ws)
  let ?f = "cmd_filter_by_completion w v i"
  obtain ret u where u: "is_cmd_ambiguous w (snd ?f) i (fst ?f) = Ret (ret, u)" "sub_slots u (snd ?f)"
    using completion_filter.ambiguous_filt .
  with Cons.prems have rec: "complete_words ws (Suc i) u = Ret (Inr v')"
    by (auto simp: case_prod_beta Let_def split: if_splits)
  note IH = Cons.IH [OF rec]
  have "matches_at completion_kind ((w # ws) ! j) (i + j) e" if "Some e \<in> set v'" "j < length (w # ws)" for e j
  proof (cases j)
    case 0
    have "Some e \<in> set (snd ?f)" using IH that(1) u(2) sub_slots_memD by blast
    then show ?thesis using 0 by (simp add: completion_filter.filt_mem)
  next
    case (Suc k)
    then show ?thesis using IH that by auto
  qed
  moreover have "sub_slots (snd ?f) v" unfolding completion_filter.filt_slots by (rule sub_slots_filter)
  with IH u(2) have "sub_slots v' v" by (blast intro: sub_slots_trans)
  ultimately show ?case by blast
qed simp

lemma prefix_take_iff: "prefix p k \<longleftrightarrow> length p \<le> length k \<and> take (length p) k = p"
  by (auto simp: prefix_def) (metis append_take_drop_id)


text \<open>Three commands, one of them with a variable: \<open>show ip\<close>, \<open>show ipsec\<close> and \<open>show WORD\<close>.\<close>

definition completion_table :: "unit cmdvec" where
  "completion_table = [None, Some (view_node\<lparr>cmd_vector :=
     [Some (keyword_element [''show'', ''WORD'']), Some (keyword_element [''show'', ''ip'']),
      Some (keyword_element [''show'', ''ipsec''])]\<rparr>)]"


end
