(* ===== verification/Shell_State.thy ===== *)
theory Shell_State
  imports Config_Store Cmd_Engine
begin

text \<open>
  The state the command handlers work on, and the statements they are made of.

  \<^item> \<open>host\<close> (\<open>command.h\<close>), \<open>vty\<close> (\<open>vty.h\<close>) and \<open>shell\<close>: the
    command table, the host variables, the running configuration, the vty a handler is given, and the
    history of what the shell did to its environment, a list of \<open>event\<close>s.
  \<^item> \<open>env\<close> stands for everything outside the program: what \<open>system\<close>, \<open>fork\<close>,
    \<open>fopen\<close>, \<open>stat\<close>, \<open>fgets (stdin)\<close>, \<open>localtime\<close>, \<open>crypt\<close>
    and \<open>uname\<close> answer. Answers may depend on the history of events.
  \<^item> A handler is a function from states to a return code and a state. It is written with the
    combinators below: \<open>block\<close> runs statements in order, \<open>fin\<close> is \<open>return\<close>,
    \<open>buf\<close> is \<open>sprintf\<close> into a buffer of fixed size, \<open>ensure_config\<close> is the macro
    \<open>ENSURE_CONFIG\<close>.
  \<^item> The locale \<open>step_rel\<close> is the interface for proofs about all handlers at once: a
    relation between states that the single statements respect is respected by what is built of them.
\<close>

named_theorems shell_simps "statements of the handlers"

section \<open>State\<close>

record host =
  h_name :: "string option"
  h_password :: "string option"
  h_password_encrypt :: "string option"
  h_enable :: "string option"
  h_enable_encrypt :: "string option"
  h_config :: "string option"
  h_trytimes :: int
  h_chpasswd :: int

datatype vty_type = VTY_SHELL | VTY_FILE

record vty =
  vtype :: vty_type
  vnode :: node_type
  vbuf :: string

definition VTY_BUFSIZ :: nat where
  "VTY_BUFSIZ = 512"

definition vty_new :: vty where
  "vty_new = \<lparr>vtype = VTY_SHELL, vnode = AUTH_NODE, vbuf = []\<rparr>"

datatype stream = Stdout | Stderr | File string

datatype event =
  Write stream string
| Open_w string
| System string
| Exec string "string list"
| Read_stdin
| Sethostname string
| Unlink string

record 'f shell =
  cmds :: "'f cmdvec"
  host :: host
  config_top :: "string list"
  configvec :: "config list vector"
  vty :: vty
  trace :: "event list"

text \<open>
  The environment: the result of \<open>system\<close>, whether \<open>fork\<close> succeeds, the content of a
  file that \<open>fopen\<close> opens for reading, whether it opens a file for writing, whether
  \<open>stat\<close> finds a file, the line \<open>fgets\<close> gets from standard input, the time as
  \<open>localtime\<close> and \<open>strftime\<close> format it, \<open>crypt\<close>, the node name of
  \<open>uname\<close>, and the date and time of the build.
\<close>

record env =
  e_system :: "event list \<Rightarrow> string \<Rightarrow> int"
  e_fork :: "event list \<Rightarrow> bool"
  e_read :: "event list \<Rightarrow> string \<Rightarrow> string option"
  e_open_w :: "event list \<Rightarrow> string \<Rightarrow> bool"
  e_stat :: "event list \<Rightarrow> string \<Rightarrow> bool"
  e_stdin :: "event list \<Rightarrow> nat \<Rightarrow> string option"
  e_time :: "event list \<Rightarrow> string option"
  e_crypt :: "string \<Rightarrow> string \<Rightarrow> string"
  e_nodename :: string
  e_build :: "string \<times> string"

type_synonym 'f stmt = "'f shell \<Rightarrow> 'f shell outcome"
type_synonym 'f handler = "'f shell \<Rightarrow> (int \<times> 'f shell) outcome"

section \<open>Statements\<close>

definition emit :: "event \<Rightarrow> 'f shell \<Rightarrow> 'f shell" where
  "emit e s = s\<lparr>trace := trace s @ [e]\<rparr>"

definition vty_out :: "string \<Rightarrow> 'f stmt" where
  "vty_out out s = Ret (emit (Write Stdout out) s)"

definition set_node :: "node_type \<Rightarrow> 'f stmt" where
  "set_node n s = Ret (s\<lparr>vty := (vty s)\<lparr>vnode := n\<rparr>\<rparr>)"

definition csystem :: "env \<Rightarrow> string \<Rightarrow> 'f stmt" where
  "csystem env command s = Ret (emit (System command) s)"

definition fprintf :: "string \<Rightarrow> string \<Rightarrow> 'f stmt" where
  "fprintf file out s = Ret (emit (Write (File file) out) s)"

definition unlink_file :: "string \<Rightarrow> 'f stmt" where
  "unlink_file file s = Ret (emit (Unlink file) s)"

definition set_hostname :: "string \<Rightarrow> 'f stmt" where
  "set_hostname n s = Ret (emit (Sethostname n) s)"

definition del_line :: "string \<Rightarrow> 'f stmt" where
  "del_line line s = Ret (s\<lparr>config_top := lines_del line (config_top s)\<rparr>)"

definition del_line_byleft :: "string \<Rightarrow> 'f stmt" where
  "del_line_byleft line s = Ret (s\<lparr>config_top := lines_del_byleft line (config_top s)\<rparr>)"

definition add_line :: "string \<Rightarrow> string list \<Rightarrow> 'f stmt" where
  "add_line line args s =
     obind (vformat line args) (\<lambda>info. Ret (s\<lparr>config_top := lines_add info (config_top s)\<rparr>))"

definition set_name :: "string option \<Rightarrow> 'f stmt" where
  "set_name n s = Ret (s\<lparr>host := (host s)\<lparr>h_name := n\<rparr>\<rparr>)"

definition set_chpasswd :: "int \<Rightarrow> 'f stmt" where
  "set_chpasswd n s = Ret (s\<lparr>host := (host s)\<lparr>h_chpasswd := n\<rparr>\<rparr>)"

text \<open>\<open>sprintf (buf, ...); system (buf);\<close> with a buffer of \<open>n\<close> bytes.\<close>

definition sysf :: "env \<Rightarrow> nat \<Rightarrow> string \<Rightarrow> 'f stmt" where
  "sysf env n out s = obind (sprintf n out) (\<lambda>line. csystem env line s)"

definition only_if :: "bool \<Rightarrow> 'f stmt \<Rightarrow> 'f stmt" where
  "only_if b c s = (if b then c s else Ret s)"

section \<open>Handlers\<close>

definition fin :: "int \<Rightarrow> 'f handler" where
  "fin ret s = Ret (ret, s)"

definition undef :: "'f handler" where
  "undef s = Undef"

definition exit_process :: "int \<Rightarrow> 'f handler" where
  "exit_process status s = Exit status"

definition block :: "'f stmt list \<Rightarrow> 'f handler \<Rightarrow> 'f handler" where
  "block cs k s = obind (run cs s) k"

definition buf :: "nat \<Rightarrow> string \<Rightarrow> (string \<Rightarrow> 'f handler) \<Rightarrow> 'f handler" where
  "buf n out k s = obind (sprintf n out) (\<lambda>line. k line s)"

text \<open>The result of \<open>system\<close>, of the opening of a file, of \<open>stat\<close>, of reading a line.\<close>

definition system_ret :: "env \<Rightarrow> string \<Rightarrow> (int \<Rightarrow> 'f handler) \<Rightarrow> 'f handler" where
  "system_ret env command k s = k (e_system env (trace s) command) (emit (System command) s)"

definition fopen_r :: "env \<Rightarrow> string \<Rightarrow> (string option \<Rightarrow> 'f handler) \<Rightarrow> 'f handler" where
  "fopen_r env file k s = k (e_read env (trace s) file) s"

definition fopen_w :: "env \<Rightarrow> string \<Rightarrow> (bool \<Rightarrow> 'f handler) \<Rightarrow> 'f handler" where
  "fopen_w env file k s =
     (if e_open_w env (trace s) file then k True (emit (Open_w file) s) else k False s)"

definition stat_file :: "env \<Rightarrow> string \<Rightarrow> (bool \<Rightarrow> 'f handler) \<Rightarrow> 'f handler" where
  "stat_file env file k s = k (e_stat env (trace s) file) s"

definition fgets_stdin :: "env \<Rightarrow> nat \<Rightarrow> (string option \<Rightarrow> 'f handler) \<Rightarrow> 'f handler" where
  "fgets_stdin env n k s = k (e_stdin env (trace s) n) (emit Read_stdin s)"

definition with_state :: "('f shell \<Rightarrow> 'f handler) \<Rightarrow> 'f handler" where
  "with_state k s = k s s"

definition ensure_config :: "'f handler \<Rightarrow> 'f handler" where
  "ensure_config k s = (if vtype (vty s) = VTY_FILE then Ret (CMD_SUCCESS, s) else k s)"

text \<open>
  \<open>cmd_execute_system_command\<close> forks and runs the program with the first \<open>argc\<close> of its
  arguments. The redirection of the standard error output and the exit of a child whose \<open>execlp\<close>
  failed do not show in the state.
\<close>

definition cmd_execute_system_command :: "env \<Rightarrow> string \<Rightarrow> nat \<Rightarrow> string list \<Rightarrow> 'f handler" where
  "cmd_execute_system_command env command argc argv s =
     (if length argv < argc then Undef
      else if \<not> e_fork env (trace s) then Ret (- 1, s)
      else Ret (0, if argc \<le> 10 then emit (Exec command (take argc argv)) s else s))"

text \<open>The call with its result ignored.\<close>

definition exec_command :: "env \<Rightarrow> string \<Rightarrow> nat \<Rightarrow> string list \<Rightarrow> 'f stmt" where
  "exec_command env command argc argv s = omap snd (cmd_execute_system_command env command argc argv s)"

text \<open>A text in single quotes.\<close>

definition quoted :: "string \<Rightarrow> string" where
  "quoted s = CHR 0x27 # s @ [CHR 0x27]"

text \<open>\<open>isdigit (s[0])\<close>, which is false at the NUL.\<close>

definition digit_first :: "string \<Rightarrow> bool" where
  "digit_first s = (case s of [] \<Rightarrow> False | c # _ \<Rightarrow> isdigit c)"

section \<open>Command elements\<close>

text \<open>
  The functions that command elements point at, one name per \<open>DEFUN\<close> that is compiled (in the
  order of the files \<open>cmd_bridge.c\<close>, \<open>cmd_common.c\<close>, \<open>cmd_tool.c\<close>,
  \<open>cmd_ip.c\<close>, \<open>cmd_fw.c\<close>, \<open>cmd_vpn.c\<close>).
\<close>

datatype bridge_fn =
    F_bridge_disable | F_no_bridge_disable | F_bridge_add | F_no_bridge_add | F_show_bridge |
    F_show_bridge_mac

datatype common_fn =
    F_config_terminal | F_enable | F_disable | F_config_exit | F_show_version | F_show_cpuinfo |
    F_show_meminfo | F_show_interruptsinfo | F_show_uptime | F_config_list | F_config_write_file
    | F_config_write_terminal | F_show_startup_config | F_config_hostname | F_config_no_hostname

datatype tool_fn =
    F_config_sh | F_config_ping | F_config_ping_count | F_config_ssh | F_config_ssh_port |
    F_config_reboot | F_config_poweroff | F_config_sysinfo | F_config_tcpdump | F_show_date |
    F_net_netstat_info

datatype ip_fn =
    F_show_ip_address | F_show_ip_config | F_show_ip_config_name | F_show_ip_route |
    F_ip_address | F_no_ip_address | F_ip_address_dhcp | F_ip_route | F_no_ip_route |
    F_config_dns | F_config_no_dns

datatype fw_fn =
    F_sfirewall_nat_portmap | F_no_sfirewall_nat_portmap | F_sfirewall_nat_portmap_apply |
    F_sfirewall_filter_rules | F_no_sfirewall_filter_rules | F_sfirewall_filter_rules_apply |
    F_show_sfirewall

datatype vpn_fn =
    F_wg_listenport | F_wg_peer_public_key | F_wg_peer_allowed_ips | F_wg_peer_endpoint |
    F_wg_peer_persistent_keepalive | F_no_wg_peer | F_wg_link | F_wg_rekey | F_wg_clearkey |
    F_show_wg | F_show_wg_conf

datatype command =
    Bridge bridge_fn | Common common_fn | Tool tool_fn | Ip ip_fn | Fw fw_fn | Vpn vpn_fn

text \<open>The element that \<open>DEFUN\<close> and \<open>ALIAS\<close> initialise; the fields not named are 0.\<close>

definition defun :: "string \<Rightarrow> 'f \<Rightarrow> string \<Rightarrow> 'f cmd_element" where
  "defun cmdstr funcname helpstr =
     \<lparr>estring = cmdstr, func = funcname, doc = helpstr, daemon = 0, strvec = [], cmdsize = 0\<rparr>"

definition SHOW_STR :: string where
  "SHOW_STR = ''Show running system information'' @ NL"

definition IP_STR :: string where
  "IP_STR = ''IP information set'' @ NL"

definition NO_STR :: string where
  "NO_STR = ''Negate a command or set its defaults'' @ NL"

definition CONFIG_DIR :: string where
  "CONFIG_DIR = ''/qrwg/config''"

definition CONFIG_FILE :: string where
  "CONFIG_FILE = ''asmcli.conf''"

definition RUN_USER :: string where
  "RUN_USER = ''root''"

text \<open>A function that installs elements one after the other.\<close>

fun install_all :: "(node_type \<times> 'f cmd_element) list \<Rightarrow> 'f cmdvec \<Rightarrow> 'f cmdvec outcome" where
  "install_all [] v = Ret v"
| "install_all ((n, e) # es) v = obind (cmd_install_element v n e) (install_all es)"

lemmas stmt_defs [shell_simps] = vty_out_def set_node_def csystem_def fprintf_def unlink_file_def set_hostname_def del_line_def
  del_line_byleft_def add_line_def set_name_def set_chpasswd_def sysf_def only_if_def exec_command_def

lemmas handler_defs [shell_simps] = fin_def undef_def exit_process_def block_def buf_def system_ret_def fopen_r_def
  fopen_w_def stat_file_def fgets_stdin_def with_state_def ensure_config_def cmd_execute_system_command_def

lemma emit_simps [simp]:
  "trace (emit e s) = trace s @ [e]" "vty (emit e s) = vty s" "host (emit e s) = host s"
  "config_top (emit e s) = config_top s" "cmds (emit e s) = cmds s" "configvec (emit e s) = configvec s"
  by (simp_all add: emit_def)

section \<open>Relations that statements respect\<close>

definition does :: "('f shell \<Rightarrow> 'f shell \<Rightarrow> bool) \<Rightarrow> 'f stmt \<Rightarrow> bool" where
  "does R c \<longleftrightarrow> (\<forall>s s'. c s = Ret s' \<longrightarrow> R s s')"

definition yields :: "('f shell \<Rightarrow> 'f shell \<Rightarrow> bool) \<Rightarrow> 'f handler \<Rightarrow> bool" where
  "yields R h \<longleftrightarrow> (\<forall>s r s'. h s = Ret (r, s') \<longrightarrow> R s s')"

named_theorems step_intros "which statements and handlers respect a relation"

locale step_rel =
  fixes R :: "'f shell \<Rightarrow> 'f shell \<Rightarrow> bool"
  assumes refl: "R s s"
    and trans: "R s t \<Longrightarrow> R t u \<Longrightarrow> R s u"
begin

lemma does_run: "list_all (does R) cs \<Longrightarrow> run cs s = Ret t \<Longrightarrow> R s t"
proof (induction cs arbitrary: s)
  case Nil
  then show ?case by (simp add: refl)
next
  case (Cons c cs)
  then obtain u where "c s = Ret u" "run cs u = Ret t" by (auto simp: outcome_simps)
  with Cons show ?case by (auto simp: does_def intro: trans)
qed

lemma yields_fin [step_intros]: "yields R (fin r)"
  by (simp add: yields_def fin_def refl)

lemma yields_undef [step_intros]: "yields R undef"
  by (simp add: yields_def undef_def)

lemma yields_exit_process [step_intros]: "yields R (exit_process n)"
  by (simp add: yields_def exit_process_def)

lemma yields_block [step_intros]:
  assumes "list_all (does R) cs" and "yields R k"
  shows "yields R (block cs k)"
  using assms by (auto simp: yields_def block_def outcome_simps intro: trans dest: does_run)

lemma yields_buf [step_intros]: "(\<And>l. yields R (k l)) \<Longrightarrow> yields R (buf n out k)"
  by (auto simp: yields_def buf_def outcome_simps)

lemma yields_fopen_r [step_intros]: "(\<And>c. yields R (k c)) \<Longrightarrow> yields R (fopen_r env file k)"
  by (simp add: yields_def fopen_r_def)

lemma yields_stat_file [step_intros]: "(\<And>c. yields R (k c)) \<Longrightarrow> yields R (stat_file env file k)"
  by (simp add: yields_def stat_file_def)

lemma yields_with_state [step_intros]: "(\<And>s. yields R (k s)) \<Longrightarrow> yields R (with_state k)"
  by (simp add: yields_def with_state_def)

lemma yields_ensure_config [step_intros]: "yields R k \<Longrightarrow> yields R (ensure_config k)"
  by (auto simp: yields_def ensure_config_def refl)

lemma yields_if [step_intros]:
  "(b \<Longrightarrow> yields R h) \<Longrightarrow> (\<not> b \<Longrightarrow> yields R k) \<Longrightarrow> yields R (if b then h else k)"
  by simp

lemma yields_case_list [step_intros]:
  "yields R a \<Longrightarrow> (\<And>x ys. yields R (f x ys)) \<Longrightarrow> yields R (case xs of [] \<Rightarrow> a | x # ys \<Rightarrow> f x ys)"
  by (simp split: list.split)

lemma yields_case_option [step_intros]:
  "yields R a \<Longrightarrow> (\<And>x. yields R (f x)) \<Longrightarrow> yields R (case z of None \<Rightarrow> a | Some x \<Rightarrow> f x)"
  by (simp split: option.split)

lemma yields_case_prod [step_intros]:
  "(\<And>x y. yields R (f x y)) \<Longrightarrow> yields R (case p of (x, y) \<Rightarrow> f x y)"
  by (simp split: prod.split)

lemma yields_Let [step_intros]: "yields R (f a) \<Longrightarrow> yields R (let x = a in f x)"
  by simp

lemma does_only_if [step_intros]: "(b \<Longrightarrow> does R c) \<Longrightarrow> does R (only_if b c)"
  by (auto simp: does_def only_if_def refl)

lemma does_list_Nil [step_intros]: "list_all (does R) []"
  by simp

lemma does_list_Cons [step_intros]: "does R c \<Longrightarrow> list_all (does R) cs \<Longrightarrow> list_all (does R) (c # cs)"
  by simp

end

text \<open>Relations that allow output and programs to be run.\<close>

locale effect_rel = step_rel +
  assumes emit_rel: "R s (emit e s)"
begin

lemma emit_trans: "R (emit e s) t \<Longrightarrow> R s t"
  using trans emit_rel by blast

lemma does_effects [step_intros]:
  "does R (vty_out out)" "does R (csystem env out)" "does R (fprintf file out)" "does R (sysf env n out)"
  "does R (unlink_file file)" "does R (set_hostname name)"
  by (auto simp: does_def stmt_defs emit_rel outcome_simps)

lemma yields_effects [step_intros]:
  "(\<And>r. yields R (k r)) \<Longrightarrow> yields R (system_ret env out k)"
  "(\<And>r. yields R (h r)) \<Longrightarrow> yields R (fopen_w env file h)"
  "(\<And>r. yields R (g r)) \<Longrightarrow> yields R (fgets_stdin env n g)"
  unfolding yields_def handler_defs by (metis emit_trans)+

lemma yields_exec [step_intros]: "yields R (cmd_execute_system_command env command argc argv)"
  by (auto simp: yields_def handler_defs emit_rel refl split: if_splits)

lemma does_exec [step_intros]: "does R (exec_command env command argc argv)"
  using yields_exec [of env command argc argv] by (auto simp: does_def yields_def exec_command_def outcome_simps)

end

text \<open>Relations that allow the configuration and the host name to change as well.\<close>

locale config_rel = effect_rel +
  assumes config_rel: "R s (s\<lparr>config_top := lines_step (config_top s) x\<rparr>)"
    and host_rel: "R s (s\<lparr>host := (host s)\<lparr>h_name := n\<rparr>\<rparr>)" "R s (s\<lparr>host := (host s)\<lparr>h_chpasswd := 0\<rparr>\<rparr>)"
begin

lemma does_config [step_intros]:
  "does R (del_line line)" "does R (del_line_byleft line)" "does R (add_line line args)"
  using config_rel [of _ "Del_line line"] config_rel [of _ "Del_line_byleft line"]
    config_rel [of _ "Add_line line args"]
  by (auto simp: does_def stmt_defs outcome_simps)

lemma does_host [step_intros]: "does R (set_name n)" "does R (set_chpasswd 0)"
  by (auto simp: does_def stmt_defs host_rel)

end

end
