(* ===== verification/Cmd_Bridge.thy ===== *)
theory Cmd_Bridge
  imports Shell_State
begin

text \<open>
  The bridge commands (\<open>cmd/cmd_bridge.c\<close>): one definition per handler, the command elements
  and the function that installs them.
\<close>

section \<open>Handlers\<close>

definition bridge_disable :: "env \<Rightarrow> string list \<Rightarrow> 'f handler" where
  "bridge_disable env argv =
     buf 64 ''bridge disable'' (\<lambda>szInfo.
     block [del_line szInfo, add_line szInfo []]
     (ensure_config (fin CMD_SUCCESS)))"

definition no_bridge_disable :: "env \<Rightarrow> string list \<Rightarrow> 'f handler" where
  "no_bridge_disable env argv =
     buf 64 ''bridge disable'' (\<lambda>szInfo.
     block [del_line szInfo]
     (ensure_config (fin CMD_SUCCESS)))"

text \<open>The test of an interface name: a quote in it, or a failing \<open>ifconfig\<close>, is an error.\<close>

definition check_interface :: "env \<Rightarrow> string \<Rightarrow> 'f handler \<Rightarrow> 'f handler" where
  "check_interface env eth ok =
     buf 1024 (''ifconfig \"'' @ eth @ ''\" > /dev/null 2>&1'') (\<lambda>szInfo.
       let bad = block [vty_out (''% interface '' @ eth @ '' invalid'' @ NL)] (fin CMD_WARNING) in
       if strchr eth (CHR 0x22) \<noteq> None then bad
       else system_ret env szInfo (\<lambda>r. if r \<noteq> 0 then bad else ok))"

definition bridge_number_error :: "string \<Rightarrow> 'f handler" where
  "bridge_number_error num =
     block [vty_out (''% bridge number '' @ num @ '' error'' @ NL)] (fin CMD_WARNING)"

definition bridge_add :: "env \<Rightarrow> string list \<Rightarrow> 'f handler" where
  "bridge_add env argv =
     (case argv of
        num # pEth1 # pEth2 # _ \<Rightarrow>
          let nNum = atoi num; n = string_of_int nNum in
          if nNum < 1 \<or> nNum > 9 then bridge_number_error num
          else
            check_interface env pEth1 (
            check_interface env pEth2 (
            block [del_line_byleft (snprintf 1024 (''bridge '' @ n)),
                   add_line (snprintf 1024 (''bridge '' @ n @ '' '' @ pEth1 @ '' '' @ pEth2)) []]
            (ensure_config (
            block [sysf env 1024 (''ifconfig '' @ pEth1 @ '' 0.0.0.0 > /dev/null 2>&1''),
                   sysf env 1024 (''ifconfig '' @ pEth2 @ '' 0.0.0.0 > /dev/null 2>&1''),
                   sysf env 1024 (''brctl addbr brad'' @ n)]
            (buf 1024 (''brctl addif brad'' @ n @ '' '' @ pEth1 @ '' '' @ pEth2 @ '' > /dev/null 2>&1'') (\<lambda>szInfo.
            system_ret env szInfo (\<lambda>r.
              if r \<noteq> 0 then
                block [del_line_byleft (snprintf 1024 (''bridge '' @ n))] (fin CMD_SUCCESS)
              else
                block [sysf env 1024 (''brctl setfd brad'' @ n @ '' 1 > /dev/null 2>&1''),
                       vty_out (''bridge brad'' @ n @ '' Add Success'' @ NL)]
                (fin CMD_SUCCESS))))))))
      | _ \<Rightarrow> undef)"

definition no_bridge_add :: "env \<Rightarrow> string list \<Rightarrow> 'f handler" where
  "no_bridge_add env argv =
     (case argv of
        num # _ \<Rightarrow>
          let nNum = atoi num; n = string_of_int nNum in
          if nNum < 1 \<or> nNum > 9 then bridge_number_error num
          else
            block [del_line_byleft (snprintf 1024 (''bridge '' @ n))]
            (ensure_config (
            block [sysf env 1024 (''ifconfig brad'' @ n @ '' down> /dev/null 2>&1''),
                   sysf env 1024 (''brctl delbr brad'' @ n @ '' > /dev/null 2>&1''),
                   vty_out (''bridge remove OK!'' @ NL)]
            (fin CMD_SUCCESS)))
      | _ \<Rightarrow> undef)"

definition show_bridge :: "env \<Rightarrow> string list \<Rightarrow> 'f handler" where
  "show_bridge env argv = block [csystem env ''brctl show''] (fin CMD_SUCCESS)"

text \<open>\<open>memcmp\<close> of four bytes: a name of less than three bytes has less than four with its NUL.\<close>

definition show_bridge_mac :: "env \<Rightarrow> string list \<Rightarrow> 'f handler" where
  "show_bridge_mac env argv =
     (case argv of
        name # _ \<Rightarrow>
          if length name < 3 then undef
          else if take 4 name \<noteq> ''brad'' then
            block [vty_out (''% invalid bridge name'' @ NL)] (fin CMD_WARNING)
          else cmd_execute_system_command env ''brctl'' 2 [''showmacs'', name]
      | _ \<Rightarrow> undef)"

section \<open>Elements\<close>

definition bridge_disable_cmd :: "command cmd_element" where
  "bridge_disable_cmd = defun
     ''bridge disable''
     (Bridge F_bridge_disable)
     (''Specify whether bridge mode is enabled or disabled'' @ NL @ ''Disable bridge mode'' @ NL)"

definition no_bridge_disable_cmd :: "command cmd_element" where
  "no_bridge_disable_cmd = defun
     ''no bridge disable''
     (Bridge F_no_bridge_disable)
     (NO_STR @ ''Specify whether bridge mode is enabled or disabled'' @ NL @
       ''Disable bridge mode'' @ NL)"

definition bridge_add_cmd :: "command cmd_element" where
  "bridge_add_cmd = defun
     ''bridge NUM WORD WORD''
     (Bridge F_bridge_add)
     (''add/modify the bridge information'' @ NL @ ''the bridge number[1-9]'' @ NL @
       ''the bridge interface1 name'' @ NL @ ''the bridge interface2 name'' @ NL)"

definition no_bridge_add_cmd :: "command cmd_element" where
  "no_bridge_add_cmd = defun
     ''no bridge NUM''
     (Bridge F_no_bridge_add)
     (NO_STR @ ''delete the bridge'' @ NL)"

definition show_bridge_cmd :: "command cmd_element" where
  "show_bridge_cmd = defun
     ''show bridge''
     (Bridge F_show_bridge)
     (SHOW_STR @ ''show the bridge info'' @ NL)"

definition show_bridge_mac_cmd :: "command cmd_element" where
  "show_bridge_mac_cmd = defun
     ''show bridge WORD''
     (Bridge F_show_bridge_mac)
     (SHOW_STR @ ''show the bridge info'' @ NL @ ''bridge name'' @ NL)"

definition bridge_elements :: "(node_type \<times> command cmd_element) list" where
  "bridge_elements =
    [(ENABLE_NODE, show_bridge_cmd),
     (ENABLE_NODE, show_bridge_mac_cmd),
     (CONFIG_NODE, bridge_disable_cmd),
     (CONFIG_NODE, no_bridge_disable_cmd),
     (CONFIG_NODE, bridge_add_cmd),
     (CONFIG_NODE, no_bridge_add_cmd)]"

definition cmd_bridge_init :: "command cmdvec \<Rightarrow> command cmdvec outcome" where
  "cmd_bridge_init = install_all bridge_elements"

lemmas bridge_element_defs =
  bridge_disable_cmd_def no_bridge_disable_cmd_def bridge_add_cmd_def no_bridge_add_cmd_def
  show_bridge_cmd_def show_bridge_mac_cmd_def

lemmas bridge_defs = bridge_disable_def no_bridge_disable_def check_interface_def
  bridge_number_error_def bridge_add_def no_bridge_add_def show_bridge_def show_bridge_mac_def

section \<open>Relations the handlers respect\<close>

context config_rel
begin

lemma yields_bridge [step_intros]:
  "yields R (bridge_disable env argv)" "yields R (no_bridge_disable env argv)"
  "yields R (bridge_add env argv)" "yields R (no_bridge_add env argv)"
  unfolding bridge_defs by (intro step_intros)+

end

context effect_rel
begin

lemma yields_show_bridge [step_intros]:
  "yields R (show_bridge env argv)" "yields R (show_bridge_mac env argv)"
  unfolding bridge_defs by (intro step_intros)+

end

end
