(* ===== verification/Cmd_Common.thy ===== *)
theory Cmd_Common
  imports Shell_State
begin

text \<open>
  The common commands (\<open>cmd/cmd_common.c\<close>): changing the node of the vty, showing system
  information, writing and showing the configuration, and the host name. One definition per handler
  that is compiled, the command elements and the function that installs them. The build defines
  \<open>NANO_R2S_PLUS\<close>.
\<close>

section \<open>Handlers\<close>

definition config_terminal :: "env \<Rightarrow> string list \<Rightarrow> 'f handler" where
  "config_terminal env argv = block [set_node CONFIG_NODE] (fin CMD_SUCCESS)"

definition enable :: "env \<Rightarrow> string list \<Rightarrow> 'f handler" where
  "enable env argv =
     with_state (\<lambda>s.
       if (h_enable (host s) = None \<and> h_enable_encrypt (host s) = None) \<or> vtype (vty s) = VTY_FILE
       then block [set_node ENABLE_NODE] (fin CMD_SUCCESS)
       else block [set_node AUTH_ENABLE_NODE] (fin CMD_SUCCESS))"

definition disable :: "env \<Rightarrow> string list \<Rightarrow> 'f handler" where
  "disable env argv =
     with_state (\<lambda>s.
       block [only_if (vnode (vty s) = ENABLE_NODE) (set_node VIEW_NODE)] (fin CMD_SUCCESS))"

definition config_exit :: "env \<Rightarrow> string list \<Rightarrow> 'f handler" where
  "config_exit env argv =
     with_state (\<lambda>s.
       if vnode (vty s) = VIEW_NODE then exit_process 0
       else if vnode (vty s) = ENABLE_NODE then block [set_node VIEW_NODE] (fin CMD_SUCCESS)
       else if vnode (vty s) = CONFIG_NODE then block [set_node ENABLE_NODE] (fin CMD_SUCCESS)
       else fin CMD_SUCCESS)"

definition show_version :: "env \<Rightarrow> string list \<Rightarrow> 'f handler" where
  "show_version env argv =
     buf 1024 ''0.09.00'' (\<lambda>xbuf.
     block [vty_out (''Version: '' @ xbuf @ NL),
            vty_out (''Copyright: Chunghan Yi <chunghan.yi@gmail.com>'' @ NL),
            vty_out (''Built on: '' @ fst (e_build env) @ '' '' @ snd (e_build env) @ NL)]
     (fin CMD_SUCCESS))"

text \<open>
  The three commands that show a file: \<open>fread\<close> may fill the 4096 bytes of \<open>info\<close>, and then
  \<open>%s\<close> reads on past the array.
\<close>

definition show_file :: "env \<Rightarrow> string \<Rightarrow> 'f handler" where
  "show_file env file =
     fopen_r env file (\<lambda>fp.
       case fp of
         None \<Rightarrow> fin CMD_SUCCESS
       | Some c \<Rightarrow>
           if length c \<ge> 4096 \<and> CHR 0x00 \<notin> set (take 4096 c) then undef
           else block [vty_out (cstr (take 4096 c) @ NL)] (fin CMD_SUCCESS))"

definition show_cpuinfo :: "env \<Rightarrow> string list \<Rightarrow> 'f handler" where
  "show_cpuinfo env argv = show_file env ''/proc/cpuinfo''"

definition show_meminfo :: "env \<Rightarrow> string list \<Rightarrow> 'f handler" where
  "show_meminfo env argv = show_file env ''/proc/meminfo''"

definition show_interruptsinfo :: "env \<Rightarrow> string list \<Rightarrow> 'f handler" where
  "show_interruptsinfo env argv = show_file env ''/proc/interrupts''"

definition show_uptime :: "env \<Rightarrow> string list \<Rightarrow> 'f handler" where
  "show_uptime env argv = block [csystem env ''uptime''] (fin CMD_SUCCESS)"

definition config_list :: "env \<Rightarrow> string list \<Rightarrow> 'f handler" where
  "config_list env argv =
     with_state (\<lambda>s.
       case slots_lookup (cmds s) (node_index (vnode (vty s))) of
         None \<Rightarrow> undef
       | Some node \<Rightarrow>
           block (map (\<lambda>e. vty_out (''  '' @ estring e @ NL)) (somes (cmd_vector node)))
           (fin CMD_SUCCESS))"

text \<open>\<open>config_dump\<close> to a stream.\<close>

definition dump_to :: "env \<Rightarrow> stream \<Rightarrow> 'f stmt" where
  "dump_to env fp s =
     (case e_time env (trace s) of
        None \<Rightarrow> vty_out (''Get localtime error'' @ NL) s
      | Some timestr \<Rightarrow> Ret (emit (Write fp (config_dump timestr (config_top s) (configvec s))) s))"

text \<open>Setting the password of the system user with \<open>passwd\<close>, after it was changed.\<close>

definition write_password :: "env \<Rightarrow> 'f handler" where
  "write_password env =
     with_state (\<lambda>s.
       if h_chpasswd (host s) = 0 then fin CMD_SUCCESS
       else (case h_password (host s) of
          None \<Rightarrow> undef
        | Some password \<Rightarrow>
            buf 256 password (\<lambda>pw.
            block [sysf env 1024 (''echo -e \"'' @ pw @ [CHR 0x5C] @ ''n'' @ pw @ ''\" | passwd > /dev/null 2>&1''),
                   set_chpasswd 0]
            (fin CMD_SUCCESS))))"

definition config_write_file :: "env \<Rightarrow> string list \<Rightarrow> 'f handler" where
  "config_write_file env argv =
     with_state (\<lambda>s.
       case h_config (host s) of
         None \<Rightarrow>
           block [vty_out (''% Can'' @ [CHR 0x27] @ ''t save to configuration file, using vtysh.'' @ NL)]
           (fin CMD_WARNING)
       | Some file \<Rightarrow>
           fopen_w env file (\<lambda>fp.
             if \<not> fp then
               block [vty_out (''% Can'' @ [CHR 0x27] @ ''t open configuration file '' @ file @ ''.'' @ NL)]
               (fin CMD_WARNING)
             else
               block [dump_to env (File file), vty_out (''Configuration saved SUCCESS '' @ NL)]
               (write_password env)))"

definition config_write_terminal :: "env \<Rightarrow> string list \<Rightarrow> 'f handler" where
  "config_write_terminal env argv = block [dump_to env Stderr] (fin CMD_SUCCESS)"

text \<open>The size of the buffer of \<open>show_startup_config\<close>, as the C library of the target has it.\<close>

definition BUFSIZ :: nat where
  "BUFSIZ = 1024"

definition line_text :: "string \<Rightarrow> string" where
  "line_text b = takeWhile (\<lambda>c. c \<noteq> CHR 0x0D \<and> c \<noteq> CHR 0x0A \<and> c \<noteq> CHR 0x00) b"

definition show_startup_config :: "env \<Rightarrow> string list \<Rightarrow> 'f handler" where
  "show_startup_config env argv =
     with_state (\<lambda>s.
       case h_config (host s) of
         None \<Rightarrow> undef
       | Some file \<Rightarrow>
           fopen_r env file (\<lambda>confp.
             case confp of
               None \<Rightarrow>
                 block [vty_out (''% Can'' @ [CHR 0x27] @ ''t open configuration file ['' @ file @ '']'' @ NL)]
                 (fin CMD_WARNING)
             | Some c \<Rightarrow>
                 block (map (\<lambda>b. vty_out (line_text b @ NL)) (fgets_all BUFSIZ c)) (fin CMD_SUCCESS)))"

definition config_hostname :: "env \<Rightarrow> string list \<Rightarrow> 'f handler" where
  "config_hostname env argv =
     (case argv of
        name # _ \<Rightarrow>
          if \<not> (name \<noteq> [] \<and> isalpha (hd name)) then
            block [vty_out (''% Please specify string starting with alphabet'' @ NL)] (fin CMD_WARNING)
          else
            block [del_line_byleft ''hostname'', add_line ''hostname %s'' [name]]
            (ensure_config (
            block [set_name (Some name), set_hostname name,
                   sysf env 1024 (''uci set system.@system[0].hostname='' @ quoted name),
                   csystem env ''uci commit system'',
                   csystem env ''/etc/init.d/system reload'']
            (fin CMD_SUCCESS)))
      | _ \<Rightarrow> undef)"

definition config_no_hostname :: "env \<Rightarrow> string list \<Rightarrow> 'f handler" where
  "config_no_hostname env argv =
     block [set_name None, del_line_byleft ''hostname '',
            csystem env (''uci set system.@system[0].hostname='' @ quoted ''nano-r2s-plus''),
            csystem env ''uci commit system'',
            csystem env ''/etc/init.d/system reload'']
     (fin CMD_SUCCESS)"

section \<open>Elements\<close>

definition config_terminal_cmd :: "command cmd_element" where
  "config_terminal_cmd = defun
     ''configure terminal''
     (Common F_config_terminal)
     (''Configuration from vty interface'' @ NL @ ''Configuration terminal'' @ NL)"

definition config_enable_cmd :: "command cmd_element" where
  "config_enable_cmd = defun
     ''enable''
     (Common F_enable)
     (''Turn on privileged mode command'' @ NL)"

definition config_disable_cmd :: "command cmd_element" where
  "config_disable_cmd = defun
     ''disable''
     (Common F_disable)
     (''Turn off privileged mode command'' @ NL)"

definition config_exit_cmd :: "command cmd_element" where
  "config_exit_cmd = defun
     ''exit''
     (Common F_config_exit)
     (''Exit current mode and down to previous mode'' @ NL)"

definition show_version_cmd :: "command cmd_element" where
  "show_version_cmd = defun
     ''show version''
     (Common F_show_version)
     (SHOW_STR @ ''Displays the version information'' @ NL)"

definition show_cpuinfo_cmd :: "command cmd_element" where
  "show_cpuinfo_cmd = defun
     ''show cpuinfo''
     (Common F_show_cpuinfo)
     (SHOW_STR @ ''Displays the cpu information'' @ NL)"

definition show_meminfo_cmd :: "command cmd_element" where
  "show_meminfo_cmd = defun
     ''show meminfo''
     (Common F_show_meminfo)
     (SHOW_STR @ ''Displays the memory information'' @ NL)"

definition show_interruptsinfo_cmd :: "command cmd_element" where
  "show_interruptsinfo_cmd = defun
     ''show interruptsinfo''
     (Common F_show_interruptsinfo)
     (SHOW_STR @ ''Displays the interrupts information'' @ NL)"

definition show_uptime_cmd :: "command cmd_element" where
  "show_uptime_cmd = defun
     ''show uptime''
     (Common F_show_uptime)
     (SHOW_STR @ ''Displays the system uptime'' @ NL)"

definition config_list_cmd :: "command cmd_element" where
  "config_list_cmd = defun
     ''list''
     (Common F_config_list)
     (''Print command list'' @ NL)"

definition config_write_file_cmd :: "command cmd_element" where
  "config_write_file_cmd = defun
     ''write file''
     (Common F_config_write_file)
     (''Write running configuration to memory, network, or terminal'' @ NL @
       ''Write to configuration file'' @ NL)"

definition config_write_cmd :: "command cmd_element" where
  "config_write_cmd = defun
     ''write''
     (Common F_config_write_file)
     (''Write running configuration to memory, network, or terminal'' @ NL @
       ''Write configureation to the file(same as write file)'' @ NL)"

definition config_write_memory_cmd :: "command cmd_element" where
  "config_write_memory_cmd = defun
     ''write memory''
     (Common F_config_write_file)
     (''Write running configuration to memory, network, or terminal'' @ NL @
       ''Write configuration to the file (same as write file)'' @ NL)"

definition config_write_terminal_cmd :: "command cmd_element" where
  "config_write_terminal_cmd = defun
     ''write terminal''
     (Common F_config_write_terminal)
     (''Write running configuration to memory, network, or terminal'' @ NL @
       ''Write to terminal'' @ NL)"

definition show_running_config_cmd :: "command cmd_element" where
  "show_running_config_cmd = defun
     ''show running-config''
     (Common F_config_write_terminal)
     (SHOW_STR @ ''running configuration'' @ NL)"

definition show_startup_config_cmd :: "command cmd_element" where
  "show_startup_config_cmd = defun
     ''show startup-config''
     (Common F_show_startup_config)
     (SHOW_STR @ ''Contentes of startup configuration'' @ NL)"

definition hostname_cmd :: "command cmd_element" where
  "hostname_cmd = defun
     ''hostname WORD''
     (Common F_config_hostname)
     (''Set system's network name'' @ NL @ ''This system's network name'' @ NL)"

definition no_hostname_cmd :: "command cmd_element" where
  "no_hostname_cmd = defun
     ''no hostname [HOSTNAME]''
     (Common F_config_no_hostname)
     (NO_STR @ ''Reset system's network name'' @ NL @ ''Host name of this router'' @ NL)"

definition common_elements :: "(node_type \<times> command cmd_element) list" where
  "common_elements =
    [(VIEW_NODE, show_version_cmd),
     (VIEW_NODE, config_exit_cmd),
     (VIEW_NODE, config_enable_cmd),
     (VIEW_NODE, show_cpuinfo_cmd),
     (VIEW_NODE, show_meminfo_cmd),
     (VIEW_NODE, show_interruptsinfo_cmd),
     (VIEW_NODE, show_uptime_cmd),
     (ENABLE_NODE, show_version_cmd),
     (ENABLE_NODE, config_exit_cmd),
     (ENABLE_NODE, config_list_cmd),
     (ENABLE_NODE, config_write_terminal_cmd),
     (ENABLE_NODE, config_write_file_cmd),
     (ENABLE_NODE, config_write_memory_cmd),
     (ENABLE_NODE, config_write_cmd),
     (ENABLE_NODE, show_cpuinfo_cmd),
     (ENABLE_NODE, show_meminfo_cmd),
     (ENABLE_NODE, show_interruptsinfo_cmd),
     (ENABLE_NODE, show_uptime_cmd),
     (ENABLE_NODE, config_disable_cmd),
     (ENABLE_NODE, config_terminal_cmd),
     (ENABLE_NODE, show_running_config_cmd),
     (ENABLE_NODE, show_startup_config_cmd),
     (CONFIG_NODE, show_version_cmd),
     (CONFIG_NODE, config_exit_cmd),
     (CONFIG_NODE, config_write_terminal_cmd),
     (CONFIG_NODE, config_write_file_cmd),
     (CONFIG_NODE, config_write_memory_cmd),
     (CONFIG_NODE, config_write_cmd),
     (CONFIG_NODE, show_running_config_cmd),
     (CONFIG_NODE, show_startup_config_cmd),
     (CONFIG_NODE, hostname_cmd),
     (CONFIG_NODE, no_hostname_cmd)]"

definition cmd_common_init :: "command cmdvec \<Rightarrow> command cmdvec outcome" where
  "cmd_common_init = install_all common_elements"

lemmas common_element_defs =
  config_terminal_cmd_def config_enable_cmd_def config_disable_cmd_def config_exit_cmd_def
  show_version_cmd_def show_cpuinfo_cmd_def show_meminfo_cmd_def show_interruptsinfo_cmd_def
  show_uptime_cmd_def config_list_cmd_def config_write_file_cmd_def config_write_cmd_def
  config_write_memory_cmd_def config_write_terminal_cmd_def show_running_config_cmd_def
  show_startup_config_cmd_def hostname_cmd_def no_hostname_cmd_def

lemmas common_show_defs = show_version_def show_cpuinfo_def show_meminfo_def show_interruptsinfo_def
  show_file_def show_uptime_def config_list_def config_write_terminal_def show_startup_config_def

lemmas common_host_defs = write_password_def config_write_file_def config_hostname_def
  config_no_hostname_def

lemmas common_node_defs = config_terminal_def enable_def disable_def config_exit_def

section \<open>Relations the handlers respect\<close>

context effect_rel
begin

lemma does_dump_to [step_intros]: "does R (dump_to env fp)"
  by (auto simp: does_def dump_to_def vty_out_def emit_rel split: option.splits)

lemma does_outputs [step_intros]: "list_all (does R) (map (\<lambda>x. vty_out (f x)) xs)"
  by (induction xs) (simp_all add: does_effects)

lemma yields_common_show [step_intros]:
  "yields R (show_version env argv)" "yields R (show_cpuinfo env argv)"
  "yields R (show_meminfo env argv)" "yields R (show_interruptsinfo env argv)"
  "yields R (show_uptime env argv)" "yields R (config_list env argv)"
  "yields R (config_write_terminal env argv)" "yields R (show_startup_config env argv)"
  unfolding common_show_defs by (intro step_intros)+

end

context config_rel
begin

lemma yields_common_host [step_intros]:
  "yields R (config_write_file env argv)" "yields R (config_hostname env argv)"
  "yields R (config_no_hostname env argv)"
  unfolding common_host_defs by (intro step_intros)+

end

text \<open>
  Relations that allow the node to change: to the view, enable and configuration nodes, and to the node
  that asks for the password only if there is one.
\<close>

locale node_rel = step_rel +
  assumes node_rel: "n \<in> {VIEW_NODE, ENABLE_NODE, CONFIG_NODE} \<Longrightarrow> R s (s\<lparr>vty := (vty s)\<lparr>vnode := n\<rparr>\<rparr>)"
    and auth_rel: "h_enable (host s) \<noteq> None \<or> h_enable_encrypt (host s) \<noteq> None \<Longrightarrow>
      R s (s\<lparr>vty := (vty s)\<lparr>vnode := AUTH_ENABLE_NODE\<rparr>\<rparr>)"
begin

lemma does_set_node [step_intros]: "n \<in> {VIEW_NODE, ENABLE_NODE, CONFIG_NODE} \<Longrightarrow> does R (set_node n)"
  by (auto simp: does_def set_node_def node_rel)

lemma yields_node [step_intros]:
  "yields R (config_terminal env argv)" "yields R (disable env argv)" "yields R (config_exit env argv)"
  unfolding common_node_defs by (intro step_intros | simp)+

lemma yields_enable [step_intros]: "yields R (enable env argv)"
  by (auto simp: yields_def enable_def handler_defs set_node_def node_rel auth_rel split: if_splits)

end

end
