(* ===== verification/Cmd_Tool.thy ===== *)
theory Cmd_Tool
  imports Shell_State
begin

text \<open>
  The tools (\<open>cmd/cmd_tool.c\<close>): \<open>ping\<close>, \<open>ssh\<close>, \<open>tcpdump\<close>, reboot and
  power off. One definition per handler, the command elements and the function that installs them.
\<close>

section \<open>Handlers\<close>

definition config_sh :: "env \<Rightarrow> string list \<Rightarrow> 'f handler" where
  "config_sh env argv =
     (case argv of
        magic # _ \<Rightarrow>
          if strcmp magic ''shell'' \<noteq> 0 then
            block [vty_out (''% Invalid magic value.'' @ NL)] (fin CMD_ERR_NOTHING_TODO)
          else block [csystem env ''/bin/ash''] (fin CMD_SUCCESS)
      | _ \<Rightarrow> undef)"

definition config_ping :: "env \<Rightarrow> string list \<Rightarrow> 'f handler" where
  "config_ping env argv = block [exec_command env ''ping'' 1 argv] (fin CMD_SUCCESS)"

definition config_ping_count :: "env \<Rightarrow> string list \<Rightarrow> 'f handler" where
  "config_ping_count env argv =
     (case argv of
        dest # num # _ \<Rightarrow>
          if \<not> digit_first num then
            block [vty_out (''% Invalid number '' @ quoted num @
                            '', Please input the count number'' @ NL)]
            (fin CMD_ERR_NOTHING_TODO)
          else block [exec_command env ''ping'' 3 [dest, ''-c'', num]] (fin CMD_SUCCESS)
      | _ \<Rightarrow> undef)"

definition config_ssh :: "env \<Rightarrow> string list \<Rightarrow> 'f handler" where
  "config_ssh env argv = block [exec_command env ''ssh'' 1 argv] (fin CMD_SUCCESS)"

definition config_ssh_port :: "env \<Rightarrow> string list \<Rightarrow> 'f handler" where
  "config_ssh_port env argv =
     (case argv of
        dest # port # _ \<Rightarrow> block [exec_command env ''ssh'' 3 [dest, ''-p'', port]] (fin CMD_SUCCESS)
      | _ \<Rightarrow> undef)"

text \<open>An answer is a yes if its first byte is \<open>y\<close>; no line at all is the same as a no here.\<close>

definition answer_yes :: "string option \<Rightarrow> bool" where
  "answer_yes ans = (case ans of None \<Rightarrow> False | Some l \<Rightarrow> l \<noteq> [] \<and> hd l = CHR ''y'')"

definition config_reboot :: "env \<Rightarrow> string list \<Rightarrow> 'f handler" where
  "config_reboot env argv =
     block [vty_out (''Do you really want to reboot the system? (y/n):'' @ NL)]
     (fgets_stdin env 1024 (\<lambda>xbuf.
        if answer_yes xbuf then
          block [vty_out (''System will be rebooted, please waiting...'' @ NL),
                 csystem env ''sync; sync; sleep 3; reboot -f &'']
          (exit_process 1)
        else fin CMD_SUCCESS))"

definition config_poweroff :: "env \<Rightarrow> string list \<Rightarrow> 'f handler" where
  "config_poweroff env argv =
     block [vty_out (''Do you really want to power off the system? (y/n):'' @ NL)]
     (fgets_stdin env 1024 (\<lambda>xbuf.
        if answer_yes xbuf then
          block [vty_out (''System will be shutdowned after 3 seconds...'' @ NL),
                 csystem env ''sync; sync; sleep 3; poweroff&'']
          (fin CMD_SUCCESS)
        else fin CMD_SUCCESS))"

definition config_sysinfo :: "env \<Rightarrow> string list \<Rightarrow> 'f handler" where
  "config_sysinfo env argv =
     block [vty_out (''please waiting ...'' @ NL), csystem env ''top -n 1 | head -n 10''] (fin 0)"

text \<open>Every dash of the expression becomes a blank, in place.\<close>

definition dashes_to_blanks :: "string \<Rightarrow> string" where
  "dashes_to_blanks s = map (\<lambda>c. if c = CHR ''-'' then CHR '' '' else c) s"

definition config_tcpdump :: "env \<Rightarrow> string list \<Rightarrow> 'f handler" where
  "config_tcpdump env argv =
     (case argv of
        interface # expression # _ \<Rightarrow>
          cmd_execute_system_command env ''tcpdump'' 7
            [''-i'', interface, ''-n'', ''-Z'', RUN_USER, ''-XX'', dashes_to_blanks expression]
      | _ \<Rightarrow> undef)"

definition show_date :: "env \<Rightarrow> string list \<Rightarrow> 'f handler" where
  "show_date env argv = cmd_execute_system_command env ''date'' 0 argv"

definition net_netstat_info :: "env \<Rightarrow> string list \<Rightarrow> 'f handler" where
  "net_netstat_info env argv = cmd_execute_system_command env ''netstat'' 2 [''-n'', ''-a'']"

section \<open>Elements\<close>

definition config_sh_cmd :: "command cmd_element" where
  "config_sh_cmd = defun
     ''end WORD''
     (Tool F_config_sh)
     (''End a cli'' @ NL @ ''End a cli'' @ NL)"

definition config_ping_cmd :: "command cmd_element" where
  "config_ping_cmd = defun
     ''ping WORD''
     (Tool F_config_ping)
     (''Send echo messages'' @ NL @ ''Ping destination address or hostname'' @ NL)"

definition config_ping_cmd_count :: "command cmd_element" where
  "config_ping_cmd_count = defun
     ''ping WORD NUM''
     (Tool F_config_ping_count)
     (''send count echo messages'' @ NL @ ''Ping destination address or hostname'' @ NL @
       ''Stop after sending NUM ECHO_REQUEST packets'' @ NL)"

definition config_ssh_cmd :: "command cmd_element" where
  "config_ssh_cmd = defun
     ''ssh WORD''
     (Tool F_config_ssh)
     (''Open a ssh connection'' @ NL @ ''UserID@IP address or hostname of a remote system'' @ NL)"

definition config_ssh_port_cmd :: "command cmd_element" where
  "config_ssh_port_cmd = defun
     ''ssh WORD PORT''
     (Tool F_config_ssh_port)
     (''Open a ssh connection'' @ NL @ ''UserID@IP address or hostname of a remote system'' @ NL @
       ''SSH Port number'' @ NL)"

definition config_reboot_cmd :: "command cmd_element" where
  "config_reboot_cmd = defun
     ''reboot''
     (Tool F_config_reboot)
     (''Reboot the system'' @ NL @ ''Reboot the system'' @ NL)"

definition config_poweroff_cmd :: "command cmd_element" where
  "config_poweroff_cmd = defun
     ''poweroff''
     (Tool F_config_poweroff)
     (''Power off the system'' @ NL @ ''Power off the system'' @ NL)"

definition config_sysinfo_cmd :: "command cmd_element" where
  "config_sysinfo_cmd = defun
     ''show sysinfo''
     (Tool F_config_sysinfo)
     (SHOW_STR @ ''display the system info'' @ NL)"

definition config_tcpdump_cmd :: "command cmd_element" where
  "config_tcpdump_cmd = defun
     ''tcpdump INTERFACE EXPRESSION''
     (Tool F_config_tcpdump)
     (''Tcpdump packet '' @ NL @ ''the interface name'' @ NL @
       ''expression, example:\"port 80 and host 192.168.0.1\"'')"

definition show_date_cmd :: "command cmd_element" where
  "show_date_cmd = defun
     ''show date''
     (Tool F_show_date)
     (SHOW_STR @ ''Displays the current date'' @ NL)"

definition net_netstat_info_cmd :: "command cmd_element" where
  "net_netstat_info_cmd = defun
     ''netstat''
     (Tool F_net_netstat_info)
     (''show netstat'' @ NL @ ''Params Ctrl+C stop'' @ NL)"

definition tool_elements :: "(node_type \<times> command cmd_element) list" where
  "tool_elements =
    [(VIEW_NODE, config_ping_cmd),
     (VIEW_NODE, config_ping_cmd_count),
     (VIEW_NODE, config_ssh_cmd),
     (VIEW_NODE, config_ssh_port_cmd),
     (ENABLE_NODE, config_ping_cmd),
     (ENABLE_NODE, config_ping_cmd_count),
     (ENABLE_NODE, config_ssh_cmd),
     (ENABLE_NODE, config_ssh_port_cmd),
     (ENABLE_NODE, config_tcpdump_cmd),
     (ENABLE_NODE, net_netstat_info_cmd),
     (ENABLE_NODE, config_sysinfo_cmd),
     (ENABLE_NODE, show_date_cmd),
     (CONFIG_NODE, config_ping_cmd),
     (CONFIG_NODE, config_ping_cmd_count),
     (CONFIG_NODE, config_reboot_cmd),
     (CONFIG_NODE, config_poweroff_cmd),
     (CONFIG_NODE, config_ssh_cmd),
     (CONFIG_NODE, config_ssh_port_cmd),
     (CONFIG_NODE, show_date_cmd),
     (CONFIG_NODE, config_sh_cmd)]"

definition cmd_tool_init :: "command cmdvec \<Rightarrow> command cmdvec outcome" where
  "cmd_tool_init = install_all tool_elements"

lemmas tool_element_defs =
  config_sh_cmd_def config_ping_cmd_def config_ping_cmd_count_def config_ssh_cmd_def
  config_ssh_port_cmd_def config_reboot_cmd_def config_poweroff_cmd_def config_sysinfo_cmd_def
  config_tcpdump_cmd_def show_date_cmd_def net_netstat_info_cmd_def

lemmas tool_defs = config_sh_def config_ping_def config_ping_count_def config_ssh_def config_ssh_port_def
  config_reboot_def config_poweroff_def config_sysinfo_def config_tcpdump_def show_date_def
  net_netstat_info_def

section \<open>Relations the handlers respect\<close>

context effect_rel
begin

lemma yields_tool [step_intros]:
  "yields R (config_sh env argv)" "yields R (config_ping env argv)"
  "yields R (config_ping_count env argv)" "yields R (config_ssh env argv)"
  "yields R (config_ssh_port env argv)" "yields R (config_reboot env argv)"
  "yields R (config_poweroff env argv)" "yields R (config_sysinfo env argv)"
  "yields R (config_tcpdump env argv)" "yields R (show_date env argv)"
  "yields R (net_netstat_info env argv)"
  unfolding tool_defs by (intro step_intros)+

end

end
