(* ===== verification/Cmd_Ip.thy ===== *)
theory Cmd_Ip
  imports Shell_State
begin

text \<open>
  The address, route and name server commands (\<open>cmd/cmd_ip.c\<close>): one definition per handler, the
  command elements and the function that installs them.
\<close>

section \<open>Handlers\<close>

definition show_ip_address :: "env \<Rightarrow> string list \<Rightarrow> 'f handler" where
  "show_ip_address env argv = cmd_execute_system_command env ''ip'' 1 [''addr'']"

definition show_ip_config :: "env \<Rightarrow> string list \<Rightarrow> 'f handler" where
  "show_ip_config env argv = cmd_execute_system_command env ''ifconfig'' 1 [''-a'']"

definition show_ip_config_name :: "env \<Rightarrow> string list \<Rightarrow> 'f handler" where
  "show_ip_config_name env argv = cmd_execute_system_command env ''ifconfig'' 1 argv"

definition show_ip_route :: "env \<Rightarrow> string list \<Rightarrow> 'f handler" where
  "show_ip_route env argv = cmd_execute_system_command env ''route'' 1 [''-n'']"

text \<open>The interface names that are accepted; of \<open>wg0\<close> and \<open>wg1\<close> only the left part is compared.\<close>

definition supported_interface :: "string \<Rightarrow> bool" where
  "supported_interface eth \<longleftrightarrow>
     \<not> (strcmp eth ''lan'' \<noteq> 0 \<and> strcmp eth ''wan'' \<noteq> 0 \<and>
        strncmp eth ''wg0'' 3 \<noteq> 0 \<and> strncmp eth ''wg1'' 3 \<noteq> 0)"

definition not_supported :: "string \<Rightarrow> 'f handler" where
  "not_supported eth =
     block [vty_out (''% Not supported interface('' @ eth @ '').'' @ NL)] (fin CMD_WARNING)"

definition reboot_note :: "string \<Rightarrow> 'f stmt" where
  "reboot_note eth = only_if (strcmp eth ''lan'' = 0)
     (vty_out (''You should reboot the system after '' @ quoted ''write'' @
               '' to apply your changes.'' @ NL))"

text \<open>\<open>uci set network.<section>.<option>='<value>'\<close>, with its output thrown away.\<close>

definition uci_set :: "string \<Rightarrow> string \<Rightarrow> string" where
  "uci_set option value = ''uci set '' @ option @ ''='' @ quoted value @ '' > /dev/null 2>&1''"

definition ip_address :: "env \<Rightarrow> string list \<Rightarrow> 'f handler" where
  "ip_address env argv =
     (case argv of
        eth # addr # nmask # _ \<Rightarrow>
          if \<not> supported_interface eth then not_supported eth
          else
            buf 1024 (''ip address '' @ eth) (\<lambda>line.
            block [del_line_byleft line]
            (buf 1024 (''ip address '' @ eth @ '' '' @ addr @ '' '' @ nmask) (\<lambda>line.
            block [add_line line []]
            (ensure_config (
              let finish =
                block [exec_command env ''ifconfig'' 4 [eth, addr, ''netmask'', nmask], reboot_note eth]
                (fin CMD_SUCCESS)
              in
              if strcmp eth ''lan'' = 0 then
                block [sysf env 1024 (uci_set ''network.lan.proto'' ''static''),
                       sysf env 1024 (uci_set ''network.lan.ipaddr'' addr),
                       sysf env 1024 (uci_set ''network.lan.netmask'' nmask),
                       sysf env 1024 ''uci commit network > /dev/null 2>&1'']
                finish
              else if strcmp eth ''wan'' = 0 then
                block [sysf env 1024 (uci_set ''network.wan.proto'' ''static''),
                       sysf env 1024 (uci_set ''network.wan.ipaddr'' addr),
                       sysf env 1024 (uci_set ''network.wan.netmask'' nmask),
                       sysf env 1024 ''uci commit network > /dev/null 2>&1'',
                       sysf env 1024 ''/etc/init.d/network restart > /dev/null 2>&1'']
                finish
              else if strncmp eth ''wg0'' 3 = 0 \<or> strncmp eth ''wg1'' 3 = 0 then finish
              else not_supported eth)))))
      | _ \<Rightarrow> undef)"

definition no_ip_address :: "env \<Rightarrow> string list \<Rightarrow> 'f handler" where
  "no_ip_address env argv =
     (case argv of
        eth # _ \<Rightarrow>
          if \<not> supported_interface eth then not_supported eth
          else
            block [vty_out (''Do you really want to down the ip address ? (y/n):'' @ NL)]
            (fgets_stdin env 1024 (\<lambda>ans.
              if ans \<noteq> None \<and> \<not> (the ans \<noteq> [] \<and> hd (the ans) = CHR ''y'') then
                block [vty_out (''no ip address '' @ eth @ '' cancelled.'' @ NL)] (fin CMD_SUCCESS)
              else
                buf 1024 (''ip address '' @ eth) (\<lambda>line.
                block [del_line_byleft line]
                (let finish =
                   block [exec_command env ''ifconfig'' 2 [eth, ''down''], reboot_note eth] (fin CMD_SUCCESS)
                 in
                 if strcmp eth ''lan'' = 0 then
                   block [sysf env 1024 ''uci delete network.lan.proto > /dev/null 2>&1'',
                          sysf env 1024 ''uci delete network.lan.ipaddr > /dev/null 2>&1'',
                          sysf env 1024 ''uci delete network.lan.netmask > /dev/null 2>&1'',
                          sysf env 1024 ''uci commit network > /dev/null 2>&1'']
                   finish
                 else if strcmp eth ''wan'' = 0 then
                   block [sysf env 1024 ''uci delete network.wan.proto > /dev/null 2>&1'',
                          sysf env 1024 ''uci delete network.wan.ipaddr > /dev/null 2>&1'',
                          sysf env 1024 ''uci delete network.wan.netmask > /dev/null 2>&1'',
                          sysf env 1024 ''uci commit network > /dev/null 2>&1'',
                          sysf env 1024 ''/etc/init.d/network restart > /dev/null 2>&1'']
                   finish
                 else if strncmp eth ''wg0'' 3 = 0 \<or> strncmp eth ''wg1'' 3 = 0 then finish
                 else not_supported eth))))
      | _ \<Rightarrow> undef)"

definition ip_address_dhcp :: "env \<Rightarrow> string list \<Rightarrow> 'f handler" where
  "ip_address_dhcp env argv =
     (case argv of
        eth # _ \<Rightarrow>
          if strcmp eth ''wan'' \<noteq> 0 then not_supported eth
          else
            buf 1024 (''ip address '' @ eth) (\<lambda>line.
            block [del_line_byleft line]
            (buf 1024 (''ip address '' @ eth @ '' dhcp'') (\<lambda>line.
            block [add_line line []]
            (ensure_config (
              if strcmp eth ''wan'' = 0 then
                block [sysf env 1024 ''uci delete network.wan.ipaddr > /dev/null 2>&1'',
                       sysf env 1024 ''uci delete network.wan.netmask > /dev/null 2>&1'',
                       sysf env 1024 ''uci set network.wan.proto=dhcp > /dev/null 2>&1'',
                       sysf env 1024 ''uci commit network > /dev/null 2>&1'',
                       sysf env 1024 ''/etc/init.d/network restart > /dev/null 2>&1'']
                (fin CMD_SUCCESS)
              else fin CMD_SUCCESS)))))
      | _ \<Rightarrow> undef)"

definition ip_route :: "env \<Rightarrow> string list \<Rightarrow> 'f handler" where
  "ip_route env argv =
     (case argv of
        dest # nmask # gw # eth # _ \<Rightarrow>
          if \<not> supported_interface eth then not_supported eth
          else
            buf 1024 (''ip route '' @ dest @ '' '' @ nmask @ '' '' @ gw @ '' '' @ eth) (\<lambda>line.
            block [del_line line, add_line line []]
            (ensure_config (
            block [sysf env 1024 ''uci add network route > /dev/null 2>&1'',
                   sysf env 1024 (uci_set ''network.@route[-1].interface'' eth),
                   sysf env 1024 (uci_set ''network.@route[-1].target'' dest),
                   sysf env 1024 (uci_set ''network.@route[-1].netmask'' nmask),
                   sysf env 1024 (uci_set ''network.@route[-1].gateway'' gw),
                   sysf env 1024 ''uci commit network > /dev/null 2>&1'',
                   sysf env 1024 ''/etc/init.d/network restart > /dev/null 2>&1'']
            (fin CMD_SUCCESS))))
      | _ \<Rightarrow> undef)"

definition no_ip_route :: "env \<Rightarrow> string list \<Rightarrow> 'f handler" where
  "no_ip_route env argv =
     (case argv of
        dest # nmask # _ \<Rightarrow>
          buf 1024 (''ip route '' @ dest @ '' '' @ nmask) (\<lambda>line.
          block [del_line_byleft line,
                 sysf env 1024 ''uci delete network.@route[-1] > /dev/null 2>&1'',
                 sysf env 1024 ''uci commit network > /dev/null 2>&1'',
                 sysf env 1024 ''/etc/init.d/network restart > /dev/null 2>&1'']
          (fin CMD_SUCCESS))
      | _ \<Rightarrow> undef)"

definition RESOLV_CONF :: string where
  "RESOLV_CONF = ''/etc/resolv.conf''"

definition resolv_error :: "'f handler" where
  "resolv_error = block [vty_out (''open the resolv.conf error'' @ NL)] (fin CMD_ERR_NOTHING_TODO)"

definition config_dns :: "env \<Rightarrow> string list \<Rightarrow> 'f handler" where
  "config_dns env argv =
     (case argv of
        dns1 # dns2 # _ \<Rightarrow>
          block [del_line_byleft ''nameserver'', add_line ''nameserver %s %s'' [dns1, dns2]]
          (ensure_config (
          fopen_w env RESOLV_CONF (\<lambda>fp.
            if \<not> fp then resolv_error
            else block [fprintf RESOLV_CONF (''nameserver '' @ dns1 @ NL),
                        fprintf RESOLV_CONF (''nameserver '' @ dns2 @ NL)]
                 (fin CMD_SUCCESS))))
      | _ \<Rightarrow> undef)"

definition config_no_dns :: "env \<Rightarrow> string list \<Rightarrow> 'f handler" where
  "config_no_dns env argv =
     block [del_line_byleft ''nameserver'']
     (ensure_config (
     fopen_w env RESOLV_CONF (\<lambda>fp.
       if \<not> fp then resolv_error
       else block [fprintf RESOLV_CONF (''nameserver 127.0.0.1'' @ NL)] (fin CMD_SUCCESS))))"

section \<open>Elements\<close>

definition show_ip_address_cmd :: "command cmd_element" where
  "show_ip_address_cmd = defun
     ''show ip address''
     (Ip F_show_ip_address)
     (SHOW_STR @ IP_STR @ ''IP address list'' @ NL)"

definition show_ip_config_cmd :: "command cmd_element" where
  "show_ip_config_cmd = defun
     ''show ip config''
     (Ip F_show_ip_config)
     (SHOW_STR @ IP_STR @ ''IP config'' @ NL)"

definition show_ip_config_name_cmd :: "command cmd_element" where
  "show_ip_config_name_cmd = defun
     ''show ip config WORD''
     (Ip F_show_ip_config_name)
     (SHOW_STR @ IP_STR @ ''IP config name'' @ NL @ ''the interface name'' @ NL)"

definition show_ip_route_cmd :: "command cmd_element" where
  "show_ip_route_cmd = defun
     ''show ip route''
     (Ip F_show_ip_route)
     (SHOW_STR @ IP_STR @ ''IP routing table'' @ NL)"

definition ip_address_cmd :: "command cmd_element" where
  "ip_address_cmd = defun
     ''ip address ETHNAME A.B.C.D A.B.C.D''
     (Ip F_ip_address)
     (IP_STR @ ''config the ip address'' @ NL @ ''interface name(lan|wan|wg0|wg1)'' @ NL @
       ''ip address e.g. x.x.x.x'' @ NL @ ''ip netmask  e.g. 255.255.0.0'' @ NL)"

definition no_ip_address_cmd :: "command cmd_element" where
  "no_ip_address_cmd = defun
     ''no ip address ETHNAME''
     (Ip F_no_ip_address)
     (NO_STR @ IP_STR @ ''Disable the ip address'' @ NL @ ''config the ip address'' @ NL @
       ''interface name(lan|wan|wg0|wg1)'' @ NL)"

definition ip_address_dhcp_cmd :: "command cmd_element" where
  "ip_address_dhcp_cmd = defun
     ''ip address ETHNAME dhcp''
     (Ip F_ip_address_dhcp)
     (IP_STR @ ''config the ip address'' @ NL @ ''interface name(wan)'' @ NL @ ''DHCP mode'' @ NL)"

definition ip_route_cmd :: "command cmd_element" where
  "ip_route_cmd = defun
     ''ip route A.B.C.D A.B.C.D A.B.C.D ETHNAME''
     (Ip F_ip_route)
     (IP_STR @ ''config the ip route(temporary)'' @ NL @ ''Destination address'' @ NL @
       ''Destination adress netmask e.g. 255.255.255.0'' @ NL @ ''Nexthot address'' @ NL @
       ''interface name(lan or wan)'' @ NL)"

definition no_ip_route_cmd :: "command cmd_element" where
  "no_ip_route_cmd = defun
     ''no ip route A.B.C.D A.B.C.D''
     (Ip F_no_ip_route)
     (NO_STR @ IP_STR @ ''Disable the ip route'' @ NL @ ''Destination address'' @ NL @
       ''Destination adress netmask e.g. 255.255.255.0'' @ NL)"

definition config_dns_cmd :: "command cmd_element" where
  "config_dns_cmd = defun
     ''nameserver A.B.C.D A.B.C.D''
     (Ip F_config_dns)
     (''Config the dns server'' @ NL @ ''the first dns server ip'' @ NL @
       ''the second dns server ip'' @ NL)"

definition config_no_dns_cmd :: "command cmd_element" where
  "config_no_dns_cmd = defun
     ''no nameserver''
     (Ip F_config_no_dns)
     (NO_STR @ ''Remove the dns server'' @ NL)"

definition ip_elements :: "(node_type \<times> command cmd_element) list" where
  "ip_elements =
    [(ENABLE_NODE, show_ip_address_cmd),
     (ENABLE_NODE, show_ip_config_cmd),
     (ENABLE_NODE, show_ip_config_name_cmd),
     (ENABLE_NODE, show_ip_route_cmd),
     (CONFIG_NODE, show_ip_address_cmd),
     (CONFIG_NODE, show_ip_config_cmd),
     (CONFIG_NODE, show_ip_config_name_cmd),
     (CONFIG_NODE, show_ip_route_cmd),
     (CONFIG_NODE, ip_address_cmd),
     (CONFIG_NODE, no_ip_address_cmd),
     (CONFIG_NODE, ip_address_dhcp_cmd),
     (CONFIG_NODE, ip_route_cmd),
     (CONFIG_NODE, no_ip_route_cmd),
     (CONFIG_NODE, config_dns_cmd),
     (CONFIG_NODE, config_no_dns_cmd)]"

definition cmd_ip_init :: "command cmdvec \<Rightarrow> command cmdvec outcome" where
  "cmd_ip_init = install_all ip_elements"

lemmas ip_element_defs =
  show_ip_address_cmd_def show_ip_config_cmd_def show_ip_config_name_cmd_def show_ip_route_cmd_def
  ip_address_cmd_def no_ip_address_cmd_def ip_address_dhcp_cmd_def ip_route_cmd_def
  no_ip_route_cmd_def config_dns_cmd_def config_no_dns_cmd_def

lemmas ip_defs = show_ip_address_def show_ip_config_def show_ip_config_name_def show_ip_route_def
  not_supported_def reboot_note_def ip_address_def no_ip_address_def ip_address_dhcp_def ip_route_def
  no_ip_route_def resolv_error_def config_dns_def config_no_dns_def

section \<open>Relations the handlers respect\<close>

context effect_rel
begin

lemma yields_show_ip [step_intros]:
  "yields R (show_ip_address env argv)" "yields R (show_ip_config env argv)"
  "yields R (show_ip_config_name env argv)" "yields R (show_ip_route env argv)"
  unfolding ip_defs by (intro step_intros)+

end

context config_rel
begin

lemma yields_ip [step_intros]:
  "yields R (ip_address env argv)" "yields R (no_ip_address env argv)"
  "yields R (ip_address_dhcp env argv)" "yields R (ip_route env argv)"
  "yields R (no_ip_route env argv)" "yields R (config_dns env argv)" "yields R (config_no_dns env argv)"
  unfolding ip_defs by (intro step_intros)+

end

end
