(* ===== verification/Cmd_Firewall.thy ===== *)
theory Cmd_Firewall
  imports Shell_State
begin

text \<open>
  The firewall commands (\<open>cmd/cmd_fw.c\<close>): the checks of port map and filter rules, the two
  generators that turn stored rules into files of the firewall, the command elements and the function
  that installs them. Calls of \<open>fprintf\<close> to the same file that follow each other are one
  \<open>Write\<close> event here.
\<close>

section \<open>Applying the rules\<close>

text \<open>\<open>if (stat (file, &sb) != 0) system (command);\<close>\<close>

definition unless_exists :: "env \<Rightarrow> string \<Rightarrow> string \<Rightarrow> 'f handler \<Rightarrow> 'f handler" where
  "unless_exists env file command k =
     stat_file env file (\<lambda>found. block [only_if (\<not> found) (csystem env command)] k)"

definition apply_firewall_rules :: "env \<Rightarrow> 'f handler \<Rightarrow> 'f handler" where
  "apply_firewall_rules env k =
     unless_exists env ''/etc/config/firewall.ORG''
       ''cp /etc/config/firewall /etc/config/firewall.ORG > /dev/null 2>&1''
    (unless_exists env ''/etc/config/sfirewall_filter'' ''touch /etc/config/sfirewall_filter > /dev/null 2>&1''
    (unless_exists env ''/etc/config/sfirewall_mac'' ''touch /etc/config/sfirewall_mac > /dev/null 2>&1''
    (unless_exists env ''/etc/config/sfirewall_nat'' ''touch /etc/config/sfirewall_nat > /dev/null 2>&1''
    (block [csystem env (''cat /etc/config/sfirewall_filter /etc/config/sfirewall_mac '' @
                         ''/etc/config/sfirewall_nat > /tmp/sfirewall''),
            csystem env ''mv /tmp/sfirewall /etc/config > /dev/null 2>&1'',
            csystem env ''cat /etc/config/firewall.ORG /etc/config/sfirewall > /tmp/firewall'',
            csystem env ''mv /tmp/firewall /etc/config > /dev/null 2>&1'',
            csystem env ''uci commit firewall > /dev/null 2>&1'',
            csystem env ''/etc/init.d/firewall restart > /dev/null 2>&1'']
     k))))"

section \<open>Port map rules\<close>

definition fw_error :: "string \<Rightarrow> string \<Rightarrow> 'f handler" where
  "fw_error what arg = block [vty_out (what @ quoted arg @ NL)] (fin CMD_ERR_NOTHING_TODO)"

definition portmap_check :: "string list \<Rightarrow> (string \<Rightarrow> 'f handler) \<Rightarrow> 'f handler" where
  "portmap_check argv ok =
     (case argv of
        num # zone # ip # proto # port1 # port2 # _ \<Rightarrow>
          if \<not> digit_first num then fw_error ''% Invalid format '' num
          else if strcmp proto ''all'' = 0 \<and> strcmp port1 ''0'' \<noteq> 0 then
            fw_error ''% Invalid port number '' port1
          else if strcmp proto ''all'' = 0 \<and> strcmp port2 ''0'' \<noteq> 0 then
            fw_error ''% Invalid port number '' port2
          else
            buf 1024 (''sfirewall nat portmap '' @ num @ '' '' @ zone @ '' '' @ ip @ '' '' @ proto @
                      '' '' @ port1 @ '' '' @ port2) ok
      | _ \<Rightarrow> undef)"

definition sfirewall_nat_portmap :: "env \<Rightarrow> string list \<Rightarrow> 'f handler" where
  "sfirewall_nat_portmap env argv =
     portmap_check argv (\<lambda>line. block [del_line line, add_line line []] (ensure_config (fin 0)))"

definition no_sfirewall_nat_portmap :: "env \<Rightarrow> string list \<Rightarrow> 'f handler" where
  "no_sfirewall_nat_portmap env argv =
     portmap_check argv (\<lambda>line. block [del_line line] (ensure_config (fin 0)))"

text \<open>
  Copying the next \<open>n\<close> tokens of \<open>strtok\<close> into arrays of \<open>sz\<close> bytes: \<open>None\<close>
  is the \<open>continue\<close> when the tokens run out.
\<close>

fun take_params :: "nat \<Rightarrow> nat \<Rightarrow> string list \<Rightarrow> string list option outcome" where
  "take_params 0 sz toks = Ret (Some [])"
| "take_params (Suc n) sz [] = Ret None"
| "take_params (Suc n) sz (t # toks) =
     obind (sprintf sz t) (\<lambda>p. omap (map_option (Cons p)) (take_params n sz toks))"

text \<open>
  A line of a rule file, without its last byte; if it starts with the keyword, the parameters that
  follow it.
\<close>

definition rule_params :: "string \<Rightarrow> nat \<Rightarrow> nat \<Rightarrow> string \<Rightarrow> string list option outcome" where
  "rule_params keyword n sz line =
     obind (cut_last (cstr line)) (\<lambda>xbuf.
       if strncmp xbuf keyword (length keyword) = 0
       then take_params n sz (strtok_all (CHR '' '') (drop (length keyword + 1) xbuf))
       else Ret None)"

definition portmap_rule :: "string list \<Rightarrow> string" where
  "portmap_rule param =
     ''config redirect'' @ NL @
     ''       option target          '' @ quoted ''DNAT'' @ NL @
     ''       option src             '' @ quoted (param ! 1) @ NL @
     ''       option dest            '' @ quoted ''lan'' @ NL @
     ''       option proto           '' @ quoted (param ! 3) @ NL @
     (if strcmp (param ! 4) ''0'' \<noteq> 0
      then ''       option src_dport       '' @ quoted (param ! 4) @ NL else []) @
     ''       option dest_ip         '' @ quoted (param ! 2) @ NL @
     (if strcmp (param ! 5) ''0'' \<noteq> 0
      then ''       option dest_port       '' @ quoted (param ! 5) @ NL else []) @
     ''       option enabled         '' @ quoted ''1'' @ NL @ NL"

fun portmap_rules :: "string list \<Rightarrow> string outcome" where
  "portmap_rules [] = Ret []"
| "portmap_rules (line # ls) =
     obind (rule_params ''sfirewall nat portmap'' 6 32 line) (\<lambda>p.
       case p of
         None \<Rightarrow> portmap_rules ls
       | Some param \<Rightarrow> omap (append (portmap_rule param)) (portmap_rules ls))"

text \<open>
  The frame of the two generators: the rule file is opened for writing and gets an empty line, the
  source file is read, and the rules are written and applied.
\<close>

definition generate_rules ::
    "env \<Rightarrow> string \<Rightarrow> string \<Rightarrow> (string list \<Rightarrow> string outcome) \<Rightarrow> 'f handler" where
  "generate_rules env wfile rfile gen =
     fopen_w env wfile (\<lambda>wfp.
       if \<not> wfp then fin CMD_WARNING
       else
         block [fprintf wfile NL]
         (fopen_r env rfile (\<lambda>rfp.
           case rfp of
             None \<Rightarrow> fin CMD_WARNING
           | Some c \<Rightarrow>
               (case gen (fgets_all 1024 c) of
                  Ret rules \<Rightarrow> block [fprintf wfile rules] (apply_firewall_rules env (fin CMD_SUCCESS))
                | _ \<Rightarrow> undef))))"

definition sfirewall_nat_portmap_apply :: "env \<Rightarrow> string list \<Rightarrow> 'f handler" where
  "sfirewall_nat_portmap_apply env argv =
     generate_rules env ''/etc/config/sfirewall_nat'' (CONFIG_DIR @ ''/'' @ ''portmap.txt'') portmap_rules"

section \<open>Filter rules\<close>

definition not_supported_option :: "string \<Rightarrow> 'f handler" where
  "not_supported_option arg =
     block [vty_out (''% Not supported option('' @ arg @ '').'' @ NL)] (fin CMD_WARNING)"

definition check_port :: "string \<Rightarrow> 'f handler \<Rightarrow> 'f handler" where
  "check_port port ok =
     (if strcmp port ''any'' = 0 then ok
      else if \<not> digit_first port then fw_error ''% Invalid port number '' port
      else if atoi port \<le> 0 \<or> atoi port > 65535 then fw_error ''% Invalid port number '' port
      else ok)"

definition check_cidr :: "string \<Rightarrow> 'f handler \<Rightarrow> 'f handler" where
  "check_cidr ip ok =
     (if \<not> digit_first ip then fw_error ''% Invalid ip address '' ip
      else
        buf 256 ip (\<lambda>sip.
          case strchr sip (CHR ''/'') of
            Some s \<Rightarrow> if length s > 3 then fw_error ''% Invalid netmask '' (tl s) else ok
          | None \<Rightarrow> fw_error ''% Invalid ip address/netmask '' ip))"

definition check_day :: "string \<Rightarrow> 'f handler \<Rightarrow> 'f handler" where
  "check_day day ok =
     (if strcmp day ''any'' = 0 then ok
      else
        buf 128 day (\<lambda>d.
          let toks = strtok_all (CHR ''|'') d in
          if list_ex (\<lambda>s. length s > 3 \<or> length s < 3) toks then fw_error ''% Invalid day value '' day
          else if length toks > 7 then fw_error ''% Invalid day value '' day
          else ok))"

definition check_time :: "string \<Rightarrow> 'f handler \<Rightarrow> 'f handler" where
  "check_time t ok =
     (if strcmp t ''any'' = 0 then ok
      else
        buf 128 t (\<lambda>d.
          case strtok_all (CHR '':'') d of
            [] \<Rightarrow> fw_error ''% Invalid time value '' t
          | hour # rest \<Rightarrow>
              if length hour > 2 \<or> length hour < 2 then fw_error ''% Invalid time value '' t
              else if atoi hour > 23 \<or> atoi hour < 0 then fw_error ''% Invalid time(hour) value '' t
              else
                (case rest of
                   [] \<Rightarrow> fw_error ''% Invalid time value '' t
                 | minute # _ \<Rightarrow>
                     if length minute > 2 \<or> length minute < 2 then fw_error ''% Invalid time value '' t
                     else if atoi minute > 59 \<or> atoi minute < 0 then
                       fw_error ''% Invalid time(minute) value '' t
                     else ok)))"

definition filter_check :: "string list \<Rightarrow> 'f handler \<Rightarrow> 'f handler" where
  "filter_check argv ok =
     (case argv of
        num # zone # dir # pos # action # proto # sip # sport # dip # dport # day # from # till # _ \<Rightarrow>
          if \<not> digit_first num then fw_error ''% Invalid format '' num
          else if zone \<notin> set [''lan2wan'', ''wan2lan''] then not_supported_option zone
          else if dir \<notin> set [''in'', ''out'', ''fw''] then not_supported_option dir
          else if pos \<notin> set [''insert'', ''append''] then not_supported_option pos
          else if action \<notin> set [''permit'', ''deny'', ''reject''] then not_supported_option action
          else
            check_port sport (check_port dport (check_cidr sip (check_cidr dip
              (check_day day (check_time from (check_time till ok))))))
      | _ \<Rightarrow> undef)"

text \<open>The configuration line of a filter rule: its 13 arguments.\<close>

definition filter_line :: "string list \<Rightarrow> string" where
  "filter_line argv = ''sfirewall filter '' @ join (CHR '' '') (take 13 argv)"

definition sfirewall_filter_rules :: "env \<Rightarrow> string list \<Rightarrow> 'f handler" where
  "sfirewall_filter_rules env argv =
     filter_check argv (
       let store =
         buf 1024 (filter_line argv) (\<lambda>line.
         block [del_line line, add_line line []] (ensure_config (fin 0)))
       in
       if strcmp (argv ! 3) ''append'' = 0 then
         buf 1024 (filter_line (argv[3 := ''insert''])) (\<lambda>line. block [del_line line] store)
       else if strcmp (argv ! 3) ''insert'' = 0 then
         buf 1024 (filter_line (argv[3 := ''append''])) (\<lambda>line. block [del_line line] store)
       else store)"

definition no_sfirewall_filter_rules :: "env \<Rightarrow> string list \<Rightarrow> 'f handler" where
  "no_sfirewall_filter_rules env argv =
     filter_check argv (
       buf 1024 (filter_line argv) (\<lambda>line. block [del_line line] (ensure_config (fin 0))))"

definition action_name :: "nat \<Rightarrow> string" where
  "action_name i = [''ACCEPT'', ''DROP'', ''REJECT''] ! i"

text \<open>\<open>action_index\<close> keeps its value when the word is none of the three.\<close>

definition action_index :: "string \<Rightarrow> nat \<Rightarrow> nat" where
  "action_index action i =
     (if strcmp action ''permit'' = 0 then 0
      else if strcmp action ''deny'' = 0 then 1
      else if strcmp action ''reject'' = 0 then 2
      else i)"

definition bars_to_blanks :: "string \<Rightarrow> string" where
  "bars_to_blanks s = map (\<lambda>c. if c = CHR ''|'' then CHR '' '' else c) s"

definition opt_line :: "string \<Rightarrow> string \<Rightarrow> string" where
  "opt_line name value = ''        option '' @ name @ '' '' @ quoted value @ NL"

definition filter_rule :: "string list \<Rightarrow> nat \<Rightarrow> nat \<Rightarrow> string" where
  "filter_rule param action count =
     (let days = bars_to_blanks (param ! 10) in
     ''config rule'' @ NL @
     (if strcmp (param ! 1) ''lan2wan'' = 0 then opt_line ''src'' ''lan'' @ opt_line ''dest'' ''wan''
      else if strcmp (param ! 1) ''wan2lan'' = 0 then opt_line ''src'' ''wan'' @ opt_line ''dest'' ''lan''
      else []) @
     opt_line ''proto'' (param ! 5) @
     opt_line ''family'' ''ipv4'' @
     opt_line ''src_ip'' (param ! 6) @
     (if strcmp (param ! 7) ''any'' \<noteq> 0 then opt_line ''src_port'' (param ! 7) else []) @
     opt_line ''dest_ip'' (param ! 8) @
     (if strcmp (param ! 9) ''any'' \<noteq> 0 then opt_line ''dest_port'' (param ! 9) else []) @
     (if strcmp days ''any'' \<noteq> 0 then opt_line ''weekdays'' days else []) @
     (if strcmp (param ! 11) ''any'' \<noteq> 0
      then opt_line ''start_time'' (param ! 11) @ opt_line ''stop_time'' (param ! 12) else []) @
     opt_line ''target'' (action_name action) @
     opt_line ''name'' (''SFIREWALL_FILTER'' @ string_of_nat count) @
     opt_line ''enabled'' ''1'' @ NL)"

text \<open>The loop over the lines, with \<open>action_index\<close> and \<open>count\<close>.\<close>

fun filter_rules :: "nat \<Rightarrow> nat \<Rightarrow> string list \<Rightarrow> string outcome" where
  "filter_rules action count [] = Ret []"
| "filter_rules action count (line # ls) =
     obind (rule_params ''sfirewall filter'' 13 64 line) (\<lambda>p.
       case p of
         None \<Rightarrow> filter_rules action count ls
       | Some param \<Rightarrow>
           let action = action_index (param ! 4) action in
           omap (append (filter_rule param action count)) (filter_rules action (Suc count) ls))"

definition sfirewall_filter_rules_apply :: "env \<Rightarrow> string list \<Rightarrow> 'f handler" where
  "sfirewall_filter_rules_apply env argv =
     generate_rules env ''/etc/config/sfirewall_filter'' (CONFIG_DIR @ ''/'' @ ''filter.txt'') (filter_rules 0 0)"

definition show_sfirewall :: "env \<Rightarrow> string list \<Rightarrow> 'f handler" where
  "show_sfirewall env argv =
     (case argv of
        table # _ \<Rightarrow>
          if strcmp table ''all'' = 0 then block [csystem env ''iptables -n -v -L''] (fin CMD_SUCCESS)
          else if strcmp table ''nat'' = 0 then
            block [csystem env ''iptables -t nat -n -v -L''] (fin CMD_SUCCESS)
          else if strcmp table ''filter'' = 0 then
            block [csystem env ''iptables -t filter -n -v -L''] (fin CMD_SUCCESS)
          else if strcmp table ''mangle'' = 0 then
            block [csystem env ''iptables -t mangle -n -v -L''] (fin CMD_SUCCESS)
          else fin CMD_SUCCESS
      | _ \<Rightarrow> undef)"

section \<open>Elements\<close>

definition sfirewall_nat_portmap_cmd :: "command cmd_element" where
  "sfirewall_nat_portmap_cmd = defun
     ''sfirewall nat portmap NUM (vpn|wan) A.B.C.D (tcp|udp|all) PORT PORT''
     (Fw F_sfirewall_nat_portmap)
     (''Configure smart firewall rules'' @ NL @ ''Add NAT rules'' @ NL @ ''Port forwarding'' @ NL @
       ''Index number(Rule order) e.g. 10'' @ NL @ ''VPN interface(e.g. wg0)'' @ NL @
       ''WAN interface'' @ NL @ ''Internal ip address e.g. 192.168.5.200'' @ NL @
       ''TCP Protocol'' @ NL @ ''UDP Protocol'' @ NL @ ''All(tcp/udp/icmp) Protocols'' @ NL @
       ''port1 e.g. 8080 or 0(= any port)'' @ NL @ ''port2 e.g. 80 or 0(= any port)'' @ NL)"

definition no_sfirewall_nat_portmap_cmd :: "command cmd_element" where
  "no_sfirewall_nat_portmap_cmd = defun
     ''no sfirewall nat portmap NUM (vpn|wan) A.B.C.D (tcp|udp|all) PORT PORT''
     (Fw F_no_sfirewall_nat_portmap)
     (NO_STR @ ''Configure smart firewall rules'' @ NL @ ''Add NAT rules'' @ NL @
       ''Port forwarding'' @ NL @ ''Index number(Rule order) e.g. 10'' @ NL @
       ''VPN interface(e.g. wg0)'' @ NL @ ''WAN interface'' @ NL @
       ''Internal ip address e.g. 192.168.5.200'' @ NL @ ''TCP Protocol'' @ NL @
       ''UDP Protocol'' @ NL @ ''All(tcp/udp/icmp) Protocols'' @ NL @
       ''port e.g. 8080 or 0(= any port)'' @ NL @ ''port e.g. 80 or 0(= any port)'' @ NL)"

definition sfirewall_nat_portmap_apply_cmd :: "command cmd_element" where
  "sfirewall_nat_portmap_apply_cmd = defun
     ''sfirewall nat portmap apply''
     (Fw F_sfirewall_nat_portmap_apply)
     (''Configure smart firewall rules'' @ NL @ ''Add NAT rules'' @ NL @ ''Port forwarding'' @ NL @
       ''Apply'' @ NL)"

definition sfirewall_filter_rules_cmd :: "command cmd_element" where
  "sfirewall_filter_rules_cmd = defun
     ''sfirewall filter NUM (lan2wan|wan2lan) (in|out|fw) (insert|append) (permit|deny|reject) (tcp|udp|icmp) A.B.C.D/E PORT A.B.C.D/E PORT DAY FROMTIME TOTIME''
     (Fw F_sfirewall_filter_rules)
     (''Configure smart firewall rules'' @ NL @ ''Add filter rules'' @ NL @
       ''Index number(Rule order) e.g. 10'' @ NL @ ''from lan to wan zone'' @ NL @
       ''from wan to lan zone'' @ NL @ ''Input direction'' @ NL @ ''Output direction'' @ NL @
       ''Forward direction'' @ NL @ ''Insert at the front'' @ NL @ ''Append to the back'' @ NL @
       ''Permit'' @ NL @ ''Deny'' @ NL @ ''Reject'' @ NL @ ''TCP Protocol'' @ NL @
       ''UDP Protocol'' @ NL @ ''ICMP Protocol'' @ NL @
       ''Source ip address/netmask(CIDR) e.g. 192.168.5.200/32'' @ NL @
       ''Source port e.g. 8080 or any'' @ NL @
       ''Destination ip address/netmask(CIDR) e.g. 0.0.0.0/0'' @ NL @
       ''Destination port e.g. 80'' @ NL @
       ''Limit day e.g. mon|tue|wed|thu|fri|sat|sun or any'' @ NL @
       ''Start(from) time(00:00 ~ 23:59) e.g. 09:00 or any'' @ NL @
       ''Stop(to) time(00:00 ~ 23:59) e.g. 21:00 or any'' @ NL)"

definition no_sfirewall_filter_rules_cmd :: "command cmd_element" where
  "no_sfirewall_filter_rules_cmd = defun
     ''no sfirewall filter NUM (lan2wan|wan2lan) (in|out|fw) (insert|append) (permit|deny|reject) (tcp|udp|icmp) A.B.C.D/E PORT A.B.C.D/E PORT DAY FROMTIME TOTIME''
     (Fw F_no_sfirewall_filter_rules)
     (NO_STR @ ''Configure smart firewall rules'' @ NL @ ''Add filter rules'' @ NL @
       ''Index number(Rule order) e.g. 10'' @ NL @ ''from lan to wan zone'' @ NL @
       ''from wan to lan zone'' @ NL @ ''Input direction'' @ NL @ ''Output direction'' @ NL @
       ''Forward direction'' @ NL @ ''Insert at the front'' @ NL @ ''Append to the back'' @ NL @
       ''Permit'' @ NL @ ''Deny'' @ NL @ ''Reject'' @ NL @ ''TCP Protocol'' @ NL @
       ''UDP Protocol'' @ NL @ ''ICMP Protocol'' @ NL @
       ''Source ip address/netmask(CIDR) e.g. 192.168.5.200/32'' @ NL @
       ''Source port e.g. 8080 or any'' @ NL @
       ''Destination ip address/netmask(CIDR) e.g. 0.0.0.0/0'' @ NL @
       ''Destination port e.g. 80'' @ NL @
       ''Limit day e.g. mon|tue|wed|thu|fri|sat|sun or any'' @ NL @
       ''Start(from) time(00:00 ~ 23:59) e.g. 09:00 or any'' @ NL @
       ''Stop(to) time(00:00 ~ 23:59) e.g. 21:00 or any'' @ NL)"

definition sfirewall_filter_rules_apply_cmd :: "command cmd_element" where
  "sfirewall_filter_rules_apply_cmd = defun
     ''sfirewall filter apply''
     (Fw F_sfirewall_filter_rules_apply)
     (''Configure smart firewall rules'' @ NL @ ''Add filter rules'' @ NL @ ''Apply'' @ NL)"

definition show_sfirewall_cmd :: "command cmd_element" where
  "show_sfirewall_cmd = defun
     ''show sfirewall (all|nat|filter|mangle)''
     (Fw F_show_sfirewall)
     (SHOW_STR @ ''show smart firewall rules'' @ NL @ ''show all rules'' @ NL @
       ''show NAT rules'' @ NL @ ''show filter rules'' @ NL @ ''show mangle rules'' @ NL)"

definition firewall_elements :: "(node_type \<times> command cmd_element) list" where
  "firewall_elements =
    [(CONFIG_NODE, sfirewall_nat_portmap_cmd),
     (CONFIG_NODE, no_sfirewall_nat_portmap_cmd),
     (CONFIG_NODE, sfirewall_nat_portmap_apply_cmd),
     (CONFIG_NODE, sfirewall_filter_rules_cmd),
     (CONFIG_NODE, no_sfirewall_filter_rules_cmd),
     (CONFIG_NODE, sfirewall_filter_rules_apply_cmd),
     (ENABLE_NODE, show_sfirewall_cmd),
     (CONFIG_NODE, show_sfirewall_cmd)]"

definition cmd_firewall_init :: "command cmdvec \<Rightarrow> command cmdvec outcome" where
  "cmd_firewall_init = install_all firewall_elements"

lemmas firewall_element_defs =
  sfirewall_nat_portmap_cmd_def no_sfirewall_nat_portmap_cmd_def
  sfirewall_nat_portmap_apply_cmd_def sfirewall_filter_rules_cmd_def
  no_sfirewall_filter_rules_cmd_def sfirewall_filter_rules_apply_cmd_def show_sfirewall_cmd_def

lemmas check_defs = fw_error_def not_supported_option_def check_port_def check_cidr_def check_day_def
  check_time_def filter_check_def portmap_check_def

section \<open>Relations the handlers respect\<close>

context effect_rel
begin

lemma yields_fw_error [step_intros]: "yields R (fw_error what arg)" "yields R (not_supported_option arg)"
  unfolding fw_error_def not_supported_option_def by (intro step_intros)+

lemma yields_checks [step_intros]:
  "yields R ok \<Longrightarrow> yields R (check_port port ok)" "yields R ok \<Longrightarrow> yields R (check_cidr ip ok)"
  "yields R ok \<Longrightarrow> yields R (check_day day ok)" "yields R ok \<Longrightarrow> yields R (check_time t ok)"
  unfolding check_port_def check_cidr_def check_day_def check_time_def by (intro step_intros | assumption)+

lemma yields_filter_check [step_intros]: "yields R ok \<Longrightarrow> yields R (filter_check argv ok)"
  unfolding filter_check_def by (intro step_intros | assumption)+

lemma yields_portmap_check [step_intros]: "(\<And>l. yields R (ok l)) \<Longrightarrow> yields R (portmap_check argv ok)"
  unfolding portmap_check_def by (intro step_intros | assumption)+

lemma yields_apply [step_intros]: "yields R k \<Longrightarrow> yields R (apply_firewall_rules env k)"
  unfolding apply_firewall_rules_def unless_exists_def by (intro step_intros | assumption)+

lemma yields_generate [step_intros]: "yields R (generate_rules env wfile rfile gen)"
proof -
  have "yields R (case gen x of Ret rules \<Rightarrow> block [fprintf wfile rules] (apply_firewall_rules env (fin CMD_SUCCESS))
      | _ \<Rightarrow> undef)" for x
    by (cases "gen x") (auto intro!: step_intros)
  then show ?thesis unfolding generate_rules_def by (intro step_intros | assumption)+
qed

lemma yields_fw_effects [step_intros]:
  "yields R (sfirewall_nat_portmap_apply env argv)" "yields R (sfirewall_filter_rules_apply env argv)"
  "yields R (show_sfirewall env argv)"
  unfolding sfirewall_nat_portmap_apply_def sfirewall_filter_rules_apply_def show_sfirewall_def
  by (intro step_intros)+

end

context config_rel
begin

lemma yields_fw [step_intros]:
  "yields R (sfirewall_nat_portmap env argv)" "yields R (no_sfirewall_nat_portmap env argv)"
  "yields R (sfirewall_filter_rules env argv)" "yields R (no_sfirewall_filter_rules env argv)"
  unfolding sfirewall_nat_portmap_def no_sfirewall_nat_portmap_def sfirewall_filter_rules_def
    no_sfirewall_filter_rules_def
  by (intro step_intros)+

end

end
