(* ===== verification/Cmd_Vpn.thy ===== *)
theory Cmd_Vpn
  imports Shell_State
begin

text \<open>
  The WireGuard commands (\<open>cmd/cmd_vpn.c\<close>): one definition per handler, the command elements and
  the function that installs them, and what the handlers make of a peer.
\<close>

section \<open>Handlers\<close>

definition PRIVATEKEY_PATH :: string where
  "PRIVATEKEY_PATH = CONFIG_DIR @ ''/privatekey''"

definition PUBLICKEY_PATH :: string where
  "PUBLICKEY_PATH = CONFIG_DIR @ ''/publickey''"

definition PUBLICKEY_MAX_LEN :: nat where
  "PUBLICKEY_MAX_LEN = 44"

text \<open>The number \<open>wg_listenport\<close> reads back from \<open>/tmp/.fwrule\<close>; -1 with no line to read.\<close>

definition read_fwrule :: "string option \<Rightarrow> int" where
  "read_fwrule content =
     (case content of
        None \<Rightarrow> - 1
      | Some c \<Rightarrow> (case fgets 256 c of None \<Rightarrow> - 1 | Some (xbuf, _) \<Rightarrow> atoi (cstr xbuf)))"

definition wg_listenport :: "env \<Rightarrow> string list \<Rightarrow> 'f handler" where
  "wg_listenport env argv =
     (case argv of
        port # _ \<Rightarrow>
          let nNum = atoi port in
          block [del_line_byleft (snprintf 1024 ''wg listenport''),
                 add_line (snprintf 1024 (''wg listenport '' @ string_of_int nNum)) []]
          (ensure_config (
          block [sysf env 1024 (''wg set wg0 listen-port '' @ port @ '' > /dev/null 2>&1''),
                 csystem env (''uci show firewall  | grep \"Allow-WG-Inbound\" | awk -F'' @ quoted ''='' @
                   '' '' @ quoted ''{ print $1 }'' @ '' | sed s\"/.name//g\" > /tmp/.fwrule'')]
          (fopen_r env ''/tmp/.fwrule'' (\<lambda>fp.
           let fwrule = read_fwrule fp in
           block [unlink_file ''/tmp/.fwrule'',
                  only_if (fwrule > 0) (sysf env 1024 (''uci delete '' @ string_of_int fwrule @ '' > /dev/null 2>&1'')),
                  csystem env ''uci add firewall rule > /dev/null 2>&1'',
                  csystem env ''uci set firewall.@rule[-1].src=\"*\" > /dev/null 2>&1'',
                  csystem env ''uci set firewall.@rule[-1].target=\"ACCEPT\" > /dev/null 2>&1'',
                  csystem env ''uci set firewall.@rule[-1].proto=\"udp\" > /dev/null 2>&1'',
                  sysf env 1024 (''uci set firewall.@rule[-1].dest_port=\"'' @ port @ ''\" > /dev/null 2>&1''),
                  csystem env ''uci set firewall.@rule[-1].name=\"Allow-WG-Inbound\" > /dev/null 2>&1'',
                  csystem env ''uci commit firewall > /dev/null 2>&1'',
                  csystem env ''/etc/init.d/firewall restart > /dev/null 2>&1'']
           (fin CMD_SUCCESS)))))
      | _ \<Rightarrow> undef)"

text \<open>
  The pieces the four \<open>wg peer\<close> handlers share: the checks of the public key, the allowed
  addresses and the endpoint, and the generation of the key pair if there is none.
\<close>

definition public_key_ok :: "string \<Rightarrow> bool" where
  "public_key_ok key \<longleftrightarrow> \<not> (length key \<noteq> PUBLICKEY_MAX_LEN \<or> key ! (length key - 1) \<noteq> CHR ''='')"

definition key_error :: "'f handler" where
  "key_error = block [vty_out (''% Public key length mismatch '' @ NL)] (fin CMD_ERR_NOTHING_TODO)"

definition allowed_ips_error :: "string \<Rightarrow> 'f handler" where
  "allowed_ips_error ips =
     block [vty_out (''% Invalid allowed-ips '' @ quoted ips @ '', Please input the correct value '' @ NL)]
     (fin CMD_ERR_NOTHING_TODO)"

definition check_endpoint :: "string \<Rightarrow> 'f handler \<Rightarrow> 'f handler" where
  "check_endpoint endpoint ok =
     (if length endpoint > 128 then
        block [vty_out (''% Invalid endpoint '' @ quoted endpoint @ '', Too long FQDN '' @ NL)]
        (fin CMD_ERR_NOTHING_TODO)
      else if strchr endpoint (CHR ''/'') \<noteq> None then
        block [vty_out (''% Invalid endpoint '' @ quoted endpoint @ '', endpoint can'' @ [CHR 0x27] @
                        ''t include slash.'' @ NL)]
        (fin CMD_WARNING)
      else ok)"

definition genkey_command :: string where
  "genkey_command =
     ''wg genkey | tee '' @ CONFIG_DIR @ ''/privatekey | wg pubkey > '' @ CONFIG_DIR @ ''/publickey''"

definition ensure_private_key :: "env \<Rightarrow> 'f handler \<Rightarrow> 'f handler" where
  "ensure_private_key env k =
     stat_file env PRIVATEKEY_PATH (\<lambda>found.
       block [only_if (\<not> found) (sysf env 2048 genkey_command)] k)"

text \<open>
  The end of the handlers: the line of the peer replaces the line that starts with its key, and unless
  a file is being loaded \<open>wg set\<close> is called with the same options.
\<close>

definition store_peer :: "env \<Rightarrow> string \<Rightarrow> string \<Rightarrow> 'f handler" where
  "store_peer env key options =
     block [del_line_byleft (snprintf 2048 (''wg peer '' @ key)),
            add_line (snprintf 2048 (''wg peer '' @ key @ options)) []]
     (ensure_config (
     block [sysf env 2048 (''wg set wg0 private-key '' @ PRIVATEKEY_PATH @ '' peer '' @ key @ options @
                           '' > /dev/null 2>&1'')]
     (fin CMD_SUCCESS)))"

definition wg_peer_public_key :: "env \<Rightarrow> string list \<Rightarrow> 'f handler" where
  "wg_peer_public_key env argv =
     (case argv of
        key # _ \<Rightarrow>
          if \<not> public_key_ok key then key_error
          else ensure_private_key env (store_peer env key [])
      | _ \<Rightarrow> undef)"

definition wg_peer_allowed_ips :: "env \<Rightarrow> string list \<Rightarrow> 'f handler" where
  "wg_peer_allowed_ips env argv =
     (case argv of
        key # ips # _ \<Rightarrow>
          if \<not> public_key_ok key then key_error
          else if \<not> digit_first ips then allowed_ips_error ips
          else ensure_private_key env (store_peer env key ('' allowed-ips '' @ ips))
      | _ \<Rightarrow> undef)"

definition wg_peer_endpoint :: "env \<Rightarrow> string list \<Rightarrow> 'f handler" where
  "wg_peer_endpoint env argv =
     (case argv of
        key # ips # endpoint # _ \<Rightarrow>
          if \<not> public_key_ok key then key_error
          else if \<not> digit_first ips then allowed_ips_error ips
          else check_endpoint endpoint
            (ensure_private_key env
              (store_peer env key ('' allowed-ips '' @ ips @ '' endpoint '' @ endpoint)))
      | _ \<Rightarrow> undef)"

definition wg_peer_persistent_keepalive :: "env \<Rightarrow> string list \<Rightarrow> 'f handler" where
  "wg_peer_persistent_keepalive env argv =
     (case argv of
        key # ips # endpoint # keepalive # _ \<Rightarrow>
          if \<not> public_key_ok key then key_error
          else if \<not> digit_first ips then allowed_ips_error ips
          else check_endpoint endpoint (
            if digit_first keepalive \<and> (atoi keepalive < 1 \<or> atoi keepalive > 1800) then
              block [vty_out (''% Invalid persistent-keepalive time '' @ quoted keepalive @
                              '', Please input the correct value '' @ NL)]
              (fin CMD_ERR_NOTHING_TODO)
            else
              ensure_private_key env
                (store_peer env key ('' allowed-ips '' @ ips @ '' endpoint '' @ endpoint @
                                     '' persistent-keepalive '' @ keepalive)))
      | _ \<Rightarrow> undef)"

definition no_wg_peer :: "env \<Rightarrow> string list \<Rightarrow> 'f handler" where
  "no_wg_peer env argv =
     (case argv of
        key # _ \<Rightarrow>
          block [del_line_byleft (snprintf 1024 (''wg peer '' @ key))]
          (ensure_config (
          block [sysf env 1024 (''wg set wg0 peer '' @ key @ '' remove > /dev/null 2>&1'')]
          (fin CMD_SUCCESS)))
      | _ \<Rightarrow> undef)"

definition wg_link :: "env \<Rightarrow> string list \<Rightarrow> 'f handler" where
  "wg_link env argv =
     (case argv of
        dir # _ \<Rightarrow>
          if strcmp dir ''link-up'' = 0 then
            block [del_line_byleft (snprintf 1024 ''wg link-up''),
                   del_line_byleft (snprintf 1024 ''wg link-down''),
                   add_line (snprintf 1024 ''wg link-up'') []]
            (ensure_config (
            block [sysf env 1024 ''ip link set up dev wg0 > /dev/null 2>&1''] (fin CMD_SUCCESS)))
          else
            block [del_line_byleft (snprintf 1024 ''wg link-up''),
                   del_line_byleft (snprintf 1024 ''wg link-down''),
                   add_line (snprintf 1024 ''wg link-down'') []]
            (ensure_config (
            block [sysf env 1024 ''ip link set down dev wg0 > /dev/null 2>&1''] (fin CMD_SUCCESS)))
      | _ \<Rightarrow> undef)"

definition wg_rekey :: "env \<Rightarrow> string list \<Rightarrow> 'f handler" where
  "wg_rekey env argv =
     block [sysf env 1024 genkey_command,
            sysf env 1024 (''wg set wg0 private-key '' @ CONFIG_DIR @ ''/privatekey''),
            vty_out (''My Private key => [hidden]'' @ NL)]
     (fopen_r env PUBLICKEY_PATH (\<lambda>fp.
        case fp of
          None \<Rightarrow> fin CMD_SUCCESS
        | Some c \<Rightarrow>
            (case fgets 1024 c of
               None \<Rightarrow> fin CMD_SUCCESS
             | Some (xbuf, _) \<Rightarrow> block [vty_out (''My Public key => '' @ cstr xbuf)] (fin CMD_SUCCESS))))"

definition wg_clearkey :: "env \<Rightarrow> string list \<Rightarrow> 'f handler" where
  "wg_clearkey env argv =
     block [sysf env 1024 (''rm '' @ CONFIG_DIR @ ''/publickey > /dev/null 2>&1''),
            sysf env 1024 (''rm '' @ CONFIG_DIR @ ''/privatekey > /dev/null 2>&1'')]
     (fin CMD_SUCCESS)"

definition show_wg :: "env \<Rightarrow> string list \<Rightarrow> 'f handler" where
  "show_wg env argv = block [csystem env ''wg show''] (fin CMD_SUCCESS)"

definition show_wg_conf :: "env \<Rightarrow> string list \<Rightarrow> 'f handler" where
  "show_wg_conf env argv =
     (case argv of
        eth # _ \<Rightarrow> block [sysf env 1024 (''wg showconf '' @ eth)] (fin CMD_SUCCESS)
      | _ \<Rightarrow> undef)"

section \<open>Elements\<close>

definition wg_listenport_cmd :: "command cmd_element" where
  "wg_listenport_cmd = defun
     ''wg listenport NUM''
     (Vpn F_wg_listenport)
     (''Configure WireGuard rules'' @ NL @ ''Listening port'' @ NL @ ''1024 ~ 65535'' @ NL)"

definition wg_peer_public_key_cmd :: "command cmd_element" where
  "wg_peer_public_key_cmd = defun
     ''wg peer PUBLICKEY''
     (Vpn F_wg_peer_public_key)
     (''Configure WireGuard rules'' @ NL @ ''Specify peer information'' @ NL @
       ''Public key'' @ NL)"

definition wg_peer_allowed_ips_cmd :: "command cmd_element" where
  "wg_peer_allowed_ips_cmd = defun
     ''wg peer PUBLICKEY allowed-ips WORD''
     (Vpn F_wg_peer_allowed_ips)
     (''Configure WireGuard rules'' @ NL @ ''Specify peer information'' @ NL @
       ''Public key'' @ NL @ ''Allow ip addresses'' @ NL @
       ''ip network e.g. 192.168.1.0/24,172.16.0.0/16'' @ NL)"

definition wg_peer_endpoint_cmd :: "command cmd_element" where
  "wg_peer_endpoint_cmd = defun
     ''wg peer PUBLICKEY allowed-ips WORD endpoint (none|FQDN:PORT|A.B.C.D:PORT)''
     (Vpn F_wg_peer_endpoint)
     (''Configure WireGuard rules'' @ NL @ ''Specify peer information'' @ NL @
       ''Public key'' @ NL @ ''Allow ip addresses'' @ NL @
       ''ip network e.g. 192.168.1.0/24,172.16.0.0/16'' @ NL @ ''Endpoint information'' @ NL @
       ''no ip address and port'' @ NL @ ''FQDN and port e.g. test.yourdomain.com:12345'' @ NL @
       ''ip address and port e.g. x.x.x.x:y'' @ NL)"

definition wg_peer_persistent_keepalive_cmd :: "command cmd_element" where
  "wg_peer_persistent_keepalive_cmd = defun
     ''wg peer PUBLICKEY allowed-ips WORD endpoint (none|FQDN:PORT|A.B.C.D:PORT) persistent-keepalive (off|NUM)''
     (Vpn F_wg_peer_persistent_keepalive)
     (''Configure WireGuard rules'' @ NL @ ''Specify peer information'' @ NL @
       ''Public key'' @ NL @ ''Allow ip addresses'' @ NL @
       ''ip network e.g. 192.168.1.0/24,172.16.0.0/16'' @ NL @ ''Endpoint information'' @ NL @
       ''no ip address and port'' @ NL @ ''FQDN and port e.g. test.yourdomain.com:12345'' @ NL @
       ''ip address and port e.g. x.x.x.x:y'' @ NL @ ''Set persistent-keepalive time'' @ NL @
       ''no keepalive'' @ NL @ ''Seconds 1-1800'' @ NL)"

definition no_wg_peer_cmd :: "command cmd_element" where
  "no_wg_peer_cmd = defun
     ''no wg peer PUBLICKEY''
     (Vpn F_no_wg_peer)
     (NO_STR @ ''Configure WireGuard rules'' @ NL @ ''Specify peer information'' @ NL @
       ''Public key'' @ NL)"

definition wg_link_cmd :: "command cmd_element" where
  "wg_link_cmd = defun
     ''wg (link-up|link-down)''
     (Vpn F_wg_link)
     (''Configure WireGuard rules'' @ NL @ ''Enable wireguard link'' @ NL @
       ''Disable wireguard link'' @ NL)"

definition wg_rekey_cmd :: "command cmd_element" where
  "wg_rekey_cmd = defun
     ''wg regenerate-key''
     (Vpn F_wg_rekey)
     (''Configure WireGuard rules'' @ NL @ ''Regenerate private & public keys'' @ NL)"

definition wg_clearkey_cmd :: "command cmd_element" where
  "wg_clearkey_cmd = defun
     ''wg clear-key''
     (Vpn F_wg_clearkey)
     (''Configure WireGuard rules'' @ NL @ ''Remove curve25519 private & public keys'' @ NL)"

definition show_wg_cmd :: "command cmd_element" where
  "show_wg_cmd = defun
     ''show wg''
     (Vpn F_show_wg)
     (SHOW_STR @ ''Show the wireguard tunnel info'' @ NL)"

definition show_wg_conf_cmd :: "command cmd_element" where
  "show_wg_conf_cmd = defun
     ''show wg ETHNAME''
     (Vpn F_show_wg_conf)
     (SHOW_STR @ ''Show the wireguard tunnel info'' @ NL @
       ''Show the tunnel info for the specified interface'' @ NL)"

definition vpn_elements :: "(node_type \<times> command cmd_element) list" where
  "vpn_elements =
    [(ENABLE_NODE, show_wg_cmd),
     (CONFIG_NODE, show_wg_cmd),
     (ENABLE_NODE, show_wg_conf_cmd),
     (CONFIG_NODE, show_wg_conf_cmd),
     (CONFIG_NODE, wg_listenport_cmd),
     (CONFIG_NODE, wg_peer_public_key_cmd),
     (CONFIG_NODE, wg_peer_allowed_ips_cmd),
     (CONFIG_NODE, wg_peer_endpoint_cmd),
     (CONFIG_NODE, wg_peer_persistent_keepalive_cmd),
     (CONFIG_NODE, no_wg_peer_cmd),
     (CONFIG_NODE, wg_link_cmd),
     (CONFIG_NODE, wg_rekey_cmd),
     (CONFIG_NODE, wg_clearkey_cmd)]"

definition cmd_vpn_init :: "command cmdvec \<Rightarrow> command cmdvec outcome" where
  "cmd_vpn_init = install_all vpn_elements"

lemmas vpn_element_defs =
  wg_listenport_cmd_def wg_peer_public_key_cmd_def wg_peer_allowed_ips_cmd_def
  wg_peer_endpoint_cmd_def wg_peer_persistent_keepalive_cmd_def no_wg_peer_cmd_def wg_link_cmd_def
  wg_rekey_cmd_def wg_clearkey_cmd_def show_wg_cmd_def show_wg_conf_cmd_def

lemmas vpn_defs = wg_listenport_def key_error_def allowed_ips_error_def check_endpoint_def
  ensure_private_key_def store_peer_def wg_peer_public_key_def wg_peer_allowed_ips_def
  wg_peer_endpoint_def wg_peer_persistent_keepalive_def no_wg_peer_def wg_link_def

lemmas vpn_show_defs = wg_rekey_def wg_clearkey_def show_wg_def show_wg_conf_def

section \<open>Relations the handlers respect\<close>

context effect_rel
begin

lemma yields_show_vpn [step_intros]:
  "yields R (wg_rekey env argv)" "yields R (wg_clearkey env argv)"
  "yields R (show_wg env argv)" "yields R (show_wg_conf env argv)"
  unfolding vpn_show_defs by (intro step_intros)+

end

context config_rel
begin

lemma yields_vpn [step_intros]:
  "yields R (wg_listenport env argv)" "yields R (wg_peer_public_key env argv)"
  "yields R (wg_peer_allowed_ips env argv)" "yields R (wg_peer_endpoint env argv)"
  "yields R (wg_peer_persistent_keepalive env argv)" "yields R (no_wg_peer env argv)"
  "yields R (wg_link env argv)"
  unfolding vpn_defs by (intro step_intros)+

end

end
