(* ===== verification/Cmd_Table.thy ===== *)
theory Cmd_Table
  imports Cmd_Bridge Cmd_Common Cmd_Tool Cmd_Ip Cmd_Firewall Cmd_Vpn
begin

text \<open>
  The command table of the program (\<open>cmd_init.c\<close>, and the two calls of \<open>main\<close> that build
  and sort it) and the call through the function pointer of a command element.
\<close>

section \<open>Calling a handler\<close>

primrec call_bridge :: "bridge_fn \<Rightarrow> env \<Rightarrow> string list \<Rightarrow> 'f handler" where
  "call_bridge F_bridge_disable = bridge_disable"
| "call_bridge F_no_bridge_disable = no_bridge_disable"
| "call_bridge F_bridge_add = bridge_add"
| "call_bridge F_no_bridge_add = no_bridge_add"
| "call_bridge F_show_bridge = show_bridge"
| "call_bridge F_show_bridge_mac = show_bridge_mac"

primrec call_common :: "common_fn \<Rightarrow> env \<Rightarrow> string list \<Rightarrow> 'f handler" where
  "call_common F_config_terminal = config_terminal"
| "call_common F_enable = enable"
| "call_common F_disable = disable"
| "call_common F_config_exit = config_exit"
| "call_common F_show_version = show_version"
| "call_common F_show_cpuinfo = show_cpuinfo"
| "call_common F_show_meminfo = show_meminfo"
| "call_common F_show_interruptsinfo = show_interruptsinfo"
| "call_common F_show_uptime = show_uptime"
| "call_common F_config_list = config_list"
| "call_common F_config_write_file = config_write_file"
| "call_common F_config_write_terminal = config_write_terminal"
| "call_common F_show_startup_config = show_startup_config"
| "call_common F_config_hostname = config_hostname"
| "call_common F_config_no_hostname = config_no_hostname"

primrec call_tool :: "tool_fn \<Rightarrow> env \<Rightarrow> string list \<Rightarrow> 'f handler" where
  "call_tool F_config_sh = config_sh"
| "call_tool F_config_ping = config_ping"
| "call_tool F_config_ping_count = config_ping_count"
| "call_tool F_config_ssh = config_ssh"
| "call_tool F_config_ssh_port = config_ssh_port"
| "call_tool F_config_reboot = config_reboot"
| "call_tool F_config_poweroff = config_poweroff"
| "call_tool F_config_sysinfo = config_sysinfo"
| "call_tool F_config_tcpdump = config_tcpdump"
| "call_tool F_show_date = show_date"
| "call_tool F_net_netstat_info = net_netstat_info"

primrec call_ip :: "ip_fn \<Rightarrow> env \<Rightarrow> string list \<Rightarrow> 'f handler" where
  "call_ip F_show_ip_address = show_ip_address"
| "call_ip F_show_ip_config = show_ip_config"
| "call_ip F_show_ip_config_name = show_ip_config_name"
| "call_ip F_show_ip_route = show_ip_route"
| "call_ip F_ip_address = ip_address"
| "call_ip F_no_ip_address = no_ip_address"
| "call_ip F_ip_address_dhcp = ip_address_dhcp"
| "call_ip F_ip_route = ip_route"
| "call_ip F_no_ip_route = no_ip_route"
| "call_ip F_config_dns = config_dns"
| "call_ip F_config_no_dns = config_no_dns"

primrec call_fw :: "fw_fn \<Rightarrow> env \<Rightarrow> string list \<Rightarrow> 'f handler" where
  "call_fw F_sfirewall_nat_portmap = sfirewall_nat_portmap"
| "call_fw F_no_sfirewall_nat_portmap = no_sfirewall_nat_portmap"
| "call_fw F_sfirewall_nat_portmap_apply = sfirewall_nat_portmap_apply"
| "call_fw F_sfirewall_filter_rules = sfirewall_filter_rules"
| "call_fw F_no_sfirewall_filter_rules = no_sfirewall_filter_rules"
| "call_fw F_sfirewall_filter_rules_apply = sfirewall_filter_rules_apply"
| "call_fw F_show_sfirewall = show_sfirewall"

primrec call_vpn :: "vpn_fn \<Rightarrow> env \<Rightarrow> string list \<Rightarrow> 'f handler" where
  "call_vpn F_wg_listenport = wg_listenport"
| "call_vpn F_wg_peer_public_key = wg_peer_public_key"
| "call_vpn F_wg_peer_allowed_ips = wg_peer_allowed_ips"
| "call_vpn F_wg_peer_endpoint = wg_peer_endpoint"
| "call_vpn F_wg_peer_persistent_keepalive = wg_peer_persistent_keepalive"
| "call_vpn F_no_wg_peer = no_wg_peer"
| "call_vpn F_wg_link = wg_link"
| "call_vpn F_wg_rekey = wg_rekey"
| "call_vpn F_wg_clearkey = wg_clearkey"
| "call_vpn F_show_wg = show_wg"
| "call_vpn F_show_wg_conf = show_wg_conf"

text \<open>\<open>(*matched_element->func) (matched_element, vty, argc, argv)\<close>\<close>

primrec call :: "env \<Rightarrow> command \<Rightarrow> string list \<Rightarrow> 'f handler" where
  "call env (Bridge f) = call_bridge f env"
| "call env (Common f) = call_common f env"
| "call env (Tool f) = call_tool f env"
| "call env (Ip f) = call_ip f env"
| "call env (Fw f) = call_fw f env"
| "call env (Vpn f) = call_vpn f env"

section \<open>Building the table\<close>

definition cmd_parse_init :: "command cmdvec \<Rightarrow> command cmdvec outcome" where
  "cmd_parse_init v =
     obind (cmd_bridge_init v) (\<lambda>v.
     obind (cmd_common_init v) (\<lambda>v.
     obind (cmd_tool_init v) (\<lambda>v.
     obind (cmd_ip_init v) (\<lambda>v.
     obind (cmd_firewall_init v) (\<lambda>v.
     cmd_vpn_init v)))))"

text \<open>\<open>cmd_init ()\<close>, \<open>cmd_parse_init ()\<close> and \<open>cmd_sort_node ()\<close>, as \<open>main\<close> calls them.\<close>

definition command_table :: "command cmdvec outcome" where
  "command_table = obind (cmd_parse_init cmd_init) cmd_sort_node"

section \<open>The specifications of the commands\<close>

text \<open>The words of a specification, without the help texts, and the words that become arguments.\<close>

definition spec_words :: "'f cmd_element \<Rightarrow> string list list outcome" where
  "spec_words e = omap (map (map cmd)) (cmd_make_descvec (estring e) None)"

definition arg_word :: "string list \<Rightarrow> bool" where
  "arg_word ds \<longleftrightarrow> length ds \<noteq> 1 \<or> CMD_VARIABLE (hd ds) \<or> CMD_OPTION (hd ds)"

fun mandatory :: "string list list \<Rightarrow> string list list" where
  "mandatory [] = []"
| "mandatory (ds # dss) = (if length ds = 1 \<and> CMD_OPTION (hd ds) then [] else ds # mandatory dss)"

text \<open>How many arguments a handler reads: \<open>call_few\<close> and \<open>call_take\<close> below show it of the handlers.\<close>

fun needs :: "command \<Rightarrow> nat" where
  "needs (Bridge f) = (case f of F_bridge_add \<Rightarrow> 3 | F_no_bridge_add \<Rightarrow> 1 | F_show_bridge_mac \<Rightarrow> 1 | _ \<Rightarrow> 0)"
| "needs (Common f) = (case f of F_config_hostname \<Rightarrow> 1 | _ \<Rightarrow> 0)"
| "needs (Tool f) =
     (case f of F_config_sh \<Rightarrow> 1 | F_config_ping \<Rightarrow> 1 | F_config_ping_count \<Rightarrow> 2 | F_config_ssh \<Rightarrow> 1
      | F_config_ssh_port \<Rightarrow> 2 | F_config_tcpdump \<Rightarrow> 2 | _ \<Rightarrow> 0)"
| "needs (Ip f) =
     (case f of F_show_ip_config_name \<Rightarrow> 1 | F_ip_address \<Rightarrow> 3 | F_no_ip_address \<Rightarrow> 1
      | F_ip_address_dhcp \<Rightarrow> 1 | F_ip_route \<Rightarrow> 4 | F_no_ip_route \<Rightarrow> 2 | F_config_dns \<Rightarrow> 2 | _ \<Rightarrow> 0)"
| "needs (Fw f) =
     (case f of F_sfirewall_nat_portmap \<Rightarrow> 6 | F_no_sfirewall_nat_portmap \<Rightarrow> 6
      | F_sfirewall_filter_rules \<Rightarrow> 13 | F_no_sfirewall_filter_rules \<Rightarrow> 13 | F_show_sfirewall \<Rightarrow> 1 | _ \<Rightarrow> 0)"
| "needs (Vpn f) =
     (case f of F_wg_listenport \<Rightarrow> 1 | F_wg_peer_public_key \<Rightarrow> 1 | F_wg_peer_allowed_ips \<Rightarrow> 2
      | F_wg_peer_endpoint \<Rightarrow> 3 | F_wg_peer_persistent_keepalive \<Rightarrow> 4 | F_no_wg_peer \<Rightarrow> 1 | F_wg_link \<Rightarrow> 1
      | F_show_wg_conf \<Rightarrow> 1 | _ \<Rightarrow> 0)"

text \<open>What the check of an element asks for: it parses, no word takes the rest of the line, and its
  mandatory words give at least the arguments its handler reads.\<close>

definition spec_ok :: "('f \<Rightarrow> nat) \<Rightarrow> 'f cmd_element \<Rightarrow> bool" where
  "spec_ok nd e =
     (daemon e = 0 \<and>
     (case spec_words e of
        Ret ws \<Rightarrow> ws \<noteq> [] \<and> list_all (\<lambda>ds. ds \<noteq> [] \<and> list_all (\<lambda>w. \<not> CMD_VARARG w) ds) ws \<and>
          nd (func e) \<le> length (filter arg_word (mandatory ws))
      | _ \<Rightarrow> False))"

definition all_elements :: "(node_type \<times> command cmd_element) list" where
  "all_elements = bridge_elements @ common_elements @ tool_elements @ ip_elements @ firewall_elements @ vpn_elements"

lemmas elements_defs = bridge_elements_def common_elements_def tool_elements_def ip_elements_def
  firewall_elements_def vpn_elements_def

definition element_key :: "node_type \<times> 'f cmd_element \<Rightarrow> node_type \<times> string" where
  "element_key x = (fst x, estring (snd x))"

definition command_keys :: "(node_type \<times> string) list" where
  "command_keys =
    [(ENABLE_NODE, ''show bridge''),
     (ENABLE_NODE, ''show bridge WORD''),
     (CONFIG_NODE, ''bridge disable''),
     (CONFIG_NODE, ''no bridge disable''),
     (CONFIG_NODE, ''bridge NUM WORD WORD''),
     (CONFIG_NODE, ''no bridge NUM''),
     (VIEW_NODE, ''show version''),
     (VIEW_NODE, ''exit''),
     (VIEW_NODE, ''enable''),
     (VIEW_NODE, ''show cpuinfo''),
     (VIEW_NODE, ''show meminfo''),
     (VIEW_NODE, ''show interruptsinfo''),
     (VIEW_NODE, ''show uptime''),
     (ENABLE_NODE, ''show version''),
     (ENABLE_NODE, ''exit''),
     (ENABLE_NODE, ''list''),
     (ENABLE_NODE, ''write terminal''),
     (ENABLE_NODE, ''write file''),
     (ENABLE_NODE, ''write memory''),
     (ENABLE_NODE, ''write''),
     (ENABLE_NODE, ''show cpuinfo''),
     (ENABLE_NODE, ''show meminfo''),
     (ENABLE_NODE, ''show interruptsinfo''),
     (ENABLE_NODE, ''show uptime''),
     (ENABLE_NODE, ''disable''),
     (ENABLE_NODE, ''configure terminal''),
     (ENABLE_NODE, ''show running-config''),
     (ENABLE_NODE, ''show startup-config''),
     (CONFIG_NODE, ''show version''),
     (CONFIG_NODE, ''exit''),
     (CONFIG_NODE, ''write terminal''),
     (CONFIG_NODE, ''write file''),
     (CONFIG_NODE, ''write memory''),
     (CONFIG_NODE, ''write''),
     (CONFIG_NODE, ''show running-config''),
     (CONFIG_NODE, ''show startup-config''),
     (CONFIG_NODE, ''hostname WORD''),
     (CONFIG_NODE, ''no hostname [HOSTNAME]''),
     (VIEW_NODE, ''ping WORD''),
     (VIEW_NODE, ''ping WORD NUM''),
     (VIEW_NODE, ''ssh WORD''),
     (VIEW_NODE, ''ssh WORD PORT''),
     (ENABLE_NODE, ''ping WORD''),
     (ENABLE_NODE, ''ping WORD NUM''),
     (ENABLE_NODE, ''ssh WORD''),
     (ENABLE_NODE, ''ssh WORD PORT''),
     (ENABLE_NODE, ''tcpdump INTERFACE EXPRESSION''),
     (ENABLE_NODE, ''netstat''),
     (ENABLE_NODE, ''show sysinfo''),
     (ENABLE_NODE, ''show date''),
     (CONFIG_NODE, ''ping WORD''),
     (CONFIG_NODE, ''ping WORD NUM''),
     (CONFIG_NODE, ''reboot''),
     (CONFIG_NODE, ''poweroff''),
     (CONFIG_NODE, ''ssh WORD''),
     (CONFIG_NODE, ''ssh WORD PORT''),
     (CONFIG_NODE, ''show date''),
     (CONFIG_NODE, ''end WORD''),
     (ENABLE_NODE, ''show ip address''),
     (ENABLE_NODE, ''show ip config''),
     (ENABLE_NODE, ''show ip config WORD''),
     (ENABLE_NODE, ''show ip route''),
     (CONFIG_NODE, ''show ip address''),
     (CONFIG_NODE, ''show ip config''),
     (CONFIG_NODE, ''show ip config WORD''),
     (CONFIG_NODE, ''show ip route''),
     (CONFIG_NODE, ''ip address ETHNAME A.B.C.D A.B.C.D''),
     (CONFIG_NODE, ''no ip address ETHNAME''),
     (CONFIG_NODE, ''ip address ETHNAME dhcp''),
     (CONFIG_NODE, ''ip route A.B.C.D A.B.C.D A.B.C.D ETHNAME''),
     (CONFIG_NODE, ''no ip route A.B.C.D A.B.C.D''),
     (CONFIG_NODE, ''nameserver A.B.C.D A.B.C.D''),
     (CONFIG_NODE, ''no nameserver''),
     (CONFIG_NODE, ''sfirewall nat portmap NUM (vpn|wan) A.B.C.D (tcp|udp|all) PORT PORT''),
     (CONFIG_NODE, ''no sfirewall nat portmap NUM (vpn|wan) A.B.C.D (tcp|udp|all) PORT PORT''),
     (CONFIG_NODE, ''sfirewall nat portmap apply''),
     (CONFIG_NODE, ''sfirewall filter NUM (lan2wan|wan2lan) (in|out|fw) (insert|append) (permit|deny|reject) (tcp|udp|icmp) A.B.C.D/E PORT A.B.C.D/E PORT DAY FROMTIME TOTIME''),
     (CONFIG_NODE, ''no sfirewall filter NUM (lan2wan|wan2lan) (in|out|fw) (insert|append) (permit|deny|reject) (tcp|udp|icmp) A.B.C.D/E PORT A.B.C.D/E PORT DAY FROMTIME TOTIME''),
     (CONFIG_NODE, ''sfirewall filter apply''),
     (ENABLE_NODE, ''show sfirewall (all|nat|filter|mangle)''),
     (CONFIG_NODE, ''show sfirewall (all|nat|filter|mangle)''),
     (ENABLE_NODE, ''show wg''),
     (CONFIG_NODE, ''show wg''),
     (ENABLE_NODE, ''show wg ETHNAME''),
     (CONFIG_NODE, ''show wg ETHNAME''),
     (CONFIG_NODE, ''wg listenport NUM''),
     (CONFIG_NODE, ''wg peer PUBLICKEY''),
     (CONFIG_NODE, ''wg peer PUBLICKEY allowed-ips WORD''),
     (CONFIG_NODE, ''wg peer PUBLICKEY allowed-ips WORD endpoint (none|FQDN:PORT|A.B.C.D:PORT)''),
     (CONFIG_NODE, ''wg peer PUBLICKEY allowed-ips WORD endpoint (none|FQDN:PORT|A.B.C.D:PORT) persistent-keepalive (off|NUM)''),
     (CONFIG_NODE, ''no wg peer PUBLICKEY''),
     (CONFIG_NODE, ''wg (link-up|link-down)''),
     (CONFIG_NODE, ''wg regenerate-key''),
     (CONFIG_NODE, ''wg clear-key'')]"

lemma element_keys: "map element_key all_elements = command_keys"
  by (simp add: all_elements_def elements_defs element_key_def command_keys_def defun_def bridge_element_defs
      common_element_defs tool_element_defs ip_element_defs firewall_element_defs vpn_element_defs)

lemma all_keys: "distinct (map element_key all_elements)"
  unfolding element_keys by code_simp

text \<open>The installed commands in the order of the calls: node, handler and words.\<close>

definition command_specs :: "(node_type \<times> command \<times> string list list) list" where
  "command_specs =
    [(ENABLE_NODE, Bridge F_show_bridge, [[''show''], [''bridge'']]),
     (ENABLE_NODE, Bridge F_show_bridge_mac, [[''show''], [''bridge''], [''WORD'']]),
     (CONFIG_NODE, Bridge F_bridge_disable, [[''bridge''], [''disable'']]),
     (CONFIG_NODE, Bridge F_no_bridge_disable, [[''no''], [''bridge''], [''disable'']]),
     (CONFIG_NODE, Bridge F_bridge_add, [[''bridge''], [''NUM''], [''WORD''], [''WORD'']]),
     (CONFIG_NODE, Bridge F_no_bridge_add, [[''no''], [''bridge''], [''NUM'']]),
     (VIEW_NODE, Common F_show_version, [[''show''], [''version'']]),
     (VIEW_NODE, Common F_config_exit, [[''exit'']]),
     (VIEW_NODE, Common F_enable, [[''enable'']]),
     (VIEW_NODE, Common F_show_cpuinfo, [[''show''], [''cpuinfo'']]),
     (VIEW_NODE, Common F_show_meminfo, [[''show''], [''meminfo'']]),
     (VIEW_NODE, Common F_show_interruptsinfo, [[''show''], [''interruptsinfo'']]),
     (VIEW_NODE, Common F_show_uptime, [[''show''], [''uptime'']]),
     (ENABLE_NODE, Common F_show_version, [[''show''], [''version'']]),
     (ENABLE_NODE, Common F_config_exit, [[''exit'']]),
     (ENABLE_NODE, Common F_config_list, [[''list'']]),
     (ENABLE_NODE, Common F_config_write_terminal, [[''write''], [''terminal'']]),
     (ENABLE_NODE, Common F_config_write_file, [[''write''], [''file'']]),
     (ENABLE_NODE, Common F_config_write_file, [[''write''], [''memory'']]),
     (ENABLE_NODE, Common F_config_write_file, [[''write'']]),
     (ENABLE_NODE, Common F_show_cpuinfo, [[''show''], [''cpuinfo'']]),
     (ENABLE_NODE, Common F_show_meminfo, [[''show''], [''meminfo'']]),
     (ENABLE_NODE, Common F_show_interruptsinfo, [[''show''], [''interruptsinfo'']]),
     (ENABLE_NODE, Common F_show_uptime, [[''show''], [''uptime'']]),
     (ENABLE_NODE, Common F_disable, [[''disable'']]),
     (ENABLE_NODE, Common F_config_terminal, [[''configure''], [''terminal'']]),
     (ENABLE_NODE, Common F_config_write_terminal, [[''show''], [''running-config'']]),
     (ENABLE_NODE, Common F_show_startup_config, [[''show''], [''startup-config'']]),
     (CONFIG_NODE, Common F_show_version, [[''show''], [''version'']]),
     (CONFIG_NODE, Common F_config_exit, [[''exit'']]),
     (CONFIG_NODE, Common F_config_write_terminal, [[''write''], [''terminal'']]),
     (CONFIG_NODE, Common F_config_write_file, [[''write''], [''file'']]),
     (CONFIG_NODE, Common F_config_write_file, [[''write''], [''memory'']]),
     (CONFIG_NODE, Common F_config_write_file, [[''write'']]),
     (CONFIG_NODE, Common F_config_write_terminal, [[''show''], [''running-config'']]),
     (CONFIG_NODE, Common F_show_startup_config, [[''show''], [''startup-config'']]),
     (CONFIG_NODE, Common F_config_hostname, [[''hostname''], [''WORD'']]),
     (CONFIG_NODE, Common F_config_no_hostname, [[''no''], [''hostname''], [''[HOSTNAME]'']]),
     (VIEW_NODE, Tool F_config_ping, [[''ping''], [''WORD'']]),
     (VIEW_NODE, Tool F_config_ping_count, [[''ping''], [''WORD''], [''NUM'']]),
     (VIEW_NODE, Tool F_config_ssh, [[''ssh''], [''WORD'']]),
     (VIEW_NODE, Tool F_config_ssh_port, [[''ssh''], [''WORD''], [''PORT'']]),
     (ENABLE_NODE, Tool F_config_ping, [[''ping''], [''WORD'']]),
     (ENABLE_NODE, Tool F_config_ping_count, [[''ping''], [''WORD''], [''NUM'']]),
     (ENABLE_NODE, Tool F_config_ssh, [[''ssh''], [''WORD'']]),
     (ENABLE_NODE, Tool F_config_ssh_port, [[''ssh''], [''WORD''], [''PORT'']]),
     (ENABLE_NODE, Tool F_config_tcpdump, [[''tcpdump''], [''INTERFACE''], [''EXPRESSION'']]),
     (ENABLE_NODE, Tool F_net_netstat_info, [[''netstat'']]),
     (ENABLE_NODE, Tool F_config_sysinfo, [[''show''], [''sysinfo'']]),
     (ENABLE_NODE, Tool F_show_date, [[''show''], [''date'']]),
     (CONFIG_NODE, Tool F_config_ping, [[''ping''], [''WORD'']]),
     (CONFIG_NODE, Tool F_config_ping_count, [[''ping''], [''WORD''], [''NUM'']]),
     (CONFIG_NODE, Tool F_config_reboot, [[''reboot'']]),
     (CONFIG_NODE, Tool F_config_poweroff, [[''poweroff'']]),
     (CONFIG_NODE, Tool F_config_ssh, [[''ssh''], [''WORD'']]),
     (CONFIG_NODE, Tool F_config_ssh_port, [[''ssh''], [''WORD''], [''PORT'']]),
     (CONFIG_NODE, Tool F_show_date, [[''show''], [''date'']]),
     (CONFIG_NODE, Tool F_config_sh, [[''end''], [''WORD'']]),
     (ENABLE_NODE, Ip F_show_ip_address, [[''show''], [''ip''], [''address'']]),
     (ENABLE_NODE, Ip F_show_ip_config, [[''show''], [''ip''], [''config'']]),
     (ENABLE_NODE, Ip F_show_ip_config_name, [[''show''], [''ip''], [''config''], [''WORD'']]),
     (ENABLE_NODE, Ip F_show_ip_route, [[''show''], [''ip''], [''route'']]),
     (CONFIG_NODE, Ip F_show_ip_address, [[''show''], [''ip''], [''address'']]),
     (CONFIG_NODE, Ip F_show_ip_config, [[''show''], [''ip''], [''config'']]),
     (CONFIG_NODE, Ip F_show_ip_config_name, [[''show''], [''ip''], [''config''], [''WORD'']]),
     (CONFIG_NODE, Ip F_show_ip_route, [[''show''], [''ip''], [''route'']]),
     (CONFIG_NODE, Ip F_ip_address, [[''ip''], [''address''], [''ETHNAME''], [''A.B.C.D''], [''A.B.C.D'']]),
     (CONFIG_NODE, Ip F_no_ip_address, [[''no''], [''ip''], [''address''], [''ETHNAME'']]),
     (CONFIG_NODE, Ip F_ip_address_dhcp, [[''ip''], [''address''], [''ETHNAME''], [''dhcp'']]),
     (CONFIG_NODE, Ip F_ip_route, [[''ip''], [''route''], [''A.B.C.D''], [''A.B.C.D''], [''A.B.C.D''], [''ETHNAME'']]),
     (CONFIG_NODE, Ip F_no_ip_route, [[''no''], [''ip''], [''route''], [''A.B.C.D''], [''A.B.C.D'']]),
     (CONFIG_NODE, Ip F_config_dns, [[''nameserver''], [''A.B.C.D''], [''A.B.C.D'']]),
     (CONFIG_NODE, Ip F_config_no_dns, [[''no''], [''nameserver'']]),
     (CONFIG_NODE, Fw F_sfirewall_nat_portmap, [[''sfirewall''], [''nat''], [''portmap''], [''NUM''], [''vpn'', ''wan''], [''A.B.C.D''], [''tcp'', ''udp'', ''all''], [''PORT''], [''PORT'']]),
     (CONFIG_NODE, Fw F_no_sfirewall_nat_portmap, [[''no''], [''sfirewall''], [''nat''], [''portmap''], [''NUM''], [''vpn'', ''wan''], [''A.B.C.D''], [''tcp'', ''udp'', ''all''], [''PORT''], [''PORT'']]),
     (CONFIG_NODE, Fw F_sfirewall_nat_portmap_apply, [[''sfirewall''], [''nat''], [''portmap''], [''apply'']]),
     (CONFIG_NODE, Fw F_sfirewall_filter_rules, [[''sfirewall''], [''filter''], [''NUM''], [''lan2wan'', ''wan2lan''], [''in'', ''out'', ''fw''], [''insert'', ''append''], [''permit'', ''deny'', ''reject''], [''tcp'', ''udp'', ''icmp''], [''A.B.C.D/E''], [''PORT''], [''A.B.C.D/E''], [''PORT''], [''DAY''], [''FROMTIME''], [''TOTIME'']]),
     (CONFIG_NODE, Fw F_no_sfirewall_filter_rules, [[''no''], [''sfirewall''], [''filter''], [''NUM''], [''lan2wan'', ''wan2lan''], [''in'', ''out'', ''fw''], [''insert'', ''append''], [''permit'', ''deny'', ''reject''], [''tcp'', ''udp'', ''icmp''], [''A.B.C.D/E''], [''PORT''], [''A.B.C.D/E''], [''PORT''], [''DAY''], [''FROMTIME''], [''TOTIME'']]),
     (CONFIG_NODE, Fw F_sfirewall_filter_rules_apply, [[''sfirewall''], [''filter''], [''apply'']]),
     (ENABLE_NODE, Fw F_show_sfirewall, [[''show''], [''sfirewall''], [''all'', ''nat'', ''filter'', ''mangle'']]),
     (CONFIG_NODE, Fw F_show_sfirewall, [[''show''], [''sfirewall''], [''all'', ''nat'', ''filter'', ''mangle'']]),
     (ENABLE_NODE, Vpn F_show_wg, [[''show''], [''wg'']]),
     (CONFIG_NODE, Vpn F_show_wg, [[''show''], [''wg'']]),
     (ENABLE_NODE, Vpn F_show_wg_conf, [[''show''], [''wg''], [''ETHNAME'']]),
     (CONFIG_NODE, Vpn F_show_wg_conf, [[''show''], [''wg''], [''ETHNAME'']]),
     (CONFIG_NODE, Vpn F_wg_listenport, [[''wg''], [''listenport''], [''NUM'']]),
     (CONFIG_NODE, Vpn F_wg_peer_public_key, [[''wg''], [''peer''], [''PUBLICKEY'']]),
     (CONFIG_NODE, Vpn F_wg_peer_allowed_ips, [[''wg''], [''peer''], [''PUBLICKEY''], [''allowed-ips''], [''WORD'']]),
     (CONFIG_NODE, Vpn F_wg_peer_endpoint, [[''wg''], [''peer''], [''PUBLICKEY''], [''allowed-ips''], [''WORD''], [''endpoint''], [''none'', ''FQDN:PORT'', ''A.B.C.D:PORT'']]),
     (CONFIG_NODE, Vpn F_wg_peer_persistent_keepalive, [[''wg''], [''peer''], [''PUBLICKEY''], [''allowed-ips''], [''WORD''], [''endpoint''], [''none'', ''FQDN:PORT'', ''A.B.C.D:PORT''], [''persistent-keepalive''], [''off'', ''NUM'']]),
     (CONFIG_NODE, Vpn F_no_wg_peer, [[''no''], [''wg''], [''peer''], [''PUBLICKEY'']]),
     (CONFIG_NODE, Vpn F_wg_link, [[''wg''], [''link-up'', ''link-down'']]),
     (CONFIG_NODE, Vpn F_wg_rekey, [[''wg''], [''regenerate-key'']]),
     (CONFIG_NODE, Vpn F_wg_clearkey, [[''wg''], [''clear-key'']])]"

lemma spec_keys: "command_keys = map (\<lambda>(n, f, wss). (n, print_words wss)) command_specs"
  by code_simp

lemma spec_funcs: "map (\<lambda>(n, e). (func e, daemon e)) all_elements = map (\<lambda>(n, f, wss). (f, 0)) command_specs"
  by (simp add: all_elements_def elements_defs command_specs_def defun_def bridge_element_defs
      common_element_defs tool_element_defs ip_element_defs firewall_element_defs vpn_element_defs)

lemma specs_ok: "list_all (\<lambda>(n, f, wss). n \<in> {VIEW_NODE, ENABLE_NODE, CONFIG_NODE} \<and> wss \<noteq> [] \<and>
    list_all (\<lambda>ws. ws \<noteq> [] \<and> list_all (\<lambda>w. spec_word w \<and> \<not> CMD_VARARG w) ws) wss \<and>
    needs f \<le> length (filter arg_word (mandatory wss))) command_specs"
  by code_simp

lemma element_spec:
  assumes "(n, e) \<in> set all_elements"
  shows "\<exists>wss. (n, func e, wss) \<in> set command_specs \<and> estring e = print_words wss \<and> daemon e = 0 \<and>
    omap (map (map cmd)) (cmd_make_descvec (estring e) dp) = Ret wss"
proof -
  have len: "length all_elements = length command_specs" using arg_cong [OF spec_funcs, of length] by simp
  obtain i where i: "i < length command_specs" "all_elements ! i = (n, e)"
    using assms len by (auto simp: in_set_conv_nth)
  obtain m f wss where s: "command_specs ! i = (m, f, wss)" by (cases "command_specs ! i") auto
  have "(n, estring e) = (m, print_words wss)"
    using arg_cong [OF element_keys [unfolded spec_keys], of "\<lambda>xs. xs ! i"] i s len by (simp add: element_key_def)
  moreover have "(func e, daemon e) = (f, 0)"
    using arg_cong [OF spec_funcs, of "\<lambda>xs. xs ! i"] i s len by simp
  moreover have mem: "(m, f, wss) \<in> set command_specs" using i(1) s by (metis nth_mem)
  then have "omap (map (map cmd)) (cmd_make_descvec (print_words wss) dp) = Ret wss"
    using specs_ok by (intro descvec_print_words) (auto simp: list_all_iff)
  ultimately show ?thesis using mem by auto
qed

lemma all_specs: "list_all (\<lambda>(n, e). spec_ok needs e \<and> n \<in> {VIEW_NODE, ENABLE_NODE, CONFIG_NODE}) all_elements"
proof -
  have "spec_ok needs e \<and> n \<in> {VIEW_NODE, ENABLE_NODE, CONFIG_NODE}" if "(n, e) \<in> set all_elements" for n e
    using element_spec [OF that, of None] specs_ok by (fastforce simp: spec_ok_def spec_words_def list_all_iff)
  then show ?thesis by (auto simp: list_all_iff)
qed

section \<open>What the table holds\<close>


text \<open>An element as \<open>cmd_install_element\<close> and \<open>cmd_sort_node\<close> leave it: its words parsed,
  the alternatives of the last word possibly in another order.\<close>

definition same_words :: "desc list \<Rightarrow> desc list \<Rightarrow> bool" where
  "same_words a b \<longleftrightarrow> length a = length b \<and> set (map cmd a) = set (map cmd b)"

definition compiled :: "'f cmd_element \<Rightarrow> 'f cmd_element \<Rightarrow> bool" where
  "compiled e0 e \<longleftrightarrow> estring e = estring e0 \<and> func e = func e0 \<and> daemon e = daemon e0 \<and>
     (\<exists>sv. cmd_make_descvec (estring e0) (Some (doc e0)) = Ret sv \<and>
        list_all2 same_words (strvec e) sv \<and> cmdsize e = cmd_cmdsize sv)"

fun node_prompt :: "node_type \<Rightarrow> string" where
  "node_prompt VIEW_NODE = ''%s> ''"
| "node_prompt ENABLE_NODE = ''%s# ''"
| "node_prompt CONFIG_NODE = ''%s(config)# ''"
| "node_prompt _ = ''Password: ''"

text \<open>A node holds the elements that were installed in it, each once, under different strings.\<close>

definition holds_elements :: "(node_type \<times> 'f cmd_element) list \<Rightarrow> node_type \<Rightarrow> 'f cmd_node \<Rightarrow> bool" where
  "holds_elements es n c \<longleftrightarrow> cnode c = n \<and> prompt c = node_prompt n \<and> None \<notin> set (cmd_vector c) \<and>
     distinct (map (estring \<circ> the) (cmd_vector c)) \<and>
     (\<forall>e. Some e \<in> set (cmd_vector c) \<longrightarrow> (\<exists>e0. (n, e0) \<in> set es \<and> compiled e0 e)) \<and>
     (\<forall>e0. (n, e0) \<in> set es \<longrightarrow> (\<exists>e. Some e \<in> set (cmd_vector c) \<and> compiled e0 e))"

definition user_nodes :: "node_type list" where
  "user_nodes = [VIEW_NODE, AUTH_ENABLE_NODE, ENABLE_NODE, CONFIG_NODE]"

definition table_holds :: "(node_type \<times> 'f cmd_element) list \<Rightarrow> 'f cmdvec \<Rightarrow> bool" where
  "table_holds es v \<longleftrightarrow> (\<exists>cs. v = None # map Some cs \<and> list_all2 (holds_elements es) user_nodes cs)"

lemma same_words_refl [simp]: "same_words a a"
  by (simp add: same_words_def)

lemma same_words_trans: "same_words a b \<Longrightarrow> same_words b c \<Longrightarrow> same_words a c"
  by (simp add: same_words_def)

lemma table_holds_slot:
  assumes "table_holds es v" and "n \<in> set user_nodes"
  shows "\<exists>c. slots_lookup v (node_index n) = Some c \<and> holds_elements es n c"
  using assms
  by (auto simp: table_holds_def user_nodes_def list_all2_Cons1 slots_lookup_def)

lemma cmd_init_holds: "table_holds [] cmd_init"
  by (auto simp: table_holds_def cmd_init_def cmd_install_node_def slots_set_index_def user_nodes_def
      holds_elements_def view_node_def enable_node_def auth_enable_node_def config_node_def Cons_eq_map_conv)

lemma compile_compiled:
  assumes "cmd_make_descvec (estring e) (Some (doc e)) = Ret sv"
  shows "compiled e (e\<lparr>strvec := sv, cmdsize := cmd_cmdsize sv\<rparr>)"
  using assms by (auto simp: compiled_def list_all2_refl)

lemma spec_parses: "spec_ok nd e \<Longrightarrow> \<exists>sv. cmd_make_descvec (estring e) (Some (doc e)) = Ret sv"
  using cmd_make_descvec_words [of "estring e" None "Some (doc e)"]
  by (cases "cmd_make_descvec (estring e) (Some (doc e))") (auto simp: spec_ok_def spec_words_def split: outcome.splits)

lemma holds_add:
  assumes "holds_elements es n c" and "compiled e0 e" and "v = slots_set (cmd_vector c) (Some e)"
    and "(n, estring e0) \<notin> element_key ` set es"
  shows "holds_elements (es @ [(n, e0)]) n (c\<lparr>cmd_vector := v\<rparr>)"
proof -
  have v: "v = cmd_vector c @ [Some e]" using assms(1,3) by (simp add: holds_elements_def slots_set_full)
  have "estring e \<noteq> estring (the x)" if x: "x \<in> set (cmd_vector c)" for x
  proof -
    obtain e1 where e1: "x = Some e1" using assms(1) x by (cases x) (auto simp: holds_elements_def)
    with assms(1) x obtain e0' where "(n, e0') \<in> set es" "compiled e0' e1" unfolding holds_elements_def by blast
    with assms(2,4) e1 show ?thesis by (force simp: compiled_def element_key_def)
  qed
  with assms(1,2) show ?thesis unfolding v by (auto simp: holds_elements_def)
qed

lemma holds_other: "holds_elements es n c \<Longrightarrow> n \<noteq> m \<Longrightarrow> holds_elements (es @ [(m, e0)]) n c"
  by (auto simp: holds_elements_def)

lemma install_holds:
  assumes "table_holds es v" and "n \<in> set user_nodes" and "spec_ok nd e" and "(n, estring e) \<notin> element_key ` set es"
  shows "\<exists>v'. cmd_install_element v n e = Ret v' \<and> table_holds (es @ [(n, e)]) v'"
proof -
  obtain sv where sv: "cmd_make_descvec (estring e) (Some (doc e)) = Ret sv" using spec_parses [OF assms(3)] ..
  let ?e = "e\<lparr>strvec := sv, cmdsize := cmd_cmdsize sv\<rparr>"
  obtain c1 c2 c3 c4 where v: "v = [None, Some c1, Some c2, Some c3, Some c4]"
    and c: "holds_elements es VIEW_NODE c1" "holds_elements es AUTH_ENABLE_NODE c2"
      "holds_elements es ENABLE_NODE c3" "holds_elements es CONFIG_NODE c4"
    using assms(1) by (auto simp: table_holds_def user_nodes_def list_all2_Cons1)
  note add = holds_add [OF _ compile_compiled [OF sv] refl assms(4)]
  from assms(2) consider "n = VIEW_NODE" | "n = AUTH_ENABLE_NODE" | "n = ENABLE_NODE" | "n = CONFIG_NODE"
    by (auto simp: user_nodes_def)
  then show ?thesis
    by cases (use c add in \<open>simp_all add: cmd_install_element_def slots_lookup_def v sv table_holds_def user_nodes_def
        list_all2_Cons1 holds_other Cons_eq_map_conv\<close>)
qed

lemma install_all_holds:
  assumes "table_holds es v" and "list_all (\<lambda>(n, e). spec_ok nd e \<and> n \<in> {VIEW_NODE, ENABLE_NODE, CONFIG_NODE}) xs"
    and "distinct (map element_key (es @ xs))"
  shows "\<exists>v'. install_all xs v = Ret v' \<and> table_holds (es @ xs) v'"
  using assms
proof (induction xs arbitrary: es v)
  case Nil
  then show ?case by simp
next
  case (Cons x xs)
  obtain n e where x: "x = (n, e)" by fastforce
  then obtain v' where v': "cmd_install_element v n e = Ret v'" "table_holds (es @ [x]) v'"
    using install_holds [OF Cons.prems(1), of n nd e] Cons.prems(2,3) by (auto simp: user_nodes_def element_key_def)
  from Cons.IH [OF v'(2)] Cons.prems(2,3) show ?case using x v'(1) by simp
qed

lemma install_all_append: "install_all (xs @ ys) = (\<lambda>v. obind (install_all xs v) (install_all ys))"
proof (induction xs)
  case (Cons x xs)
  show ?case by (rule ext, cases x) (simp add: Cons.IH)
qed (simp add: fun_eq_iff)

lemma cmd_parse_init_all: "cmd_parse_init v = install_all all_elements v"
  by (simp add: cmd_parse_init_def all_elements_def install_all_append cmd_bridge_init_def cmd_common_init_def
      cmd_tool_init_def cmd_ip_init_def cmd_firewall_init_def cmd_vpn_init_def)

text \<open>Sorting keeps the elements of a node.\<close>

lemma qsort_insert_props: "set (qsort_insert c x xs) = insert x (set xs)" "length (qsort_insert c x xs) = Suc (length xs)"
  by (induction xs) auto

lemma qsort_props: "set (qsort c xs) = set xs \<and> length (qsort c xs) = length xs"
  unfolding qsort_def by (induction xs) (auto simp: qsort_insert_props)

lemma sort_last_compiled:
  assumes "compiled e0 e" and "strvec e \<noteq> []"
  shows "compiled e0 (sort_last_desc e)"
proof -
  obtain sv where sv: "cmd_make_descvec (estring e0) (Some (doc e0)) = Ret sv"
      "list_all2 same_words (strvec e) sv" "cmdsize e = cmd_cmdsize sv"
    using assms(1) by (auto simp: compiled_def)
  obtain ds d where e: "strvec e = ds @ [d]" using assms(2) by (metis rev_exhaust)
  have "same_words (qsort cmp_desc d) d"
    using qsort_props [of cmp_desc d] by (auto simp: same_words_def)
  then have "list_all2 same_words (ds @ [qsort cmp_desc d]) sv"
    using sv(2) e by (auto simp: list_all2_append1 list_all2_Cons1 intro: same_words_trans)
  with assms(1) sv e show ?thesis by (auto simp: compiled_def sort_last_desc_def)
qed

lemma compiled_words:
  assumes "compiled e0 e" and "spec_ok nd e0"
  shows "strvec e \<noteq> [] \<and> (\<forall>ds \<in> set (strvec e). ds \<noteq> [] \<and> (\<forall>d \<in> set ds. \<not> CMD_VARARG (cmd d)))"
proof -
  obtain sv where sv: "cmd_make_descvec (estring e0) (Some (doc e0)) = Ret sv" "list_all2 same_words (strvec e) sv"
    using assms(1) by (auto simp: compiled_def)
  have "spec_words e0 = Ret (map (map cmd) sv)"
    using cmd_make_descvec_words [of "estring e0" None "Some (doc e0)"] sv(1) by (simp add: spec_words_def)
  with assms(2) have w: "sv \<noteq> []" "\<forall>ds \<in> set sv. ds \<noteq> [] \<and> (\<forall>w \<in> cmd ` set ds. \<not> CMD_VARARG w)"
    by (auto simp: spec_ok_def list_all_iff)
  have "\<exists>b \<in> set sv. same_words ds b" if "ds \<in> set (strvec e)" for ds
    using sv(2) that by (metis in_set_conv_nth list_all2_conv_all_nth nth_mem)
  moreover have "ds \<noteq> [] \<and> (\<forall>d \<in> set ds. \<not> CMD_VARARG (cmd d))" if "same_words ds b" "b \<in> set sv" for ds b
  proof -
    have "b \<noteq> []" "\<forall>w \<in> cmd ` set b. \<not> CMD_VARARG w" using w(2) that(2) by blast+
    with that(1) have "length ds = length b" "\<forall>w \<in> cmd ` set ds. \<not> CMD_VARARG w"
      by (simp_all add: same_words_def)
    with \<open>b \<noteq> []\<close> show ?thesis by auto
  qed
  moreover have "strvec e \<noteq> []" using sv(2) w(1) by auto
  ultimately show ?thesis by blast
qed

lemma the_image:
  assumes "None \<notin> A"
  shows "the ` A = {e. Some e \<in> A}"
proof (intro equalityI subsetI)
  fix e assume "e \<in> the ` A"
  then obtain x where "x \<in> A" "e = the x" by blast
  with assms show "e \<in> {e. Some e \<in> A}" by (cases x) auto
qed force

lemma sort_cnode_holds:
  assumes "holds_elements es n c" and "\<And>e0. (n, e0) \<in> set es \<Longrightarrow> spec_ok nd e0"
  shows "\<exists>c'. sort_cnode c = Ret c' \<and> holds_elements es n c'"
proof -
  have full: "None \<notin> set (cmd_vector c)" using assms(1) by (simp add: holds_elements_def)
  have ne: "strvec e \<noteq> []" if "Some e \<in> set (cmd_vector c)" for e
    using assms that compiled_words by (fastforce simp: holds_elements_def)
  let ?c = "c\<lparr>cmd_vector := map (Some \<circ> sort_last_desc) (qsort cmp_node (map the (cmd_vector c)))\<rparr>"
  have sort: "sort_cnode c = Ret ?c"
    using full ne by (auto simp: sort_cnode_def) (metis option.exhaust_sel)
  have elems: "the ` set (cmd_vector c) = {e. Some e \<in> set (cmd_vector c)}"
    using full by (rule the_image)
  have mem: "Some e \<in> set (cmd_vector ?c) \<longleftrightarrow> (\<exists>e1. Some e1 \<in> set (cmd_vector c) \<and> e = sort_last_desc e1)" for e
    using qsort_props [of cmp_node "map the (cmd_vector c)"] elems by auto
  have "\<exists>e0. (n, e0) \<in> set es \<and> compiled e0 e" if e: "Some e \<in> set (cmd_vector ?c)" for e
  proof -
    obtain e1 where e1: "Some e1 \<in> set (cmd_vector c)" "e = sort_last_desc e1" using iffD1 [OF mem e] by blast
    with assms(1) obtain e0 where "(n, e0) \<in> set es" "compiled e0 e1" by (auto simp: holds_elements_def)
    with e1 sort_last_compiled [OF _ ne [OF e1(1)]] show ?thesis by blast
  qed
  moreover have "\<exists>e. Some e \<in> set (cmd_vector ?c) \<and> compiled e0 e" if e0: "(n, e0) \<in> set es" for e0
  proof -
    from assms(1) e0 obtain e1 where e1: "Some e1 \<in> set (cmd_vector c)" "compiled e0 e1"
      by (auto simp: holds_elements_def)
    have "Some (sort_last_desc e1) \<in> set (cmd_vector ?c)" by (rule iffD2 [OF mem]) (use e1(1) in blast)
    then show ?thesis using sort_last_compiled [OF e1(2) ne [OF e1(1)]] by blast
  qed
  moreover have "distinct (map (estring \<circ> the) (cmd_vector ?c))"
  proof -
    have "set (map estring (qsort cmp_node (map the (cmd_vector c)))) = set (map (estring \<circ> the) (cmd_vector c))"
      "length (qsort cmp_node (map the (cmd_vector c))) = length (cmd_vector c)"
      using qsort_props [of cmp_node "map the (cmd_vector c)"] by auto
    then have "distinct (map estring (qsort cmp_node (map the (cmd_vector c))))"
      using assms(1) by (metis distinct_card card_distinct holds_elements_def length_map)
    then show ?thesis by (simp add: comp_def sort_last_desc_def)
  qed
  moreover have "cnode ?c = n" "prompt ?c = node_prompt n" "None \<notin> set (cmd_vector ?c)" using assms(1) by (auto simp: holds_elements_def)
  ultimately have "holds_elements es n ?c" unfolding holds_elements_def by simp
  with sort show ?thesis by blast
qed

lemma cmd_sort_node_holds:
  assumes "table_holds es v" and "\<And>n e0. (n, e0) \<in> set es \<Longrightarrow> spec_ok nd e0"
  shows "\<exists>v'. cmd_sort_node v = Ret v' \<and> table_holds es v'"
proof -
  have "\<exists>cs'. cmd_sort_node (map Some cs) = Ret (map Some cs') \<and> list_all2 (holds_elements es) ns cs'"
    if "list_all2 (holds_elements es) ns cs" for ns cs
    using that
  proof (induction rule: list_all2_induct)
    case Nil
    then show ?case by simp
  next
    case (Cons n ns c cs)
    with sort_cnode_holds [OF Cons.hyps(1)] assms(2) show ?case by (fastforce simp: Cons_eq_map_conv)
  qed
  with assms(1) show ?thesis by (fastforce simp: table_holds_def)
qed

lemma command_table_holds: "\<exists>v. command_table = Ret v \<and> table_holds all_elements v"
proof -
  obtain v where v: "install_all all_elements cmd_init = Ret v" "table_holds all_elements v"
    using install_all_holds [OF cmd_init_holds all_specs] all_keys by auto
  have "spec_ok needs e0" if "(n, e0) \<in> set all_elements" for n e0
    using that all_specs by (auto simp: list_all_iff)
  with cmd_sort_node_holds [OF v(2)] v(1) show ?thesis
    by (auto simp: command_table_def cmd_parse_init_all)
qed

section \<open>Looking commands up in the table\<close>

lemma arg_word_same: "same_words a b \<Longrightarrow> arg_word (map cmd a) = arg_word (map cmd b)"
  by (cases "length b = 1") (auto simp: same_words_def arg_word_def length_Suc_conv)

lemma arg_count_same:
  assumes "list_all2 same_words sv sv'"
  shows "length (filter arg_word (map (map cmd) (take n sv))) = length (filter arg_word (map (map cmd) (take n sv')))"
  using assms
proof (induction arbitrary: n rule: list_all2_induct)
  case (Cons x xs y ys)
  then show ?case by (cases n) (auto simp: arg_word_same)
qed simp

lemma mandatory_cmdsize: "mandatory (map (map cmd) sv) = map (map cmd) (take (cmd_cmdsize sv) sv)"
  by (induction sv) (auto simp: length_Suc_conv)

lemma collect_args_arity:
  assumes "collect_args sv vline False acc = Ret (Inr argv)"
    and "\<forall>ds \<in> set sv. \<forall>d \<in> set ds. \<not> CMD_VARARG (cmd d)"
  shows "length argv = length acc + length (filter arg_word (map (map cmd) (take (length vline) sv)))"
  using assms
proof (induction vline arbitrary: sv acc)
  case Nil
  then show ?case by simp
next
  case (Cons w vline)
  then obtain ds sv' where sv: "sv = ds # sv'" by (cases sv) (auto simp: arg_step_def)
  have step: "arg_step False sv = Ret (False, arg_word (map cmd ds))"
  proof (cases "length ds = 1")
    case True
    then obtain d where "ds = [d]" by (auto simp: length_Suc_conv)
    then show ?thesis using Cons.prems(2) sv by (auto simp: arg_step_def arg_word_def Let_def)
  next
    case False
    then show ?thesis by (simp add: arg_step_def arg_word_def sv)
  qed
  then have "collect_args sv' vline False (if arg_word (map cmd ds) then acc @ [w] else acc) = Ret (Inr argv)"
    using Cons.prems(1) sv by (auto simp: Let_def split: if_splits)
  from Cons.IH [OF this] Cons.prems(2) sv show ?case by auto
qed

lemma filter_take_mono: "m \<le> n \<Longrightarrow> length (filter P (take m xs)) \<le> length (filter P (take n xs))"
proof -
  assume "m \<le> n"
  then have "take n xs = take m xs @ take (n - m) (drop m xs)" by (metis le_add_diff_inverse take_add)
  then show ?thesis by simp
qed

context word_filter
begin

text \<open>On a table that holds checked elements a lookup is defined, finds one of them, and hands its
  handler the arguments it reads.\<close>

lemma table_lookup:
  assumes "table_holds es v" and "n \<in> set user_nodes" and "\<And>m e. (m, e) \<in> set es \<Longrightarrow> spec_ok nd e"
  shows "\<exists>r. find_command filt v vline n = Ret r \<and>
    (\<forall>e argv. r = Inr (e, argv) \<longrightarrow> (\<exists>e0. (n, e0) \<in> set es \<and> compiled e0 e \<and> nd (func e) \<le> length argv))"
proof -
  obtain c where c: "slots_lookup v (node_index n) = Some c" "holds_elements es n c"
    using table_holds_slot [OF assms(1,2)] by blast
  then have vec: "cmd_node_vector v n = Ret (cmd_vector c)"
    by (simp add: cmd_node_vector_def node_slot_def)
  have el: "\<exists>e0. (n, e0) \<in> set es \<and> compiled e0 e \<and> spec_ok nd e0" if "Some e \<in> set (cmd_vector c)" for e
    using c(2) that assms(3) unfolding holds_elements_def by blast
  have "vararg_alone e" if e: "Some e \<in> set (cmd_vector c)" for e
    using el [OF e] compiled_words by (fastforce simp: vararg_alone_def list_all_iff list_ex_iff)
  from find_command_defined [OF vec this] obtain r where r: "find_command filt v vline n = Ret r" by blast
  have "\<exists>e0. (n, e0) \<in> set es \<and> compiled e0 e \<and> nd (func e) \<le> length argv" if "r = Inr (e, argv)" for e argv
  proof -
    note f = r [unfolded that]
    note s = find_command_sound [OF f vec]
    obtain e0 where e0: "(n, e0) \<in> set es" "compiled e0 e" "spec_ok nd e0" using el s by blast
    note w = compiled_words [OF e0(2,3)]
    obtain sv where sv: "cmd_make_descvec (estring e0) (Some (doc e0)) = Ret sv"
        "list_all2 same_words (strvec e) sv" "cmdsize e = cmd_cmdsize sv" "func e = func e0"
      using e0(2) by (auto simp: compiled_def)
    have "spec_words e0 = Ret (map (map cmd) sv)"
      using cmd_make_descvec_words [of "estring e0" None "Some (doc e0)"] sv(1) by (simp add: spec_words_def)
    then have "nd (func e) \<le> length (filter arg_word (map (map cmd) (take (cmdsize e) sv)))"
      using e0(3) sv(3,4) by (simp add: spec_ok_def mandatory_cmdsize)
    also have "\<dots> = length (filter arg_word (map (map cmd) (take (cmdsize e) (strvec e))))"
      using arg_count_same [OF sv(2)] by simp
    also have "\<dots> \<le> length (filter arg_word (map (map cmd) (take (length vline) (strvec e))))"
    proof -
      have "cmdsize e \<le> length vline"
        using s w by (auto simp: line_matches_def list_ex_iff dest!: nth_mem)
      from filter_take_mono [OF this, of arg_word "map (map cmd) (strvec e)"] show ?thesis
        by (simp add: take_map)
    qed
    also have "\<dots> = length argv"
      using collect_args_arity [of "strvec e" vline "[]" argv] w find_commandE [OF f vec] by fastforce
    finally show ?thesis using e0 by blast
  qed
  with r show ?thesis by blast
qed

end

section \<open>Relations that every command respects\<close>

locale shell_rel = config_rel + node_rel
begin

lemma yields_call [step_intros]: "yields R (call env f argv)"
proof (cases f)
  case (Bridge g)
  then show ?thesis by (cases g) (auto intro: step_intros)
next
  case (Common g)
  then show ?thesis by (cases g) (auto intro: step_intros)
next
  case (Tool g)
  then show ?thesis by (cases g) (auto intro: step_intros)
next
  case (Ip g)
  then show ?thesis by (cases g) (auto intro: step_intros)
next
  case (Fw g)
  then show ?thesis by (cases g) (auto intro: step_intros)
next
  case (Vpn g)
  then show ?thesis by (cases g) (auto intro: step_intros)
qed

end

text \<open>The commands of the view node.\<close>

definition view_commands :: "command list" where
  "view_commands = map Common [F_show_version, F_config_exit, F_enable, F_show_cpuinfo, F_show_meminfo,
       F_show_interruptsinfo, F_show_uptime] @
     map Tool [F_config_ping, F_config_ping_count, F_config_ssh, F_config_ssh_port]"

locale view_rel = effect_rel + node_rel
begin

lemma yields_view_call [step_intros]: "f \<in> set view_commands \<Longrightarrow> yields R (call env f argv)"
  by (auto simp: view_commands_def intro: step_intros)

end

section \<open>What the handlers read\<close>

text \<open>
  \<open>needs\<close> is what the handlers read: with fewer arguments the handler is undefined, and of more it
  reads only that many.
\<close>

lemma argv_few:
  "length xs < 1 \<Longrightarrow> (case xs of a # _ \<Rightarrow> f1 a | _ \<Rightarrow> u) = u"
  "length xs < 2 \<Longrightarrow> (case xs of a # b # _ \<Rightarrow> f2 a b | _ \<Rightarrow> u) = u"
  "length xs < 3 \<Longrightarrow> (case xs of a # b # c # _ \<Rightarrow> f3 a b c | _ \<Rightarrow> u) = u"
  "length xs < 4 \<Longrightarrow> (case xs of a # b # c # d # _ \<Rightarrow> f4 a b c d | _ \<Rightarrow> u) = u"
  "length xs < 6 \<Longrightarrow> (case xs of a # b # c # d # e # g # _ \<Rightarrow> f6 a b c d e g | _ \<Rightarrow> u) = u"
  "length xs < 13 \<Longrightarrow> (case xs of a # b # c # d # e # g # h # i # j # k # l # m # n # _ \<Rightarrow> f13 a b c d e g h i j k l m n | _ \<Rightarrow> u) = u"
  by (auto split: list.split)

lemma argv_take:
  "(case take 1 xs of a # _ \<Rightarrow> f1 a | _ \<Rightarrow> u) = (case xs of a # _ \<Rightarrow> f1 a | _ \<Rightarrow> u)"
  "(case take 2 xs of a # b # _ \<Rightarrow> f2 a b | _ \<Rightarrow> u) = (case xs of a # b # _ \<Rightarrow> f2 a b | _ \<Rightarrow> u)"
  "(case take 3 xs of a # b # c # _ \<Rightarrow> f3 a b c | _ \<Rightarrow> u) = (case xs of a # b # c # _ \<Rightarrow> f3 a b c | _ \<Rightarrow> u)"
  "(case take 4 xs of a # b # c # d # _ \<Rightarrow> f4 a b c d | _ \<Rightarrow> u) = (case xs of a # b # c # d # _ \<Rightarrow> f4 a b c d | _ \<Rightarrow> u)"
  "(case take 6 xs of a # b # c # d # e # g # _ \<Rightarrow> f6 a b c d e g | _ \<Rightarrow> u) = (case xs of a # b # c # d # e # g # _ \<Rightarrow> f6 a b c d e g | _ \<Rightarrow> u)"
  "(case take 13 xs of a # b # c # d # e # g # h # i # j # k # l # m # n # _ \<Rightarrow> f13 a b c d e g h i j k l m n | _ \<Rightarrow> u) =
   (case xs of a # b # c # d # e # g # h # i # j # k # l # m # n # _ \<Rightarrow> f13 a b c d e g h i j k l m n | _ \<Rightarrow> u)"
  by (simp_all add: eval_nat_numeral split: list.split)

lemma checks_few:
  "length argv < 13 \<Longrightarrow> filter_check argv ok = undef"
  "length argv < 6 \<Longrightarrow> portmap_check argv ok' = undef"
  unfolding filter_check_def portmap_check_def by (rule argv_few; assumption)+

lemma checks_take: "filter_check (take 13 argv) = filter_check argv" "portmap_check (take 6 argv) = portmap_check argv"
  unfolding filter_check_def portmap_check_def fun_eq_iff argv_take by simp_all

lemmas argv_defs = bridge_add_def no_bridge_add_def show_bridge_mac_def config_hostname_def config_sh_def config_ping_count_def
  config_ssh_port_def config_tcpdump_def
  ip_address_def no_ip_address_def ip_address_dhcp_def ip_route_def no_ip_route_def config_dns_def
  show_sfirewall_def
  wg_listenport_def wg_peer_public_key_def wg_peer_allowed_ips_def wg_peer_endpoint_def
  wg_peer_persistent_keepalive_def no_wg_peer_def wg_link_def show_wg_conf_def

text \<open>The handlers that look at no argument.\<close>

lemmas no_argv_defs = bridge_disable_def no_bridge_disable_def show_bridge_def config_terminal_def enable_def disable_def
  config_exit_def show_version_def show_cpuinfo_def show_meminfo_def show_interruptsinfo_def show_uptime_def config_list_def
  config_write_file_def config_write_terminal_def show_startup_config_def config_no_hostname_def
  config_reboot_def config_poweroff_def config_sysinfo_def show_date_def net_netstat_info_def
  show_ip_address_def show_ip_config_def show_ip_route_def config_no_dns_def
  sfirewall_nat_portmap_apply_def sfirewall_filter_rules_apply_def wg_rekey_def wg_clearkey_def show_wg_def

text \<open>The handlers that pass their arguments on.\<close>

lemmas pass_argv_defs = config_ping_def config_ssh_def show_ip_config_name_def sfirewall_nat_portmap_def
  no_sfirewall_nat_portmap_def sfirewall_filter_rules_def no_sfirewall_filter_rules_def

lemma exec_few: "length argv < n \<Longrightarrow> cmd_execute_system_command env c n argv s = Undef"
  "length argv < n \<Longrightarrow> block [exec_command env c n argv] k s = Undef"
  by (simp_all add: cmd_execute_system_command_def exec_command_def shell_simps)

lemma exec_take: "n \<le> length argv \<Longrightarrow> cmd_execute_system_command env c n (take n argv) = cmd_execute_system_command env c n argv"
  "n \<le> length argv \<Longrightarrow> exec_command env c n (take n argv) = exec_command env c n argv"
  by (simp_all add: fun_eq_iff cmd_execute_system_command_def exec_command_def)

lemma call_few:
  assumes "length argv < needs f"
  shows "call env f argv s = Undef"
proof (cases f)
  case (Bridge g)
  with assms show ?thesis
    by (cases g; simp only: call.simps call_bridge.simps argv_defs needs.simps bridge_fn.case; simp only: argv_few undef_def not_less_zero)
next
  case (Common g)
  with assms show ?thesis
    by (cases g; simp only: call.simps call_common.simps argv_defs needs.simps common_fn.case; simp only: argv_few undef_def not_less_zero)
next
  case (Tool g)
  with assms show ?thesis
    by (cases g; simp only: call.simps call_tool.simps argv_defs pass_argv_defs needs.simps tool_fn.case;
        simp only: argv_few exec_few undef_def not_less_zero)
next
  case (Ip g)
  with assms show ?thesis
    by (cases g; simp only: call.simps call_ip.simps argv_defs pass_argv_defs needs.simps ip_fn.case;
        simp only: argv_few exec_few undef_def not_less_zero)
next
  case (Fw g)
  with assms show ?thesis
    by (cases g; simp only: call.simps call_fw.simps argv_defs pass_argv_defs needs.simps fw_fn.case;
        simp only: argv_few checks_few undef_def not_less_zero)
next
  case (Vpn g)
  with assms show ?thesis
    by (cases g; simp only: call.simps call_vpn.simps argv_defs needs.simps vpn_fn.case; simp only: argv_few undef_def not_less_zero)
qed

lemma filter_line_take: "filter_line (take 13 argv) = filter_line argv" "filter_line ((take 13 argv)[3 := w]) = filter_line (argv[3 := w])"
  by (simp_all add: filter_line_def take_update_swap)

lemma call_take:
  assumes "needs f \<le> length argv"
  shows "call env f (take (needs f) argv) = call env f argv"
proof (cases f)
  case (Bridge g)
  then show ?thesis
    by (cases g; simp only: call.simps call_bridge.simps argv_defs no_argv_defs needs.simps bridge_fn.case argv_take)
next
  case (Common g)
  then show ?thesis
    by (cases g; simp only: call.simps call_common.simps argv_defs no_argv_defs needs.simps common_fn.case argv_take)
next
  case (Tool g)
  with assms show ?thesis
    by (cases g; simp only: call.simps call_tool.simps argv_defs no_argv_defs pass_argv_defs needs.simps tool_fn.case argv_take;
        simp only: exec_take)
next
  case (Ip g)
  with assms show ?thesis
    by (cases g; simp only: call.simps call_ip.simps argv_defs no_argv_defs pass_argv_defs needs.simps ip_fn.case argv_take;
        simp only: exec_take)
next
  case (Fw g)
  with assms show ?thesis
    by (cases g; simp only: call.simps call_fw.simps argv_defs no_argv_defs pass_argv_defs needs.simps fw_fn.case argv_take;
        simp only: checks_take filter_line_take nth_take numeral_less_iff semiring_norm)
next
  case (Vpn g)
  then show ?thesis
    by (cases g; simp only: call.simps call_vpn.simps argv_defs no_argv_defs needs.simps vpn_fn.case argv_take)
qed

section \<open>The table is in order\<close>

lemma strcmp_le_0_iff: "strcmp a b \<le> 0 \<longleftrightarrow> a \<le> b"
  using strcmp_less_0_iff [of a b] strcmp_eq_0_iff [of a b] by (auto simp: order_le_less)

lemma qsort_insert_sorted:
  assumes "\<And>x y. cmp x y \<le> 0 \<longleftrightarrow> key x \<le> (key y :: string)" and "sorted (map key xs)"
  shows "sorted (map key (qsort_insert cmp x xs))"
  using assms(2) by (induction xs) (auto simp: qsort_insert_props assms(1) intro: order_trans)

lemma qsort_sorted:
  assumes "\<And>x y. cmp x y \<le> 0 \<longleftrightarrow> key x \<le> (key y :: string)"
  shows "sorted (map key (qsort cmp xs))"
  unfolding qsort_def by (induction xs) (simp_all add: qsort_insert_sorted [OF assms])

definition slots_sorted :: "'f cmdvec \<Rightarrow> bool" where
  "slots_sorted v \<longleftrightarrow> list_all (\<lambda>c. sorted (map (estring \<circ> the) (cmd_vector c))) (somes v)"

lemma sort_node_sorted: "cmd_sort_node v = Ret v' \<Longrightarrow> slots_sorted v'"
proof (induction v arbitrary: v' rule: cmd_sort_node.induct)
  case (3 n v)
  then obtain m w where m: "sort_cnode n = Ret m" "cmd_sort_node v = Ret w" "v' = Some m # w"
    by (auto simp: outcome_simps)
  have "cmp_node x y \<le> 0 \<longleftrightarrow> estring x \<le> estring y" for x y :: "'a cmd_element"
    by (simp add: cmp_node_def strcmp_le_0_iff)
  then have "sorted (map estring (qsort cmp_node (map the (cmd_vector n))))" by (rule qsort_sorted)
  then have "sorted (map (estring \<circ> the) (cmd_vector m))"
    using m(1) by (auto simp: sort_cnode_def sort_last_desc_def comp_def split: if_splits)
  with 3 m show ?case by (auto simp: slots_sorted_def)
qed (auto simp: slots_sorted_def outcome_simps)

section \<open>Properties\<close>

text \<open>
  C13. The table is well formed: installing the 94 commands and sorting them succeeds. Every node then
  holds exactly the commands that were installed in it, compiled from their specifications, each under
  its own string and in the order of the strings; and every specification parses into words that are not
  empty, and asks the user for at least as many arguments as the handler reads, which \<open>call_few\<close>
  and \<open>call_take\<close> show of \<open>needs\<close>.
\<close>

theorem command_table_typed:
  "\<exists>v. command_table = Ret v \<and> table_holds all_elements v \<and> slots_sorted v \<and> length all_elements = 94 \<and>
     list_all (\<lambda>(n, e). spec_ok needs e \<and> n \<in> {VIEW_NODE, ENABLE_NODE, CONFIG_NODE}) all_elements"
proof -
  obtain v where v: "command_table = Ret v" "table_holds all_elements v" using command_table_holds by blast
  then have "slots_sorted v" by (auto simp: command_table_def outcome_simps intro: sort_node_sorted)
  moreover have "length all_elements = 94" by (simp add: all_elements_def elements_defs)
  ultimately show ?thesis using v all_specs by blast
qed

end
