(* ===== verification/Vtysh.thy ===== *)
theory Vtysh
  imports Cmd_Table
begin

text \<open>
  The shell itself (\<open>vtysh.c\<close>, \<open>vtysh_main.c\<close>): executing a line, the password prompt,
  loading a configuration file, the prompt, help and completion, and the main program after the
  options have been taken from the command line by \<open>getopt_long\<close>.

  \<open>vty s\<close> is the global vty. A function that works on a vty of its own (\<open>myvty\<close>) gets it as
  an argument; a command that runs on it finds it in the place of the global one, which is put back
  afterwards. The handlers see no other vty than the one they are given.
\<close>

type_synonym state = "command shell"

section \<open>Executing a line\<close>

definition out_line :: "string \<Rightarrow> state \<Rightarrow> state" where
  "out_line l s = emit (Write Stdout (l @ NL)) s"

text \<open>The messages for the error codes; other codes print nothing.\<close>

definition error_message :: "int \<Rightarrow> string option" where
  "error_message ret =
     (if ret = CMD_ERR_AMBIGUOUS then Some ''% Ambiguous command.''
      else if ret = CMD_ERR_NO_MATCH then Some ''% Unknown command.''
      else if ret = CMD_ERR_INCOMPLETE then Some ''% Command incomplete.''
      else None)"

definition vtysh_execute_func :: "env \<Rightarrow> string option \<Rightarrow> state \<Rightarrow> (int \<times> state) outcome" where
  "vtysh_execute_func env line s =
     (case cmd_make_strvec line of
        None \<Rightarrow> Ret (- 1, s)
      | Some vline \<Rightarrow>
          obind (cmd_execute_command (call env) (cmds s) vline (vnode (vty s)) s) (\<lambda>(ret, cmd, s).
            if ret = CMD_SUCCESS_DAEMON then
              (case cmd of
                 None \<Rightarrow> Undef
               | Some e \<Rightarrow> omap (\<lambda>(_, s). (ret, s)) (call env (func e) [] s))
            else (case error_message ret of
                    None \<Rightarrow> Ret (ret, s)
                  | Some m \<Rightarrow> Ret (ret, out_line m s))))"

text \<open>The comparison with the encrypted password: 0 if the line is the password.\<close>

definition in_is_valid_password :: "env \<Rightarrow> string option \<Rightarrow> state \<Rightarrow> int outcome" where
  "in_is_valid_password env passwd s =
     (case (h_enable_encrypt (host s), passwd) of
        (Some enc, Some pw) \<Rightarrow> if enc = [] then Undef else Ret (strcmp enc (e_crypt env pw (take 2 enc)))
      | _ \<Rightarrow> Undef)"

definition set_trytimes :: "int \<Rightarrow> state \<Rightarrow> state" where
  "set_trytimes n s = s\<lparr>host := (host s)\<lparr>h_trytimes := n\<rparr>\<rparr>"

definition vtysh_execute :: "env \<Rightarrow> string option \<Rightarrow> state \<Rightarrow> (int \<times> state) outcome" where
  "vtysh_execute env line s =
     (if vnode (vty s) = AUTH_ENABLE_NODE then
        obind (in_is_valid_password env line s) (\<lambda>r.
          if r = 0 then
            Ret (- 1, set_trytimes 0 (s\<lparr>vty := (vty s)\<lparr>vnode := ENABLE_NODE\<rparr>\<rparr>))
          else if h_trytimes (host s) > 1 then Exit 1
          else Ret (- 1, out_line ''Invalid password!'' (set_trytimes (h_trytimes (host s) + 1) s)))
      else vtysh_execute_func env line s)"

section \<open>Loading a configuration file\<close>

definition on_vty :: "(state \<Rightarrow> ('a \<times> state) outcome) \<Rightarrow> vty \<Rightarrow> state \<Rightarrow> ('a \<times> vty \<times> state) outcome" where
  "on_vty f my s = omap (\<lambda>(r, s'). (r, vty s', s'\<lparr>vty := vty s\<rparr>)) (f (s\<lparr>vty := my\<rparr>))"

definition execute_strict ::
    "env \<Rightarrow> string list \<Rightarrow> vty \<Rightarrow> state \<Rightarrow> ((int \<times> command cmd_element option) \<times> vty \<times> state) outcome" where
  "execute_strict env vline my s =
     on_vty (\<lambda>s. omap (\<lambda>(ret, cmd, s). ((ret, cmd), s))
       (cmd_execute_command_strict (call env) (cmds s) vline (vnode (vty s)) s)) my s"

definition load_message :: "int \<Rightarrow> string \<Rightarrow> state \<Rightarrow> state" where
  "load_message ret b s =
     (if ret = CMD_ERR_AMBIGUOUS then out_line ''% Ambiguous command.'' s
      else if ret = CMD_ERR_NO_MATCH then emit (Write Stdout (''% Unknown command: '' @ b)) s
      else if ret = CMD_ERR_INCOMPLETE then out_line ''% Command incomplete.'' s
      else s)"

text \<open>
  A command of the file: if it fails, \<open>end\<close> and \<open>configure terminal\<close> are executed on the
  global vty, and the command is tried again on the own vty in the configuration node.
\<close>

definition load_command :: "env \<Rightarrow> string list \<Rightarrow> string \<Rightarrow> vty \<Rightarrow> state \<Rightarrow> (vty \<times> state) outcome" where
  "load_command env vline b my s =
     obind (execute_strict env vline my s) (\<lambda>((ret, cmd), my, s).
     obind (if ret \<noteq> CMD_SUCCESS \<and> ret \<noteq> CMD_SUCCESS_DAEMON \<and> ret \<noteq> CMD_WARNING then
              obind (vtysh_execute env (Some ''end'') s) (\<lambda>(_, s).
              obind (vtysh_execute env (Some ''configure terminal'') s) (\<lambda>(_, s).
              execute_strict env vline (my\<lparr>vnode := CONFIG_NODE\<rparr>) s))
            else Ret ((ret, cmd), my, s)) (\<lambda>((ret, cmd), my, s).
     if ret = CMD_SUCCESS_DAEMON then
       (case cmd of
          None \<Rightarrow> Undef
        | Some e \<Rightarrow> omap (\<lambda>(_, my, s). (my, s)) (on_vty (call env (func e) []) my s))
     else Ret (my, load_message ret b s)))"

fun load_lines :: "env \<Rightarrow> string list \<Rightarrow> vty \<Rightarrow> state \<Rightarrow> (vty \<times> state) outcome" where
  "load_lines env [] my s = Ret (my, s)"
| "load_lines env (line # ls) my s =
     (let b = cstr line; my = my\<lparr>vbuf := b\<rparr> in
      if b \<noteq> [] \<and> hd b = CHR ''#'' then load_lines env ls my s
      else
        let my = (if b \<noteq> [] \<and> hd b = CHR ''!'' then my\<lparr>vnode := CONFIG_NODE\<rparr> else my) in
        case cmd_make_strvec (Some b) of
          None \<Rightarrow> load_lines env ls my s
        | Some vline \<Rightarrow> obind (load_command env vline b my s) (\<lambda>(my, s). load_lines env ls my s))"

definition vtysh_config_from_file :: "env \<Rightarrow> vty \<Rightarrow> string \<Rightarrow> state \<Rightarrow> (int \<times> state) outcome" where
  "vtysh_config_from_file env my filename s =
     (case e_read env (trace s) filename of
        None \<Rightarrow> Ret (- 1, s)
      | Some content \<Rightarrow>
          omap (\<lambda>(my, s). (CMD_SUCCESS, s)) (load_lines env (fgets_all VTY_BUFSIZ content) my s))"

definition vtysh_load_config :: "env \<Rightarrow> string \<Rightarrow> state \<Rightarrow> (int \<times> state) outcome" where
  "vtysh_load_config env filename s =
     vtysh_config_from_file env (vty_new\<lparr>vtype := VTY_FILE, vnode := CONFIG_NODE\<rparr>) filename s"

definition vtysh_boot_config :: "env \<Rightarrow> string \<Rightarrow> state \<Rightarrow> (int \<times> state) outcome" where
  "vtysh_boot_config env filename s =
     vtysh_config_from_file env (vty_new\<lparr>vtype := VTY_SHELL, vnode := CONFIG_NODE\<rparr>) filename s"

section \<open>Prompt, help and completion\<close>

definition vtysh_prompt :: "env \<Rightarrow> state \<Rightarrow> (string \<times> state) outcome" where
  "vtysh_prompt env s =
     (let s = (if h_name (host s) = None then s\<lparr>host := (host s)\<lparr>h_name := Some (e_nodename env)\<rparr>\<rparr> else s) in
      obind (cmd_prompt (cmds s) (vnode (vty s))) (\<lambda>p.
      obind (vformat p [the (h_name (host s))]) (\<lambda>text. Ret (snprintf 100 text, s))))"

text \<open>
  The words of the line in front of the cursor and the one it is on: a NULL is added after a blank and
  on an empty line.
\<close>

definition split_cursor :: "string \<Rightarrow> string list \<times> string option" where
  "split_cursor line =
     (case cmd_make_strvec (Some line) of
        None \<Rightarrow> ([], None)
      | Some vline \<Rightarrow>
          if line \<noteq> [] \<and> isspace (last line) then (vline, None)
          else (butlast vline, Some (last vline)))"

definition desc_name :: "desc \<Rightarrow> string" where
  "desc_name d = (if cmd d \<noteq> [] \<and> hd (cmd d) = CHR ''.'' then tl (cmd d) else cmd d)"

definition pad :: "nat \<Rightarrow> string \<Rightarrow> string" where
  "pad width w = w @ replicate (width - length w) (CHR '' '')"

definition describe_text :: "desc list \<Rightarrow> string" where
  "describe_text ds =
     (let shown = filter (\<lambda>d. cmd d \<noteq> []) ds;
          width = foldr (\<lambda>d w. max (length (desc_name d)) w) shown 0
      in concat (map (\<lambda>d. case str d of
             None \<Rightarrow> ''  '' @ desc_name d @ NL
           | Some t \<Rightarrow> ''  '' @ pad width (desc_name d) @ ''  '' @ t @ NL) shown))"

text \<open>
  The status is read even where \<open>cmd_describe_command\<close> did not set it, and a result of NULL
  would be dereferenced.
\<close>

definition vtysh_rl_describe :: "string \<Rightarrow> state \<Rightarrow> state outcome" where
  "vtysh_rl_describe line s =
     (let (pre, command) = split_cursor line in
      obind (cmd_describe_command (cmds s) pre command (vnode (vty s))) (\<lambda>(status, describe).
        let s = emit (Write Stdout NL) s in
        case status of
          None \<Rightarrow> Undef
        | Some ret \<Rightarrow>
            if ret = CMD_ERR_AMBIGUOUS then Ret (out_line ''% Ambiguous command.'' s)
            else if ret = CMD_ERR_NO_MATCH then Ret (out_line ''% There is no matched command.'' s)
            else (case describe of
                    None \<Rightarrow> Undef
                  | Some ds \<Rightarrow> Ret (emit (Write Stdout (describe_text ds)) s))))"

text \<open>
  The generator readline calls: on the first call of a series it computes the matches; then each call
  returns the next one. The static variables are the matches (no list is the same as an empty one
  here), the index of the next, and the completion status.
\<close>

record gen_state =
  matched :: "string list"
  gindex :: nat
  complete_status :: int

definition command_generator :: "string \<Rightarrow> bool \<Rightarrow> gen_state \<Rightarrow> state \<Rightarrow> (string option \<times> gen_state) outcome" where
  "command_generator line first g s =
     obind (if \<not> first then Ret (Inr g)
            else
              let g = g\<lparr>gindex := 0\<rparr> in
              if vnode (vty s) = AUTH_NODE \<or> vnode (vty s) = AUTH_ENABLE_NODE then Ret (Inl g)
              else if cmd_make_strvec (Some line) = None then Ret (Inl g)
              else
                let (pre, command) = split_cursor line in
                omap (\<lambda>(status, m). Inr (g\<lparr>matched := (case m of None \<Rightarrow> [] | Some ms \<Rightarrow> ms),
                                            complete_status := status\<rparr>))
                  (cmd_complete_command (cmds s) pre command (vnode (vty s)))) (\<lambda>r.
       case r of
         Inl g \<Rightarrow> Ret (None, g)
       | Inr g \<Rightarrow>
           if gindex g < length (matched g)
           then Ret (Some (matched g ! gindex g), g\<lparr>gindex := Suc (gindex g)\<rparr>)
           else Ret (None, g))"

section \<open>The main program\<close>

record options =
  boot_flag :: bool
  eval_line :: "string option"
  config_file :: string

text \<open>The options that \<open>getopt_long\<close> returns, with their arguments.\<close>

fun parse_options :: "(char \<times> string) list \<Rightarrow> options \<Rightarrow> options outcome" where
  "parse_options [] opts = Ret opts"
| "parse_options ((opt, optarg) # os) opts =
     (if opt = CHR 0x00 then parse_options os opts
      else if opt = CHR ''b'' then parse_options os (opts\<lparr>boot_flag := True\<rparr>)
      else if opt = CHR ''e'' then parse_options os (opts\<lparr>eval_line := Some optarg\<rparr>)
      else if opt = CHR ''h'' then Exit 0
      else if opt = CHR ''c'' then parse_options os (opts\<lparr>config_file := optarg\<rparr>)
      else if opt = CHR ''v'' then Exit 0
      else Exit 1)"

definition default_options :: "string option \<Rightarrow> options" where
  "default_options vtysh_config =
     \<lparr>boot_flag = False, eval_line = None,
      config_file = (case vtysh_config of None \<Rightarrow> CONFIG_DIR @ ''/'' @ CONFIG_FILE | Some f \<Rightarrow> f)\<rparr>"

definition init_host :: host where
  "init_host = \<lparr>h_name = None, h_password = None, h_password_encrypt = None, h_enable = None,
     h_enable_encrypt = None, h_config = None, h_trytimes = 0, h_chpasswd = 0\<rparr>"

text \<open>\<open>config_init\<close>, \<open>cmd_init\<close>, \<open>vtysh_init_vty\<close>, \<open>cmd_parse_init\<close> and
  \<open>cmd_sort_node\<close>.\<close>

definition init_state :: "state outcome" where
  "init_state =
     omap (\<lambda>v. \<lparr>cmds = v, host = init_host, config_top = [], configvec = vector_init 1,
       vty = vty_new\<lparr>vtype := VTY_SHELL, vnode := VIEW_NODE\<rparr>, trace = []\<rparr>) command_table"

definition in_show_welcome :: "env \<Rightarrow> state \<Rightarrow> state outcome" where
  "in_show_welcome env s =
     obind (sprintf 1024 (''Build On '' @ fst (e_build env) @ '' '' @ snd (e_build env))) (\<lambda>build.
       let build = (case e_read env (trace s) ''/BUILD'' of
                      None \<Rightarrow> build
                    | Some c \<Rightarrow> (case fgets 1024 c of None \<Rightarrow> build | Some (l, _) \<Rightarrow> cstr l))
       in Ret (out_line build s))"

text \<open>\<open>-e\<close>: the three lines are executed and the configuration is written.\<close>

definition eval_mode :: "env \<Rightarrow> string \<Rightarrow> state \<Rightarrow> (int \<times> state) outcome" where
  "eval_mode env line s =
     obind (vtysh_execute env (Some ''enable'') s) (\<lambda>(_, s).
     obind (vtysh_execute env (Some ''config terminal'') s) (\<lambda>(_, s).
     obind (vtysh_execute env (Some line) s) (\<lambda>(_, s).
       case h_config (host s) of
         None \<Rightarrow> Ret (CMD_WARNING, s)
       | Some file \<Rightarrow>
           if \<not> e_open_w env (trace s) file then Ret (CMD_WARNING, s)
           else omap (\<lambda>s. (0, s)) (dump_to env (File file) (emit (Open_w file) s)))))"

text \<open>
  The command loop on the lines readline returns (\<open>None\<close> at the end of the input, where the loop
  goes on): the prompt is printed and the line is executed.
\<close>

fun main_loop :: "env \<Rightarrow> string option list \<Rightarrow> state \<Rightarrow> state outcome" where
  "main_loop env [] s = Ret s"
| "main_loop env (line # ls) s =
     obind (vtysh_prompt env s) (\<lambda>(p, s).
     obind (vtysh_execute env line (emit (Write Stdout p) s)) (\<lambda>(_, s).
     main_loop env ls s))"

text \<open>
  \<open>main\<close>: the exit status and the last state, or with no option the state in which the command
  loop has used up \<open>inputs\<close>.
\<close>

definition main :: "env \<Rightarrow> options \<Rightarrow> string option list \<Rightarrow> (int option \<times> state) outcome" where
  "main env opts inputs =
     obind init_state (\<lambda>s.
       if boot_flag opts then
         omap (\<lambda>(ret, s). (Some ret, s)) (vtysh_boot_config env (config_file opts) s)
       else
         obind (in_show_welcome env s) (\<lambda>s.
         obind (vtysh_load_config env (config_file opts)
                  (s\<lparr>host := (host s)\<lparr>h_config := Some (config_file opts)\<rparr>\<rparr>)) (\<lambda>(_, s).
           case eval_line opts of
             Some line \<Rightarrow> omap (\<lambda>(ret, s). (Some ret, s)) (eval_mode env line s)
           | None \<Rightarrow> omap (\<lambda>s. (None, s)) (main_loop env inputs s))))"

end
