(* ===== verification/Session.thy ===== *)
theory Session
  imports Vtysh
begin

text \<open>
  Sessions with the shell: what every line a user types, and every line of a configuration file,
  keeps of the state; which states can be reached; which commands the nodes give access to.
\<close>

section \<open>What a step keeps\<close>

definition no_password :: "state \<Rightarrow> bool" where
  "no_password s \<longleftrightarrow> h_enable (host s) = None \<and> h_enable_encrypt (host s) = None"

definition user_node :: "vty \<Rightarrow> bool" where
  "user_node v \<longleftrightarrow> vnode v \<in> {VIEW_NODE, ENABLE_NODE, CONFIG_NODE}"

definition step_ok :: "state \<Rightarrow> state \<Rightarrow> bool" where
  "step_ok s t \<longleftrightarrow> cmds t = cmds s \<and> configvec t = configvec s \<and> h_enable (host t) = h_enable (host s) \<and>
     h_enable_encrypt (host t) = h_enable_encrypt (host s) \<and> h_config (host t) = h_config (host s) \<and>
     vtype (vty t) = vtype (vty s) \<and> prefix (trace s) (trace t) \<and>
     (sorted (config_top s) \<longrightarrow> sorted (config_top t)) \<and>
     (h_chpasswd (host s) = 0 \<longrightarrow> h_chpasswd (host t) = 0) \<and>
     (no_password s \<longrightarrow> user_node (vty s) \<longrightarrow> user_node (vty t))"

interpretation session: shell_rel step_ok
proof (unfold_locales, goal_cases)
  case (2 s t u)
  then show ?case by (auto simp: step_ok_def no_password_def)
next
  case (4 s x)
  then show ?case by (simp add: step_ok_def lines_step_sorted)
qed (auto simp: step_ok_def emit_def no_password_def user_node_def)

text \<open>The view node gives no access to the configuration.\<close>

definition same_config :: "state \<Rightarrow> state \<Rightarrow> bool" where
  "same_config s t \<longleftrightarrow> config_top t = config_top s \<and> configvec t = configvec s \<and> host t = host s \<and> cmds t = cmds s"

interpretation view: view_rel same_config
  by unfold_locales (auto simp: same_config_def emit_def)

lemma execute_withE:
  assumes "execute_with filt invoke v vline n s = Ret (ret, found, t)"
  obtains "t = s" | e argv where "find_command filt v vline n = Ret (Inr (e, argv))" "found = Some e"
    "invoke (func e) argv s = Ret (ret, t)"
proof -
  obtain r where r: "find_command filt v vline n = Ret r"
    using assms by (auto simp: execute_with_def outcome_simps)
  show thesis
  proof (cases r)
    case (Inl err)
    then show ?thesis using assms r that(1) by (simp add: execute_with_def)
  next
    case (Inr p)
    obtain e argv where "p = (e, argv)" by fastforce
    then show ?thesis using assms r Inr that
      by (auto simp: execute_with_def outcome_simps split: if_splits)
  qed
qed

lemma execute_step:
  assumes "execute_with filt (call env) v vline n s = Ret (ret, found, t)"
  shows "step_ok s t"
  using assms
proof (cases rule: execute_withE)
  case 1
  then show ?thesis by (simp add: session.refl)
next
  case (2 e argv)
  then show ?thesis using session.yields_call [of env "func e" argv] by (auto simp: yields_def)
qed

lemma out_line_step [simp]: "step_ok s (out_line m s)"
  by (simp add: out_line_def session.emit_rel)

lemma vtysh_execute_func_step:
  assumes "vtysh_execute_func env line s = Ret (ret, t)"
  shows "step_ok s t"
proof (cases "cmd_make_strvec line")
  case None
  then show ?thesis using assms by (simp add: vtysh_execute_func_def session.refl)
next
  case (Some vline)
  then obtain ret' found u where x: "cmd_execute_command (call env) (cmds s) vline (vnode (vty s)) s = Ret (ret', found, u)"
    using assms by (auto simp: vtysh_execute_func_def outcome_simps)
  then have su: "step_ok s u" unfolding cmd_execute_command_def by (rule execute_step)
  have "step_ok u t"
    using assms Some x session.yields_call
    by (auto simp: vtysh_execute_func_def outcome_simps yields_def session.refl split: if_splits option.splits)
  with su show ?thesis by (rule session.trans)
qed

lemma vtysh_execute_step:
  assumes "vtysh_execute env line s = Ret (ret, t)" and "user_node (vty s)"
  shows "step_ok s t"
  using assms vtysh_execute_func_step by (auto simp: vtysh_execute_def user_node_def)

section \<open>Loading a file\<close>

text \<open>A step on another vty keeps the same of the rest of the state, and the global vty.\<close>

lemma on_vty_step:
  assumes "on_vty f my s = Ret (r, my', t)" and "\<And>u r v. f u = Ret (r, v) \<Longrightarrow> step_ok u v"
  shows "step_ok s t \<and> vty t = vty s \<and> vtype my' = vtype my \<and> (no_password s \<longrightarrow> user_node my \<longrightarrow> user_node my')"
proof -
  obtain v where v: "f (s\<lparr>vty := my\<rparr>) = Ret (r, v)" "my' = vty v" "t = v\<lparr>vty := vty s\<rparr>"
    using assms(1) by (auto simp: on_vty_def outcome_simps)
  from assms(2) [OF v(1)] v(2,3) show ?thesis by (auto simp: step_ok_def no_password_def)
qed

lemma execute_strict_step:
  assumes "execute_strict env vline my s = Ret (r, my', t)"
  shows "step_ok s t \<and> vty t = vty s \<and> vtype my' = vtype my \<and> (no_password s \<longrightarrow> user_node my \<longrightarrow> user_node my')"
  using assms unfolding execute_strict_def
  by (rule on_vty_step) (auto simp: outcome_simps cmd_execute_command_strict_def dest: execute_step)

lemma load_message_step: "step_ok s (load_message ret b s)"
  by (simp add: load_message_def session.emit_rel session.refl)

lemma load_message_vty [simp]: "vty (load_message ret b s) = vty s"
  by (simp add: load_message_def out_line_def)

definition load_ok :: "vty \<Rightarrow> state \<Rightarrow> vty \<Rightarrow> state \<Rightarrow> bool" where
  "load_ok my s my' t \<longleftrightarrow> step_ok s t \<and> vtype my' = vtype my \<and> (no_password s \<longrightarrow> user_node my \<longrightarrow> user_node my')"

lemma load_ok_trans:
  "load_ok my s my1 s1 \<Longrightarrow> load_ok my1 s1 my2 s2 \<Longrightarrow> load_ok my s my2 s2"
  using session.trans by (auto simp: load_ok_def) (auto simp: step_ok_def no_password_def)

lemma load_command_step:
  assumes "load_command env vline b my s = Ret (my', t)" and "no_password s" and "user_node (vty s)"
  shows "load_ok my s my' t"
proof -
  obtain ret c my1 s1 where 1: "execute_strict env vline my s = Ret ((ret, c), my1, s1)"
    using assms(1) by (auto simp: load_command_def outcome_simps)
  note x1 = execute_strict_step [OF 1]
  define again where "again = (ret \<noteq> CMD_SUCCESS \<and> ret \<noteq> CMD_SUCCESS_DAEMON \<and> ret \<noteq> CMD_WARNING)"
  define retry where "retry = (if again then
      obind (vtysh_execute env (Some ''end'') s1) (\<lambda>(_, s).
      obind (vtysh_execute env (Some ''configure terminal'') s) (\<lambda>(_, s).
      execute_strict env vline (my1\<lparr>vnode := CONFIG_NODE\<rparr>) s)) else Ret ((ret, c), my1, s1))"
  obtain ret2 c2 my2 s2 where 2: "retry = Ret ((ret2, c2), my2, s2)"
    using assms(1) 1 by (auto simp: load_command_def retry_def again_def outcome_simps)
  have r: "load_ok my1 s1 my2 s2"
  proof (cases again)
    case False
    then show ?thesis using 2 by (simp add: retry_def load_ok_def session.refl)
  next
    case True
    then obtain r3 s3 r4 s4 where 3: "vtysh_execute env (Some ''end'') s1 = Ret (r3, s3)"
        "vtysh_execute env (Some ''configure terminal'') s3 = Ret (r4, s4)"
        "execute_strict env vline (my1\<lparr>vnode := CONFIG_NODE\<rparr>) s4 = Ret ((ret2, c2), my2, s2)"
      using 2 by (auto simp: retry_def outcome_simps)
    have u1: "user_node (vty s1)" "no_password s1"
      using x1 assms(2,3) by (auto simp: step_ok_def no_password_def)
    note v3 = vtysh_execute_step [OF 3(1) u1(1)]
    then have u3: "user_node (vty s3)" "no_password s3" using u1 by (auto simp: step_ok_def no_password_def)
    note v4 = vtysh_execute_step [OF 3(2) u3(1)]
    then have "no_password s4" using u3 by (auto simp: step_ok_def no_password_def)
    then show ?thesis
      using execute_strict_step [OF 3(3)] session.trans [OF v3 v4] session.trans
      by (auto simp: load_ok_def user_node_def)
  qed
  have "load_ok my2 s2 my' t"
  proof (cases "ret2 = CMD_SUCCESS_DAEMON")
    case True
    then obtain e p where "c2 = Some e" "on_vty (call env (func e) []) my2 s2 = Ret (p, my', t)"
      using assms(1) 1 2 [unfolded retry_def again_def]
      by (auto simp: load_command_def outcome_simps split: option.splits)
    then show ?thesis using on_vty_step [of "call env (func e) []"] session.yields_call
      by (auto simp: load_ok_def yields_def)
  next
    case False
    then show ?thesis using assms(1) 1 2 [unfolded retry_def again_def] load_message_step
      by (auto simp: load_command_def load_ok_def outcome_simps)
  qed
  with r x1 show ?thesis using load_ok_trans by (metis load_ok_def)
qed

lemma load_lines_step:
  assumes "load_lines env ls my s = Ret (my', t)" and "no_password s" and "user_node (vty s)" and "user_node my"
  shows "load_ok my s my' t"
  using assms
proof (induction ls arbitrary: my s)
  case Nil
  then show ?case by (simp add: load_ok_def session.refl)
next
  case (Cons line ls)
  let ?b = "cstr line"
  let ?my = "if ?b \<noteq> [] \<and> hd ?b = CHR ''!'' then my\<lparr>vbuf := ?b, vnode := CONFIG_NODE\<rparr> else my\<lparr>vbuf := ?b\<rparr>"
  have my: "user_node ?my" "vtype ?my = vtype my" using Cons.prems(4) by (auto simp: user_node_def)
  have unset: "load_ok ?my s my' t \<Longrightarrow> load_ok my s my' t" "load_ok (my\<lparr>vbuf := ?b\<rparr>) s my' t \<Longrightarrow> load_ok my s my' t"
    using Cons.prems(4) my by (auto simp: load_ok_def user_node_def)
  consider "load_lines env ls (my\<lparr>vbuf := ?b\<rparr>) s = Ret (my', t)" | "load_lines env ls ?my s = Ret (my', t)"
    | vline my1 s1 where "load_command env vline ?b ?my s = Ret (my1, s1)" "load_lines env ls my1 s1 = Ret (my', t)"
    using Cons.prems(1) by (auto simp: Let_def outcome_simps split: if_splits option.splits)
  then show ?case
  proof cases
    case 1
    have "user_node (my\<lparr>vbuf := ?b\<rparr>)" using Cons.prems(4) by (simp add: user_node_def)
    from Cons.IH [OF 1 Cons.prems(2,3) this] show ?thesis by (rule unset(2))
  next
    case 2
    from Cons.IH [OF 2 Cons.prems(2,3) my(1)] show ?thesis by (rule unset(1))
  next
    case 3
    note c = load_command_step [OF 3(1) Cons.prems(2,3)]
    then have "no_password s1" "user_node (vty s1)" "user_node my1"
      using Cons.prems(2,3) my(1) by (auto simp: load_ok_def step_ok_def no_password_def)
    from load_ok_trans [OF c Cons.IH [OF 3(2) this]] show ?thesis by (rule unset(1))
  qed
qed

lemma load_config_step:
  assumes "vtysh_config_from_file env my file s = Ret (r, t)" and "no_password s" and "user_node (vty s)"
    and "user_node my"
  shows "step_ok s t"
  using assms load_lines_step [of env _ my s]
  by (auto simp: vtysh_config_from_file_def outcome_simps load_ok_def session.refl split: option.splits)

section \<open>Commands typed in full\<close>

definition string_words :: "string \<Rightarrow> string list list outcome" where
  "string_words s = omap (map (map cmd)) (cmd_make_descvec s None)"

definition word_spells :: "string list \<Rightarrow> string list list \<Rightarrow> bool" where
  "word_spells ws wss \<longleftrightarrow> length ws \<le> length wss \<and> list_all (\<lambda>(w, ds). w \<in> set ds) (zip ws wss)"

text \<open>No command of the node but the one with the words as its string has them as its first words.\<close>

definition only_command :: "node_type \<Rightarrow> string list \<Rightarrow> bool" where
  "only_command n ws \<longleftrightarrow>
     list_all (\<lambda>w. spec_word w \<and> completion_kind w w = exact_match) ws \<and>
     list_all (\<lambda>(m, f, wss). m = n \<longrightarrow> wss = map (\<lambda>w. [w]) ws \<or> \<not> word_spells ws wss) command_specs"

lemma print_keywords: "print_words (map (\<lambda>w. [w]) ws) = join (CHR '' '') ws"
  by (simp add: print_words_def comp_def)

lemma string_words_keywords:
  assumes "list_all spec_word ws"
  shows "string_words (join (CHR '' '') ws) = Ret (map (\<lambda>w. [w]) ws)"
  using descvec_print_words [of "map (\<lambda>w. [w]) ws" None] assms
  by (simp add: string_words_def print_keywords list_all_iff)

lemma filter_one:
  assumes "distinct (map f xs)" and "x \<in> set xs" and "P x" and "\<And>y. y \<in> set xs \<Longrightarrow> P y \<Longrightarrow> f y = f x"
  shows "filter P xs = [x]"
proof -
  have "set (filter P xs) = {x}" using assms by (auto dest: inj_onD [OF distinct_map [THEN iffD1, THEN conjunct2]])
  moreover have "distinct (filter P xs)" using assms(1) by (simp add: distinct_map)
  ultimately show ?thesis by (cases "filter P xs"; cases "tl (filter P xs)") auto
qed

lemma somes_the: "None \<notin> set v \<Longrightarrow> somes v = map the v"
proof (induction v)
  case (Cons a v)
  then show ?case by (cases a) auto
qed simp

lemma compiled_spells:
  assumes "compiled e0 e" and "spells ws 0 e"
  shows "\<exists>wss. string_words (estring e0) = Ret wss \<and> word_spells ws wss"
proof -
  obtain sv where sv: "cmd_make_descvec (estring e0) (Some (doc e0)) = Ret sv" "list_all2 same_words (strvec e) sv"
    using assms(1) by (auto simp: compiled_def)
  have "string_words (estring e0) = Ret (map (map cmd) sv)"
    using cmd_make_descvec_words [of "estring e0" None "Some (doc e0)"] sv(1) by (simp add: string_words_def)
  moreover have "j < length sv \<and> ws ! j \<in> set (map cmd (sv ! j))" if "j < length ws" for j
  proof -
    have "exact_at (ws ! j) j e" using assms(2) that by (auto simp: spells_def)
    then have "j < length (strvec e)" "ws ! j \<in> set (map cmd (strvec e ! j))"
      by (auto simp: exact_at_def list_ex_iff match_left_def)
    then show ?thesis using sv(2) by (auto simp: list_all2_conv_all_nth same_words_def)
  qed
  then have "length ws \<le> length sv" "\<forall>j < length ws. ws ! j \<in> set (map cmd (sv ! j))"
    by (meson leI order.strict_iff_not, blast)
  ultimately show ?thesis by (auto simp: word_spells_def list_all_length)
qed

lemma compiled_keywords:
  assumes "compiled e0 e" and "string_words (estring e0) = Ret (map (\<lambda>w. [w]) ws)"
  shows "map (map cmd) (strvec e) = map (\<lambda>w. [w]) ws \<and> cmdsize e \<le> length ws"
proof -
  obtain sv where sv: "cmd_make_descvec (estring e0) (Some (doc e0)) = Ret sv"
      "list_all2 same_words (strvec e) sv" "cmdsize e = cmd_cmdsize sv"
    using assms(1) by (auto simp: compiled_def)
  have w: "map (map cmd) sv = map (\<lambda>w. [w]) ws"
    using cmd_make_descvec_words [of "estring e0" None "Some (doc e0)"] sv(1) assms(2) by (simp add: string_words_def)
  have len: "length sv = length ws" "length (strvec e) = length ws"
    using w sv(2) by (metis length_map, metis length_map list_all2_lengthD)
  have at: "map cmd (strvec e ! j) = [ws ! j]" if j: "j < length ws" for j
  proof -
    have "map cmd (sv ! j) = [ws ! j]" using w j len(1) by (metis (no_types) nth_map)
    moreover have "same_words (strvec e ! j) (sv ! j)" using sv(2) j len(1) by (simp add: list_all2_conv_all_nth)
    ultimately have "length (map cmd (strvec e ! j)) = length [ws ! j]" "set (map cmd (strvec e ! j)) = set [ws ! j]"
      unfolding same_words_def by (metis length_map, metis)
    then show ?thesis by (cases "strvec e ! j") auto
  qed
  have "map (map cmd) (strvec e) = map (\<lambda>w. [w]) ws"
    by (rule nth_equalityI) (simp_all add: len(2) at)
  moreover have "cmd_cmdsize sv \<le> length sv" by (induction sv) auto
  ultimately show ?thesis using sv(3) len(1) by simp
qed

lemma collect_args_keywords:
  assumes "map (map cmd) sv = map (\<lambda>w. [w]) ws" and "list_all (\<lambda>w. completion_kind w w = exact_match) ws"
    and "length argv < CMD_ARGC_MAX"
  shows "collect_args sv ws False argv = Ret (Inr argv)"
  using assms
proof (induction ws arbitrary: sv)
  case (Cons w ws)
  then obtain d sv' where "sv = [d] # sv'" "cmd d = w" "map (map cmd) sv' = map (\<lambda>w. [w]) ws" by auto
  moreover have "\<not> CMD_VARARG w" "\<not> CMD_OPTION w" "\<not> CMD_VARIABLE w"
    using Cons.prems(2) by (auto simp: completion_kind_def split: if_splits)
  ultimately show ?case using Cons by (simp add: arg_step_def Let_def)
qed simp

lemma keyword_lookup:
  assumes "table_holds all_elements v" and "n \<in> set user_nodes" and "only_command n ws" and "ws \<noteq> []"
    and "(n, e0) \<in> set all_elements" and "estring e0 = join (CHR '' '') ws"
  shows "\<exists>e. compiled e0 e \<and> find_command cmd_filter_by_completion v ws n = Ret (Inr (e, []))"
proof -
  obtain c where c: "slots_lookup v (node_index n) = Some c" "holds_elements all_elements n c"
    using table_holds_slot [OF assms(1,2)] by blast
  then have vec: "cmd_node_vector v n = Ret (cmd_vector c)" by (simp add: cmd_node_vector_def node_slot_def)
  obtain e where e: "Some e \<in> set (cmd_vector c)" "compiled e0 e"
    using c(2) assms(5) by (auto simp: holds_elements_def)
  have kw: "list_all (\<lambda>w. completion_kind w w = exact_match) ws" "string_words (estring e0) = Ret (map (\<lambda>w. [w]) ws)"
    using assms(3,6) string_words_keywords [of ws] by (auto simp: only_command_def list_all_iff)
  note ew = compiled_keywords [OF e(2) kw(2)]
  have type: "completion_filter.types_exactly (ws ! j) j e" if j: "j < length ws" for j
  proof -
    have "j < length (strvec e)" "map cmd (strvec e ! j) = [ws ! j]"
      using ew j by (metis length_map, metis length_map nth_map)
    then show ?thesis using kw(1) j by (auto simp: completion_filter.types_exactly_def list_all_length)
  qed
  have "filter (\<lambda>e'. cmdsize e' \<le> length ws \<and> spells ws 0 e') (somes (cmd_vector c)) = [e]"
  proof (rule filter_one [of estring])
    have none: "None \<notin> set (cmd_vector c)" using c(2) by (simp add: holds_elements_def)
    then show "distinct (map estring (somes (cmd_vector c)))"
      using c(2) by (simp add: holds_elements_def somes_the comp_def)
    show "e \<in> set (somes (cmd_vector c))" using e(1) by (simp add: set_somes)
    show "cmdsize e \<le> length ws \<and> spells ws 0 e"
      using ew type completion_filter.kind_exact
      unfolding spells_def exact_at_def completion_filter.types_exactly_def list_ex_iff by (metis add_0)
    show "estring y = estring e" if y: "y \<in> set (somes (cmd_vector c))" "cmdsize y \<le> length ws \<and> spells ws 0 y" for y
    proof -
      obtain y0 where y0: "(n, y0) \<in> set all_elements" "compiled y0 y"
        using c(2) y(1) unfolding holds_elements_def set_somes by blast
      obtain wss where w: "(n, func y0, wss) \<in> set command_specs" "estring y0 = print_words wss"
          "string_words (estring y0) = Ret wss"
        using element_spec [OF y0(1), of None] by (auto simp: string_words_def)
      then have "word_spells ws wss" using compiled_spells [OF y0(2), of ws] y(2) by auto
      then have "estring y0 = join (CHR '' '') ws"
        using assms(3) w(1,2) print_keywords by (fastforce simp: only_command_def list_all_iff)
      then show ?thesis using y0(2) e(2) assms(6) by (simp add: compiled_def)
    qed
  qed
  from completion_filter.find_command_exact [OF vec assms(4) type this]
  show ?thesis using collect_args_keywords [of "strvec e" ws "[]"] ew kw(1) e(2)
    by (auto simp: CMD_ARGC_MAX_def)
qed

section \<open>Reachable states\<close>

text \<open>
  The states in which the command loop of \<open>main\<close> waits for a line: after the configuration was
  loaded, and after every line that was executed.
\<close>

inductive reachable :: "env \<Rightarrow> options \<Rightarrow> state \<Rightarrow> bool" for env opts where
  start: "init_state = Ret s0 \<Longrightarrow> in_show_welcome env s0 = Ret s1 \<Longrightarrow>
    vtysh_load_config env (config_file opts) (s1\<lparr>host := (host s1)\<lparr>h_config := Some (config_file opts)\<rparr>\<rparr>) = Ret (r, s) \<Longrightarrow>
    reachable env opts s"
| line: "reachable env opts s \<Longrightarrow> vtysh_prompt env s = Ret (p, t) \<Longrightarrow>
    vtysh_execute env line (emit (Write Stdout p) t) = Ret (r, u) \<Longrightarrow> reachable env opts u"

definition session_inv :: "string \<Rightarrow> state \<Rightarrow> bool" where
  "session_inv file s \<longleftrightarrow> table_holds all_elements (cmds s) \<and> no_password s \<and> user_node (vty s) \<and>
     vtype (vty s) = VTY_SHELL \<and> sorted (config_top s) \<and> h_config (host s) = Some file \<and>
     vmax (configvec s) = 0 \<and> h_chpasswd (host s) = 0"

lemma session_inv_step: "session_inv file s \<Longrightarrow> step_ok s t \<Longrightarrow> session_inv file t"
  by (auto simp: session_inv_def step_ok_def no_password_def)

lemma init_state_props:
  assumes "init_state = Ret s"
  shows "table_holds all_elements (cmds s) \<and> no_password s \<and> vnode (vty s) = VIEW_NODE \<and>
    vtype (vty s) = VTY_SHELL \<and> config_top s = [] \<and> vmax (configvec s) = 0 \<and> h_chpasswd (host s) = 0"
proof -
  obtain v where v: "command_table = Ret v" "table_holds all_elements v" using command_table_holds by blast
  from assms [unfolded init_state_def v(1)] v(2) show ?thesis by (auto simp: no_password_def init_host_def vector_init_def Let_def)
qed

lemma vtysh_prompt_step:
  assumes "vtysh_prompt env s = Ret (p, t)"
  shows "step_ok s t \<and> vty t = vty s \<and> config_top t = config_top s \<and> cmds t = cmds s"
  using assms session.refl session.host_rel(1) [of s "Some (e_nodename env)"]
  by (auto simp: vtysh_prompt_def outcome_simps Let_def split: if_splits)

lemma reachable_inv: "reachable env opts s \<Longrightarrow> session_inv (config_file opts) s"
proof (induction rule: reachable.induct)
  case (start s0 s1 r s)
  let ?s = "s1\<lparr>host := (host s1)\<lparr>h_config := Some (config_file opts)\<rparr>\<rparr>"
  have 1: "step_ok s0 s1" using start(2) by (auto simp: in_show_welcome_def outcome_simps Let_def)
  then have inv: "session_inv (config_file opts) ?s"
    using init_state_props [OF start(1)]
    by (auto simp: session_inv_def step_ok_def no_password_def user_node_def)
  then have "step_ok ?s s"
    using load_config_step [of env _ "config_file opts" ?s r s] start(3)
    by (auto simp: vtysh_load_config_def session_inv_def user_node_def)
  with inv show ?case by (rule session_inv_step)
next
  case (line s p t l r u)
  have t: "session_inv (config_file opts) (emit (Write Stdout p) t)"
    using session_inv_step [OF session_inv_step [OF line.IH] session.emit_rel] vtysh_prompt_step [OF line(2)] by blast
  then have "step_ok (emit (Write Stdout p) t) u"
    using vtysh_execute_step [OF line(3)] by (auto simp: session_inv_def)
  with t show ?case by (rule session_inv_step)
qed

lemma vtysh_prompt_defined:
  assumes "table_holds all_elements (cmds s)" and "user_node (vty s)"
  shows "\<exists>p t. vtysh_prompt env s = Ret (p, t)"
proof -
  obtain c where c: "slots_lookup (cmds s) (node_index (vnode (vty s))) = Some c" "prompt c = node_prompt (vnode (vty s))"
    using table_holds_slot [OF assms(1), of "vnode (vty s)"] assms(2)
    by (auto simp: user_node_def user_nodes_def holds_elements_def)
  have "\<exists>text. vformat (node_prompt (vnode (vty s))) [h] = Ret text" for h
    using assms(2) by (auto simp: user_node_def)
  with c show ?thesis
    by (auto simp: vtysh_prompt_def cmd_prompt_def node_slot_def outcome_simps Let_def)
qed

text \<open>A command typed in full runs its handler without arguments.\<close>

lemma run_keyword:
  assumes "session_inv file s" and "only_command (vnode (vty s)) ws" and "ws \<noteq> []"
    and "(vnode (vty s), e0) \<in> set all_elements" and "estring e0 = join (CHR '' '') ws"
    and "cmd_make_strvec (Some (estring e0)) = Some ws" and "daemon e0 = 0"
  shows "call env (func e0) [] s = Exit n \<Longrightarrow> vtysh_execute env (Some (estring e0)) s = Exit n"
    and "call env (func e0) [] s = Ret (CMD_SUCCESS, t) \<Longrightarrow> vtysh_execute env (Some (estring e0)) s = Ret (CMD_SUCCESS, t)"
proof -
  have tab: "table_holds all_elements (cmds s)" and node: "vnode (vty s) \<in> set user_nodes" "vnode (vty s) \<noteq> AUTH_ENABLE_NODE"
    using assms(1) by (auto simp: session_inv_def user_node_def user_nodes_def)
  obtain e where e: "compiled e0 e" "find_command cmd_filter_by_completion (cmds s) ws (vnode (vty s)) = Ret (Inr (e, []))"
    using keyword_lookup [OF tab node(1) assms(2-5)] by blast
  then have "cmd_execute_command (call env) (cmds s) ws (vnode (vty s)) s =
      omap (\<lambda>(ret, s). (ret, Some e, s)) (call env (func e0) [] s)"
    using assms(7) by (simp add: cmd_execute_command_def execute_with_def compiled_def)
  then show "call env (func e0) [] s = Exit n \<Longrightarrow> vtysh_execute env (Some (estring e0)) s = Exit n"
    "call env (func e0) [] s = Ret (CMD_SUCCESS, t) \<Longrightarrow> vtysh_execute env (Some (estring e0)) s = Ret (CMD_SUCCESS, t)"
    using node(2) assms(6)
    by (auto simp: vtysh_execute_def vtysh_execute_func_def error_message_def cmd_codes)
qed

lemma installed_elements:
  "{(VIEW_NODE, config_exit_cmd), (ENABLE_NODE, config_exit_cmd), (CONFIG_NODE, config_exit_cmd),
    (VIEW_NODE, config_enable_cmd), (ENABLE_NODE, config_terminal_cmd)} \<subseteq> set all_elements"
  by (simp add: all_elements_def common_elements_def)

lemma only_commands:
  "only_command VIEW_NODE [''exit'']" "only_command ENABLE_NODE [''exit'']" "only_command CONFIG_NODE [''exit'']"
  "only_command VIEW_NODE [''enable'']" "only_command ENABLE_NODE [''configure'', ''terminal'']"
  by code_simp+

lemma keyword_lines:
  "cmd_make_strvec (Some ''exit'') = Some [''exit'']" "cmd_make_strvec (Some ''enable'') = Some [''enable'']"
  "cmd_make_strvec (Some ''configure terminal'') = Some [''configure'', ''terminal'']"
  by code_simp+

lemma elements_fields:
  "estring config_exit_cmd = ''exit''" "func config_exit_cmd = Common F_config_exit" "daemon config_exit_cmd = 0"
  "estring config_enable_cmd = ''enable''" "func config_enable_cmd = Common F_enable" "daemon config_enable_cmd = 0"
  "estring config_terminal_cmd = ''configure terminal''" "func config_terminal_cmd = Common F_config_terminal"
  "daemon config_terminal_cmd = 0"
  by (simp_all add: config_exit_cmd_def config_enable_cmd_def config_terminal_cmd_def defun_def)

lemma user_node_cases:
  assumes "session_inv file s"
  obtains "vnode (vty s) = VIEW_NODE" | "vnode (vty s) = ENABLE_NODE" | "vnode (vty s) = CONFIG_NODE"
  using assms by (auto simp: session_inv_def user_node_def)

lemma exit_line:
  assumes "session_inv file s"
  shows "vtysh_execute env (Some ''exit'') s =
    (if vnode (vty s) = VIEW_NODE then Exit 0
     else Ret (CMD_SUCCESS, s\<lparr>vty := (vty s)\<lparr>vnode := if vnode (vty s) = CONFIG_NODE then ENABLE_NODE else VIEW_NODE\<rparr>\<rparr>))"
proof -
  have el: "(vnode (vty s), config_exit_cmd) \<in> set all_elements" "only_command (vnode (vty s)) [''exit'']"
    using assms installed_elements only_commands by (auto elim!: user_node_cases)
  have "call env (Common F_config_exit) [] s = (if vnode (vty s) = VIEW_NODE then Exit 0
      else Ret (CMD_SUCCESS, s\<lparr>vty := (vty s)\<lparr>vnode := if vnode (vty s) = CONFIG_NODE then ENABLE_NODE else VIEW_NODE\<rparr>\<rparr>))"
    using assms by (auto elim!: user_node_cases simp: config_exit_def shell_simps)
  then show ?thesis
    using run_keyword [OF assms el(2) _ el(1), of env] by (auto simp: elements_fields keyword_lines split: if_splits)
qed

lemma main_loop_step:
  assumes "session_inv file s"
  obtains p t where "vtysh_prompt env s = Ret (p, t)" "session_inv file (emit (Write Stdout p) t)"
    "vty t = vty s" "config_top t = config_top s"
proof -
  obtain p t where p: "vtysh_prompt env s = Ret (p, t)"
    using vtysh_prompt_defined [of s env] assms by (auto simp: session_inv_def)
  from vtysh_prompt_step [OF p] assms show ?thesis
    by (intro that [OF p]) (auto intro: session_inv_step [OF session_inv_step session.emit_rel])
qed

section \<open>Properties\<close>

text \<open>An environment for the witnesses: no file can be read, everything else succeeds.\<close>

definition quiet_env :: env where
  "quiet_env = \<lparr>e_system = \<lambda>_ _. 0, e_fork = \<lambda>_. True, e_read = \<lambda>_ _. None, e_open_w = \<lambda>_ _. True,
     e_stat = \<lambda>_ _. True, e_stdin = \<lambda>_ _. None, e_time = \<lambda>_. Some ''now'', e_crypt = \<lambda>key salt. key,
     e_nodename = ''gw'', e_build = (''May 1 2024'', ''12:00:00'')\<rparr>"

lemma quiet_reachable: "\<exists>s. reachable quiet_env (default_options None) s \<and> vnode (vty s) = VIEW_NODE"
proof -
  obtain v where v: "command_table = Ret v" using command_table_holds by blast
  have "\<exists>s0. init_state = Ret s0" unfolding init_state_def v by simp
  then obtain s0 where s0: "init_state = Ret s0" by blast
  let ?s = "out_line ''Build On May 1 2024 12:00:00'' s0"
  have 1: "in_show_welcome quiet_env s0 = Ret ?s"
    by (simp add: in_show_welcome_def quiet_env_def sprintf_def)
  have "reachable quiet_env (default_options None)
      (?s\<lparr>host := (host ?s)\<lparr>h_config := Some (config_file (default_options None))\<rparr>\<rparr>)"
    by (rule reachable.start [OF s0 1, of _ "- 1"])
      (simp add: vtysh_load_config_def vtysh_config_from_file_def quiet_env_def)
  moreover have "vnode (vty s0) = VIEW_NODE" using init_state_props [OF s0] by blast
  ultimately show ?thesis by (intro exI conjI) (assumption, simp add: out_line_def)
qed

lemma session_lookup:
  assumes "session_inv file s"
  shows "\<exists>r. find_command cmd_filter_by_completion (cmds s) vline (vnode (vty s)) = Ret r \<and>
    (\<forall>e argv. r = Inr (e, argv) \<longrightarrow> needs (func e) \<le> length argv \<and>
      (\<exists>e0. (vnode (vty s), e0) \<in> set all_elements \<and> compiled e0 e))"
proof -
  have inv: "table_holds all_elements (cmds s)" "vnode (vty s) \<in> set user_nodes"
    using assms by (auto simp: session_inv_def user_node_def user_nodes_def)
  have specs: "\<And>m e. (m, e) \<in> set all_elements \<Longrightarrow> spec_ok needs e"
    using all_specs by (auto simp: list_all_iff)
  have "\<exists>r. find_command cmd_filter_by_completion (cmds s) vline (vnode (vty s)) = Ret r \<and>
      (\<forall>e argv. r = Inr (e, argv) \<longrightarrow>
        (\<exists>e0. (vnode (vty s), e0) \<in> set all_elements \<and> compiled e0 e \<and> needs (func e) \<le> length argv))"
    by (rule completion_filter.table_lookup [OF inv]) (erule specs)
  then show ?thesis by blast
qed

text \<open>
  C1. The invariant of a session: in every state in which the shell waits for a line, whatever was
  in the configuration file and whatever lines were typed, the command table is the one of the
  installation functions, the vty is interactive and in the view, enable or configuration node (the
  password node is never entered), no enable password is set, the configuration lines are in
  \<open>strcmp\<close> order, \<open>host.config\<close> names the configuration file, no section was created by
  \<open>config_get\<close>, and no password waits to be written.
\<close>

theorem session_invariant:
  assumes "reachable env opts s"
  shows "session_inv (config_file opts) s"
  using assms by (rule reachable_inv)

theorem session_invariant_witness:
  "\<exists>s. reachable quiet_env (default_options None) s \<and> session_inv ''/qrwg/config/asmcli.conf'' s"
proof -
  obtain s where s: "reachable quiet_env (default_options None) s" using quiet_reachable by blast
  from session_invariant [OF s] s show ?thesis
    by (auto simp: default_options_def CONFIG_DIR_def CONFIG_FILE_def)
qed

text \<open>
  C7. In a session every line is looked up without undefined behaviour, and a handler that is called
  gets at least the arguments it reads from \<open>argv\<close>. What it reads is \<open>needs\<close>: with fewer
  arguments every handler is undefined (\<open>call_few\<close>), and it does not look at more
  (\<open>call_take\<close>).
\<close>

theorem session_lookup_safe:
  assumes "reachable env opts s"
  shows "\<exists>r. find_command cmd_filter_by_completion (cmds s) vline (vnode (vty s)) = Ret r \<and>
    (\<forall>e argv. r = Inr (e, argv) \<longrightarrow> needs (func e) \<le> length argv)"
  using session_lookup [OF reachable_inv [OF assms], of vline] by blast

theorem session_lookup_safe_witness:
  "\<exists>s r. reachable quiet_env (default_options None) s \<and>
     find_command cmd_filter_by_completion (cmds s) [''ping'', ''10.0.0.1''] (vnode (vty s)) = Ret r"
  using quiet_reachable session_lookup_safe by blast

text \<open>What the commands of the view node do to the world outside.\<close>

definition view_event :: "event \<Rightarrow> bool" where
  "view_event e = (case e of Write fp _ \<Rightarrow> fp = Stdout | System c \<Rightarrow> c = ''uptime''
     | Exec p _ \<Rightarrow> p = ''ping'' \<or> p = ''ssh'' | _ \<Rightarrow> False)"

lemma view_call_events:
  assumes "f \<in> set view_commands" and "call env f argv s = Ret (r, t)"
  shows "\<exists>es. trace t = trace s @ es \<and> list_all view_event es"
  using assms
  by (auto simp: view_commands_def common_show_defs common_node_defs tool_defs shell_simps view_event_def
      outcome_simps split: if_splits option.splits list.splits)

lemma view_installs: "(VIEW_NODE, e0) \<in> set all_elements \<Longrightarrow> func e0 \<in> set view_commands"
  by (auto simp: all_elements_def elements_defs view_commands_def defun_def bridge_element_defs
      common_element_defs tool_element_defs ip_element_defs firewall_element_defs vpn_element_defs)

definition view_ok :: "state \<Rightarrow> state \<Rightarrow> bool" where
  "view_ok s t \<longleftrightarrow> config_top t = config_top s \<and> host t = host s \<and> cmds t = cmds s \<and>
     (\<exists>es. trace t = trace s @ es \<and> list_all view_event es)"

lemma view_ok_trans: "view_ok s t \<Longrightarrow> view_ok t u \<Longrightarrow> view_ok s u"
  by (auto simp: view_ok_def)

lemma view_call_ok:
  assumes "f \<in> set view_commands" and "call env f argv s = Ret (r, t)"
  shows "view_ok s t"
  using view_call_events [OF assms] view.yields_view_call [OF assms(1), of env argv] assms(2)
  by (auto simp: yields_def same_config_def view_ok_def)

lemma view_execute:
  assumes "session_inv file s" and "vnode (vty s) = VIEW_NODE"
    and "execute_with cmd_filter_by_completion (call env) (cmds s) vline VIEW_NODE s = Ret (ret, found, t)"
  shows "view_ok s t \<and> (\<forall>e. found = Some e \<longrightarrow> func e \<in> set view_commands)"
proof -
  obtain r where r: "find_command cmd_filter_by_completion (cmds s) vline VIEW_NODE = Ret r"
    "\<And>e argv. r = Inr (e, argv) \<Longrightarrow> \<exists>e0. (VIEW_NODE, e0) \<in> set all_elements \<and> compiled e0 e"
    using session_lookup [OF assms(1), of vline] assms(2) by auto
  show ?thesis
  proof (cases r)
    case (Inl err)
    with assms(3) r(1) show ?thesis by (simp add: execute_with_def view_ok_def)
  next
    case (Inr p)
    obtain e argv where p: "p = (e, argv)" by fastforce
    have "func e \<in> set view_commands" using r(2) [of e argv] Inr p view_installs by (auto simp: compiled_def)
    with assms(3) r(1) Inr p view_call_ok show ?thesis
      by (auto simp: execute_with_def outcome_simps view_ok_def split: if_splits)
  qed
qed

lemma enable_line:
  assumes "session_inv file s" and "vnode (vty s) = VIEW_NODE"
  shows "vtysh_execute env (Some ''enable'') s = Ret (CMD_SUCCESS, s\<lparr>vty := (vty s)\<lparr>vnode := ENABLE_NODE\<rparr>\<rparr>)"
proof -
  have "call env (Common F_enable) [] s = Ret (CMD_SUCCESS, s\<lparr>vty := (vty s)\<lparr>vnode := ENABLE_NODE\<rparr>\<rparr>)"
    using assms by (auto simp: enable_def shell_simps session_inv_def no_password_def)
  then show ?thesis
    using run_keyword(2) [OF assms(1), of "[''enable'']" config_enable_cmd env] assms(2) installed_elements only_commands
    by (auto simp: elements_fields keyword_lines)
qed

lemma configure_line:
  assumes "session_inv file s" and "vnode (vty s) = ENABLE_NODE"
  shows "vtysh_execute env (Some ''configure terminal'') s =
    Ret (CMD_SUCCESS, s\<lparr>vty := (vty s)\<lparr>vnode := CONFIG_NODE\<rparr>\<rparr>)"
proof -
  have "call env (Common F_config_terminal) [] s = Ret (CMD_SUCCESS, s\<lparr>vty := (vty s)\<lparr>vnode := CONFIG_NODE\<rparr>\<rparr>)"
    by (simp add: config_terminal_def shell_simps)
  then show ?thesis
    using run_keyword(2) [OF assms(1), of "[''configure'', ''terminal'']" config_terminal_cmd env]
      assms(2) installed_elements only_commands
    by (auto simp: elements_fields keyword_lines)
qed

definition node_depth :: "node_type \<Rightarrow> nat" where
  "node_depth n = (if n = VIEW_NODE then 0 else if n = ENABLE_NODE then 1 else 2)"

lemma exit_loop:
  assumes "session_inv file s"
  shows "main_loop env (replicate (Suc (node_depth (vnode (vty s)))) (Some ''exit'') @ ls) s = Exit 0"
  using assms
proof (induction "node_depth (vnode (vty s))" arbitrary: s rule: less_induct)
  case less
  obtain p t where t: "vtysh_prompt env s = Ret (p, t)" "session_inv file (emit (Write Stdout p) t)" "vty t = vty s"
    using main_loop_step [OF less.prems] by metis
  show ?case
  proof (cases "vnode (vty s) = VIEW_NODE")
    case True
    then show ?thesis using exit_line [OF t(2)] t by (simp add: node_depth_def)
  next
    case False
    let ?n = "if vnode (vty s) = CONFIG_NODE then ENABLE_NODE else VIEW_NODE"
    let ?u = "(emit (Write Stdout p) t)\<lparr>vty := (vty s)\<lparr>vnode := ?n\<rparr>\<rparr>"
    have d: "node_depth (vnode (vty s)) = Suc (node_depth ?n)"
      using False less.prems by (auto elim!: user_node_cases simp: node_depth_def)
    have inv: "session_inv file ?u" using t by (simp add: session_inv_def no_password_def user_node_def)
    have "main_loop env (replicate (Suc (node_depth (vnode (vty ?u)))) (Some ''exit'') @ ls) ?u = Exit 0"
      using less.hyps [of ?u] inv d by simp
    then show ?thesis using exit_line [OF t(2)] t False by (simp add: d)
  qed
qed

text \<open>
  C3. The view node gives no privileges: whatever line is executed there, the configuration, the host
  variables and the command table stay as they are, and the only effects on the world outside are
  output and the programs \<open>ping\<close>, \<open>ssh\<close> and \<open>uptime\<close>.
\<close>

theorem view_node_unprivileged:
  assumes "reachable env opts s" and "vnode (vty s) = VIEW_NODE" and "vtysh_execute env line s = Ret (ret, t)"
  shows "config_top t = config_top s \<and> host t = host s \<and> cmds t = cmds s \<and>
    (\<exists>es. trace t = trace s @ es \<and> list_all view_event es)"
proof (cases "cmd_make_strvec line")
  case None
  then show ?thesis using assms(2,3) by (simp add: vtysh_execute_def vtysh_execute_func_def)
next
  case (Some vline)
  obtain ret' found u where x: "execute_with cmd_filter_by_completion (call env) (cmds s) vline VIEW_NODE s = Ret (ret', found, u)"
    using assms(2,3) Some
    by (auto simp: vtysh_execute_def vtysh_execute_func_def cmd_execute_command_def outcome_simps)
  note v = view_execute [OF reachable_inv [OF assms(1)] assms(2) x]
  consider e r where "found = Some e" "call env (func e) [] u = Ret (r, t)" | "t = u" | m where "t = out_line m u"
    using assms(2,3) Some x
    by (auto simp: vtysh_execute_def vtysh_execute_func_def cmd_execute_command_def outcome_simps
        split: if_splits option.splits)
  then have "view_ok u t"
  proof cases
    case 1
    then show ?thesis using v view_call_ok by blast
  qed (simp_all add: view_ok_def view_event_def out_line_def)
  with v show ?thesis unfolding view_ok_def [symmetric] using view_ok_trans by blast
qed

theorem view_node_unprivileged_witness:
  "\<exists>s t. reachable quiet_env (default_options None) s \<and>
     vtysh_execute quiet_env (Some ''enable'') s = Ret (CMD_SUCCESS, t) \<and> config_top t = config_top s"
proof -
  obtain s where s: "reachable quiet_env (default_options None) s" "vnode (vty s) = VIEW_NODE"
    using quiet_reachable by blast
  obtain t where t: "vtysh_execute quiet_env (Some ''enable'') s = Ret (CMD_SUCCESS, t)"
    using enable_line [OF reachable_inv [OF s(1)] s(2)] by blast
  from view_node_unprivileged [OF s t] s(1) t show ?thesis by blast
qed

text \<open>
  C4. A session can always be ended: in whatever state of a session, three lines \<open>exit\<close> leave the
  process with status 0.
\<close>

theorem exit_ends_session:
  assumes "reachable env opts s"
  shows "main_loop env [Some ''exit'', Some ''exit'', Some ''exit''] s = Exit 0"
proof -
  note inv = reachable_inv [OF assms]
  have "main_loop env (replicate (Suc (node_depth (vnode (vty s)))) (Some ''exit'') @ ls) s = Exit 0" for ls
    using inv by (rule exit_loop)
  from this [of "replicate (2 - node_depth (vnode (vty s))) (Some ''exit'')"] inv show ?thesis
    by (auto elim!: user_node_cases simp: eval_nat_numeral node_depth_def)
qed

theorem exit_ends_session_witness:
  "\<exists>s. reachable quiet_env (default_options None) s \<and>
     main_loop quiet_env [Some ''exit'', Some ''exit'', Some ''exit''] s = Exit 0"
  using quiet_reachable exit_ends_session by blast

text \<open>
  C18. The way to the configuration node: from the view node, \<open>enable\<close> and \<open>configure
  terminal\<close> lead there, whatever the configuration holds, and change nothing else.
\<close>

theorem configure_reaches_config_node:
  assumes "reachable env opts s" and "vnode (vty s) = VIEW_NODE"
  shows "\<exists>t. vtysh_execute env (Some ''enable'') s = Ret (CMD_SUCCESS, t) \<and>
    vtysh_execute env (Some ''configure terminal'') t = Ret (CMD_SUCCESS, s\<lparr>vty := (vty s)\<lparr>vnode := CONFIG_NODE\<rparr>\<rparr>)"
proof -
  note inv = reachable_inv [OF assms(1)]
  have t: "session_inv (config_file opts) (s\<lparr>vty := (vty s)\<lparr>vnode := ENABLE_NODE\<rparr>\<rparr>)"
    using inv by (simp add: session_inv_def no_password_def user_node_def)
  from enable_line [OF inv assms(2), of env] configure_line [OF t, of env] show ?thesis by simp
qed

theorem configure_reaches_config_node_witness:
  "\<exists>s t. reachable quiet_env (default_options None) s \<and>
     vtysh_execute quiet_env (Some ''configure terminal'') t = Ret (CMD_SUCCESS, s\<lparr>vty := (vty s)\<lparr>vnode := CONFIG_NODE\<rparr>\<rparr>)"
  using quiet_reachable configure_reaches_config_node by blast

end
