(* ===== verification/Line_Lookup.thy ===== *)
theory Line_Lookup
  imports Session
begin

text \<open>
  The lookup on the command table: which lines with arguments find their command. A line is described
  by items, one per word; \<open>selects\<close> checks on the specifications of the table that the items
  lead to one handler, and \<open>lookup_selected\<close> shows that every line that fits them is executed by
  it, with the words at its variables as arguments. The locale \<open>item_filter\<close> says what a filter
  has to tell about an item; both filters of \<open>command.c\<close> are interpretations: the strict one, which
  configuration files are read with, and the one for lines that are typed, which takes abbreviations.
\<close>

section \<open>Lines with arguments\<close>

text \<open>
  What a word of a line is: a keyword, an abbreviation of a keyword, a word for a plain variable, or an
  IPv4 address. The keywords that stand beside the variable, or beside the abbreviated keyword, are
  listed: the word must be none of them and, for typed lines, abbreviate none of them.
\<close>

datatype item = Kw string | Abbr string "string list" | Arg "string list" | Addr "string list"

definition literal :: "string \<Rightarrow> bool" where
  "literal s \<longleftrightarrow> \<not> CMD_VARARG s \<and> \<not> CMD_OPTION s \<and> \<not> CMD_VARIABLE s"

definition plain_variable :: "string \<Rightarrow> bool" where
  "plain_variable s \<longleftrightarrow> \<not> CMD_VARARG s \<and> \<not> CMD_RANGE s \<and> \<not> CMD_IPV6 s \<and> \<not> CMD_IPV6_PREFIX s \<and>
     \<not> CMD_IPV4 s \<and> \<not> CMD_IPV4_PREFIX s \<and> (CMD_OPTION s \<or> CMD_VARIABLE s)"

fun item_type :: "item \<Rightarrow> match_type" where
  "item_type (Kw k) = exact_match"
| "item_type (Abbr k ex) = partly_match"
| "item_type (Arg ex) = extend_match"
| "item_type (Addr ex) = ipv4_match"

fun hit :: "item \<Rightarrow> string \<Rightarrow> bool" where
  "hit (Kw k) s \<longleftrightarrow> s = k"
| "hit (Abbr k ex) s \<longleftrightarrow> s = k"
| "hit (Arg ex) s \<longleftrightarrow> plain_variable s"
| "hit (Addr ex) s \<longleftrightarrow> CMD_IPV4 s \<and> \<not> CMD_VARARG s"

text \<open>The words of a line that fit an item, for the strict filter and for typed lines.\<close>

fun fits :: "item \<Rightarrow> string \<Rightarrow> bool" where
  "fits (Kw k) w \<longleftrightarrow> w = k \<and> literal k"
| "fits (Abbr k ex) w \<longleftrightarrow> False"
| "fits (Arg ex) w \<longleftrightarrow> w \<notin> set ex"
| "fits (Addr ex) w \<longleftrightarrow> w \<notin> set ex \<and> cmd_ipv4_match (Some w) = exact_match"

definition abbreviates :: "string \<Rightarrow> string list \<Rightarrow> bool" where
  "abbreviates w ex \<longleftrightarrow> list_ex (prefix w) ex"

fun types :: "item \<Rightarrow> string \<Rightarrow> bool" where
  "types (Kw k) w \<longleftrightarrow> w = k \<and> literal k"
| "types (Abbr k ex) w \<longleftrightarrow> w \<noteq> k \<and> prefix w k \<and> literal k \<and> \<not> abbreviates w ex"
| "types (Arg ex) w \<longleftrightarrow> \<not> abbreviates w ex"
| "types (Addr ex) w \<longleftrightarrow> \<not> abbreviates w ex \<and> cmd_ipv4_match (Some w) = exact_match"

text \<open>The words of the other commands that the item tells apart.\<close>

fun clear :: "item \<Rightarrow> string \<Rightarrow> bool" where
  "clear (Kw k) s \<longleftrightarrow> True"
| "clear (Abbr k ex) s \<longleftrightarrow> s = k \<or> literal s \<and> s \<in> set ex"
| "clear (Arg ex) s \<longleftrightarrow> plain_variable s \<or> literal s \<and> s \<in> set ex"
| "clear (Addr ex) s \<longleftrightarrow> CMD_IPV4 s \<and> \<not> CMD_VARARG s \<or> literal s \<and> s \<in> set ex"

lemma literal_special: "literal s \<Longrightarrow> \<not> CMD_RANGE s \<and> \<not> CMD_IPV6 s \<and> \<not> CMD_IPV6_PREFIX s \<and> \<not> CMD_IPV4 s \<and> \<not> CMD_IPV4_PREFIX s"
  using special_word_variable [of s] by (auto simp: literal_def)

lemma kind_literal:
  assumes "literal s"
  shows "string_kind w s = (if w = s then exact_match else no_match)"
    and "completion_kind w s = (if prefix w s then if w = s then exact_match else partly_match else no_match)"
  using assms literal_special [of s] by (auto simp: string_kind_def completion_kind_def literal_def)

lemma CMD_IPV4_only: "CMD_IPV4 s \<Longrightarrow> \<not> CMD_RANGE s \<and> \<not> CMD_IPV6 s \<and> \<not> CMD_IPV6_PREFIX s"
  by (auto simp: CMD_IPV4_def CMD_RANGE_def CMD_IPV6_def CMD_IPV6_PREFIX_def)

lemma kind_variable:
  assumes "plain_variable s"
  shows "string_kind w s = extend_match" and "completion_kind w s = extend_match"
  using assms by (auto simp: string_kind_def completion_kind_def plain_variable_def)

lemma kind_ipv4:
  assumes "CMD_IPV4 s" and "\<not> CMD_VARARG s" and "cmd_ipv4_match (Some w) = exact_match"
  shows "string_kind w s = ipv4_match" and "completion_kind w s = ipv4_match"
  using assms CMD_IPV4_only [of s] by (simp_all add: string_kind_def completion_kind_def)

lemma literal_left:
  "literal k \<Longrightarrow> match_left k exact_match s \<longleftrightarrow> s = k"
  "literal s \<Longrightarrow> match_left w partly_match s \<longleftrightarrow> prefix w s"
  by (auto simp: match_left_def literal_def)

lemma not_abbreviates: "\<not> abbreviates w ex \<Longrightarrow> s \<in> set ex \<Longrightarrow> \<not> prefix w s"
  by (simp add: abbreviates_def list_ex_iff)

text \<open>The elements of a vector that have the items as their words from position \<open>i\<close> on.\<close>

definition hit_at :: "item \<Rightarrow> nat \<Rightarrow> 'f cmd_element \<Rightarrow> bool" where
  "hit_at it i e \<longleftrightarrow> i < length (strvec e) \<and> (\<exists>d \<in> set (strvec e ! i). hit it (cmd d))"

definition hits :: "item list \<Rightarrow> nat \<Rightarrow> 'f cmd_element \<Rightarrow> bool" where
  "hits its i e \<longleftrightarrow> (\<forall>j < length its. hit_at (its ! j) (i + j) e)"

definition clear_at :: "item \<Rightarrow> nat \<Rightarrow> 'f cmd_element \<Rightarrow> bool" where
  "clear_at it i e \<longleftrightarrow> (i < length (strvec e) \<longrightarrow> (\<forall>d \<in> set (strvec e ! i). clear it (cmd d)))"

fun told_apart :: "item list \<Rightarrow> nat \<Rightarrow> 'f cmd_element \<Rightarrow> bool" where
  "told_apart [] i e \<longleftrightarrow> True"
| "told_apart (it # its) i e \<longleftrightarrow> clear_at it i e \<and> (hit_at it i e \<longrightarrow> told_apart its (Suc i) e)"

lemma hits_Nil [simp]: "hits [] i e"
  by (simp add: hits_def)

lemma hits_Cons: "hits (it # its) i e \<longleftrightarrow> hit_at it i e \<and> hits its (Suc i) e"
  unfolding hits_def by (auto simp: nth_Cons' less_Suc_eq_0_disj)

lemma fold_max_ge: "k \<in> set ks \<or> k \<le> m \<Longrightarrow> (k :: match_type) \<le> fold max ks m"
proof (induction ks arbitrary: m)
  case (Cons a ks)
  have "k \<in> set ks \<or> k \<le> max a m"
    using Cons.prems max.cobounded1 [of a m] max.cobounded2 [of m a] by (metis max.coboundedI2 set_ConsD)
  from Cons.IH [OF this] show ?case by simp
qed simp

text \<open>An abbreviation is not ambiguous if all the words it stands for are the same.\<close>

lemma ambiguous_descs_same:
  assumes "\<And>d. d \<in> set ds \<Longrightarrow> match_left w partly_match (cmd d) \<Longrightarrow> cmd d = k" and "found \<in> {None, Some k}"
  shows "\<exists>m n. ambiguous_descs w partly_match ds found c = Inr (m, n) \<and> m \<in> {None, Some k}"
  using assms
proof (induction ds arbitrary: found c)
  case (Cons d ds)
  have IH: "\<exists>m n. ambiguous_descs w partly_match ds r c = Inr (m, n) \<and> m \<in> {None, Some k}" if "r \<in> {None, Some k}" for r c
    using Cons.prems(1) that by (intro Cons.IH) simp_all
  show ?case
  proof (cases "match_left w partly_match (cmd d)")
    case True
    then have "cmd d = k" using Cons.prems(1) by simp
    then have "ambiguous_step w partly_match (cmd d) found = Amb_set"
      using True Cons.prems(2) by (auto simp: ambiguous_step_def match_left_def)
    with IH [of "Some k"] \<open>cmd d = k\<close> show ?thesis by simp
  next
    case False
    then have "ambiguous_step w partly_match (cmd d) found = Amb_skip" by (simp add: ambiguous_step_skip)
    with IH [OF Cons.prems(2)] show ?thesis by simp
  qed
qed simp

lemma ambiguous_slots_same:
  assumes "\<And>e d. Some e \<in> set v \<Longrightarrow> d \<in> set (strvec e ! i) \<Longrightarrow> match_left w partly_match (cmd d) \<Longrightarrow> cmd d = k"
    and "found \<in> {None, Some k}" and "ambiguous_slots w i partly_match v found = Ret (ret, u)"
  shows "ret = 0"
  using assms
proof (induction v arbitrary: found ret u)
  case (Cons s v)
  have IH: "ret = 0" if "found \<in> {None, Some k}" "ambiguous_slots w i partly_match v found = Ret (ret, u)" for found ret u
    using Cons.prems(1) that by (intro Cons.IH [of found ret u]) auto
  show ?case
  proof (cases s)
    case None
    with Cons.prems(2,3) IH show ?thesis by (auto simp: outcome_simps)
  next
    case (Some e)
    have "\<exists>m n. ambiguous_descs w partly_match (strvec e ! i) found 0 = Inr (m, n) \<and> m \<in> {None, Some k}"
      using Cons.prems(1) Some by (intro ambiguous_descs_same [OF _ Cons.prems(2)]) auto
    with Some Cons.prems(3) IH show ?thesis by (auto simp: outcome_simps split: if_splits)
  qed
qed simp

section \<open>What a filter has to tell about an item\<close>

locale item_filter = literal_filter filt kind for filt :: "command word_filter" and kind +
  fixes fit :: "item \<Rightarrow> string \<Rightarrow> bool"
  assumes fit_hit: "fit it w \<Longrightarrow> hit it s \<Longrightarrow> kind w s = item_type it"
    and fit_clear: "fit it w \<Longrightarrow> clear it s \<Longrightarrow> \<not> hit it s \<Longrightarrow> it \<noteq> Kw w \<Longrightarrow> kind w s = no_match"
    and fit_left: "fit it w \<Longrightarrow> clear it s \<Longrightarrow> match_left w (item_type it) s \<longleftrightarrow> hit it s"
    and filt_ge: "Some e \<in> set v \<Longrightarrow> i < length (strvec e) \<Longrightarrow> d \<in> set (strvec e ! i) \<Longrightarrow>
      kind w (cmd d) \<le> fst (filt w v i)"
begin

text \<open>One word: the filter finds the type of the item, and the check leaves the elements that have it.\<close>

lemma filter_item:
  assumes "Some e \<in> set v" and "hit_at it i e" and "fit it w" and "\<And>e'. Some e' \<in> set v \<Longrightarrow> clear_at it i e'"
  shows "fst (filt w v i) = item_type it"
proof -
  obtain d where d: "i < length (strvec e)" "d \<in> set (strvec e ! i)" "hit it (cmd d)"
    using assms(2) by (auto simp: hit_at_def)
  have k: "kind w (cmd d) = item_type it" using fit_hit [OF assms(3) d(3)] .
  show ?thesis
  proof (cases "item_type it = exact_match")
    case True
    then show ?thesis using filt_exact [OF assms(1) d(1,2)] k by simp
  next
    case False
    have "item_type it \<le> fst (filt w v i)" using filt_ge [OF assms(1) d(1,2), of w] k by simp
    moreover have "0 < match_rank (item_type it)" by (cases it) auto
    ultimately have "fst (filt w v i) \<noteq> no_match" by (auto simp: match_order)
    from filt_type [OF refl this]
    obtain e' d' where e': "Some e' \<in> set v" "i < length (strvec e')" "d' \<in> set (strvec e' ! i)"
        "kind w (cmd d') = fst (filt w v i)"
      unfolding filt_mem by blast
    have "clear it (cmd d')" using assms(4) [OF e'(1)] e'(2,3) by (auto simp: clear_at_def)
    moreover have "it \<noteq> Kw w" using False by auto
    ultimately have "hit it (cmd d')"
      using fit_clear [OF assms(3)] e'(4) \<open>fst (filt w v i) \<noteq> no_match\<close> by metis
    then show ?thesis using fit_hit [OF assms(3)] e'(4) by simp
  qed
qed

lemma item_unambiguous:
  assumes "fit it w" and "\<And>e'. Some e' \<in> set v \<Longrightarrow> clear_at it i e'"
    and "is_cmd_ambiguous w (snd (filt w v i)) i (item_type it) = Ret (ret, u)"
  shows "ret = 0"
proof (cases "item_type it \<in> plain_types")
  case True
  then show ?thesis using assms(3) ambiguous_slots_plain unfolding is_cmd_ambiguous_def by blast
next
  case False
  then obtain k ex where it: "it = Abbr k ex" by (cases it) (auto simp: plain_types_def)
  have "cmd d = k" if d: "Some e \<in> set (snd (filt w v i))" "d \<in> set (strvec e ! i)" "match_left w partly_match (cmd d)" for e d
  proof -
    have "clear it (cmd d)" using d(1,2) assms(2) [of e] by (auto simp: filt_mem matches_at_def clear_at_def)
    with fit_left [OF assms(1), of "cmd d"] d(3) show ?thesis by (simp add: it)
  qed
  then show ?thesis using assms(3)
    by (intro ambiguous_slots_same [of "snd (filt w v i)" i w k None ret u]) (simp_all add: it is_cmd_ambiguous_def)
qed

lemma filter_item_slots:
  assumes "fit it w" and "\<And>e'. Some e' \<in> set v \<Longrightarrow> clear_at it i e'"
    and "is_cmd_ambiguous w (snd (filt w v i)) i (item_type it) = Ret (ret, u)"
  shows "ret = 0 \<and> u = map (\<lambda>s. case s of None \<Rightarrow> None | Some e \<Rightarrow> if hit_at it i e then Some e else None) v"
proof -
  have ret: "ret = 0" using assms by (rule item_unambiguous)
  have left: "matches_at kind w i e \<and> (\<exists>d \<in> set (strvec e ! i). match_left w (item_type it) (cmd d)) \<longleftrightarrow> hit_at it i e"
    if "Some e \<in> set v" for e
  proof -
    have "item_type it \<noteq> no_match" by (cases it) simp_all
    then have "hit it s \<Longrightarrow> kind w s \<noteq> no_match" for s using fit_hit [OF assms(1)] by simp
    then show ?thesis using assms(2) [OF that] fit_left [OF assms(1)]
      unfolding hit_at_def clear_at_def matches_at_def by blast
  qed
  show ?thesis
    using ret ambiguous_slots_left [OF assms(3) [unfolded is_cmd_ambiguous_def ret]] left
    by (auto simp: filt_slots split: option.splits)
qed

text \<open>The whole line.\<close>

lemma match_words_items:
  assumes "list_all2 fit its ws" and "Some e \<in> set v" and "hits its i e"
    and "\<And>e'. Some e' \<in> set v \<Longrightarrow> told_apart its i e'"
  shows "\<exists>m'. match_words filt ws i m v = Ret (Inr (m', i + length ws,
      map (\<lambda>s. case s of None \<Rightarrow> None | Some e \<Rightarrow> if hits its i e then Some e else None) v)) \<and>
    (m' = m \<and> ws = [] \<or> m' \<noteq> vararg_match)"
  using assms
proof (induction its ws arbitrary: i m v rule: list_all2_induct)
  case Nil
  have "map (\<lambda>s. case s of None \<Rightarrow> None | Some e \<Rightarrow> if hits [] i e then Some e else None) v = v"
    by (rule map_idI) (auto split: option.splits)
  then show ?case by simp
next
  case (Cons it its w ws)
  let ?f = "filt w v i"
  let ?keep = "\<lambda>P. map (\<lambda>s. case s of None \<Rightarrow> None | Some e \<Rightarrow> if P e then Some e else None)"
  have clear: "\<And>e'. Some e' \<in> set v \<Longrightarrow> clear_at it i e'" using Cons.prems(3) by simp
  have "hit_at it i e" using Cons.prems(2) by (simp add: hits_Cons)
  then have type: "fst ?f = item_type it" using filter_item [OF Cons.prems(1) _ Cons.hyps(1) clear] by blast
  obtain ret u where u: "is_cmd_ambiguous w (snd ?f) i (item_type it) = Ret (ret, u)"
    using ambiguous_filt .
  from filter_item_slots [OF Cons.hyps(1) clear u] have uv: "ret = 0" "u = ?keep (hit_at it i) v" by auto
  have mem: "Some e' \<in> set u \<longleftrightarrow> Some e' \<in> set v \<and> hit_at it i e'" for e'
    unfolding uv(2) by (force split: option.splits if_splits)
  have plain: "item_type it \<noteq> vararg_match" by (cases it) simp_all
  have step: "match_words filt (w # ws) i m v =
      match_words filt ws (Suc i) (item_type it) u"
    using u type uv(1) plain by (simp add: case_prod_beta Let_def)
  have "Some e \<in> set u" "hits its (Suc i) e" "\<And>e'. Some e' \<in> set u \<Longrightarrow> told_apart its (Suc i) e'"
    using Cons.prems by (auto simp: mem hits_Cons)
  from Cons.IH [OF this, of "item_type it"] plain step
  obtain m' where m': "match_words filt (w # ws) i m v =
      Ret (Inr (m', Suc i + length ws, ?keep (hits its (Suc i)) u))" "m' \<noteq> vararg_match" by auto
  have "?keep (hits its (Suc i)) u = ?keep (hits (it # its) i) v"
    unfolding uv(2) by (auto simp: hits_Cons split: option.splits)
  with m' show ?case by auto
qed

lemma find_command_items:
  assumes "cmd_node_vector cmdvec node = Ret v" and "list_all2 fit its ws" and "its \<noteq> []"
    and "\<And>e'. Some e' \<in> set v \<Longrightarrow> told_apart its 0 e'"
    and one: "filter (\<lambda>e'. cmdsize e' \<le> length its \<and> hits its 0 e') (somes v) = [e]"
  shows "find_command filt cmdvec ws node =
    omap (map_sum id (Pair e)) (collect_args (strvec e) ws False [])"
proof -
  have "e \<in> set (filter (\<lambda>e'. cmdsize e' \<le> length its \<and> hits its 0 e') (somes v))" by (simp add: one)
  then have e: "Some e \<in> set v" "hits its 0 e" by (auto simp: set_somes)
  have len: "length ws = length its" using assms(2) by (simp add: list_all2_lengthD)
  obtain m' where mw: "match_words filt ws 0 no_match v = Ret (Inr (m', length its,
      map (\<lambda>s. case s of None \<Rightarrow> None | Some e \<Rightarrow> if hits its 0 e then Some e else None) v))" "m' \<noteq> vararg_match"
    using match_words_items [OF assms(2) e assms(4), of no_match] assms(3) len by auto
  have "complete_at m' (length its) e' \<longleftrightarrow> cmdsize e' \<le> length its" for e' :: "command cmd_element"
    using mw(2) by (simp add: complete_at_def)
  then have "filter (complete_at m' (length its)) (filter (hits its 0) (somes v)) = [e]"
    using one by (simp add: filter_filter conj_commute)
  then show ?thesis
    unfolding find_command_def by (simp add: assms(1) mw(1) count_matched_eq Let_def somes_filter)
qed

end

section \<open>Lines of the program's commands\<close>

text \<open>The same on the words of a specification.\<close>

fun words_hit :: "item list \<Rightarrow> string list list \<Rightarrow> bool" where
  "words_hit [] wss \<longleftrightarrow> True"
| "words_hit (it # its) [] \<longleftrightarrow> False"
| "words_hit (it # its) (ws # wss) \<longleftrightarrow> (if list_ex (hit it) ws then words_hit its wss else False)"

fun words_apart :: "item list \<Rightarrow> string list list \<Rightarrow> bool" where
  "words_apart [] wss \<longleftrightarrow> True"
| "words_apart (it # its) [] \<longleftrightarrow> True"
| "words_apart (it # its) (ws # wss) \<longleftrightarrow>
     (if list_all (clear it) ws then if list_ex (hit it) ws then words_apart its wss else True else False)"

text \<open>
  A line of the items is for the handler \<open>f\<close>, whose specification has the words \<open>tw\<close>: no
  other command of the node is left when all words have been matched.
\<close>

definition selects :: "node_type \<Rightarrow> item list \<Rightarrow> command \<Rightarrow> string list list \<Rightarrow> bool" where
  "selects n its f tw \<longleftrightarrow> its \<noteq> [] \<and> words_hit its tw \<and> length (mandatory tw) \<le> length its \<and>
     list_ex (\<lambda>(m, g, wss). if m = n then if g = f then wss = tw else False else False) command_specs \<and>
     list_all (\<lambda>(m, g, wss). if m = n then if words_apart its wss then if words_hit its wss
         then wss = tw \<or> length its < length (mandatory wss) else True else False else True) command_specs"

lemma list_ex_spec:
  "list_ex (\<lambda>(m, g, wss). if m = n then if g = f then wss = tw else False else False) specs \<longleftrightarrow> (n, f, tw) \<in> set specs"
  by (induction specs) auto

lemma list_all_spec:
  "list_all (\<lambda>(m, g, wss). if m = n then P wss else True) specs \<longleftrightarrow> (\<forall>g wss. (n, g, wss) \<in> set specs \<longrightarrow> P wss)"
  by (induction specs) auto

lemma selects_iff:
  "selects n its f tw \<longleftrightarrow> its \<noteq> [] \<and> words_hit its tw \<and> length (mandatory tw) \<le> length its \<and>
     (n, f, tw) \<in> set command_specs \<and>
     (\<forall>g wss. (n, g, wss) \<in> set command_specs \<longrightarrow>
        words_apart its wss \<and> (wss = tw \<or> \<not> words_hit its wss \<or> length its < length (mandatory wss)))"
  unfolding selects_def list_ex_spec list_all_spec by auto

definition item_args :: "string list list \<Rightarrow> string list \<Rightarrow> string list" where
  "item_args tw ws = map fst (filter (\<lambda>(w, ds). arg_word ds) (zip ws tw))"

lemma drop_nth_Cons: "i < length xs \<Longrightarrow> drop i xs = xs ! i # drop (Suc i) xs"
  by (simp add: Cons_nth_drop_Suc)

lemma hits_words: "hits its i e \<longleftrightarrow> words_hit its (map (map cmd) (drop i (strvec e)))"
proof (induction its arbitrary: i)
  case (Cons it its)
  show ?case
  proof (cases "i < length (strvec e)")
    case True
    then show ?thesis using Cons [of "Suc i"] by (auto simp: hits_Cons hit_at_def drop_nth_Cons list_ex_iff)
  qed (simp add: hits_Cons hit_at_def)
qed simp

lemma told_apart_words: "told_apart its i e \<longleftrightarrow> words_apart its (map (map cmd) (drop i (strvec e)))"
proof (induction its arbitrary: i)
  case (Cons it its)
  show ?case
  proof (cases "i < length (strvec e)")
    case True
    then show ?thesis using Cons [of "Suc i"]
      by (auto simp: hit_at_def clear_at_def drop_nth_Cons list_ex_iff list_all_iff)
  qed (simp add: hit_at_def clear_at_def)
qed simp

lemma same_words_cong:
  assumes "list_all2 same_words sv sv'"
  shows "words_hit its (map (map cmd) sv) = words_hit its (map (map cmd) sv')"
    and "words_apart its (map (map cmd) sv) = words_apart its (map (map cmd) sv')"
proof -
  have *: "words_hit its (map (map cmd) sv) = words_hit its (map (map cmd) sv') \<and>
      words_apart its (map (map cmd) sv) = words_apart its (map (map cmd) sv')" for its
    using assms
  proof (induction sv sv' arbitrary: its rule: list_all2_induct)
    case (Cons a sv b sv')
    have "set (map cmd a) = set (map cmd b)" using Cons.hyps(1) by (simp add: same_words_def)
    then have "list_ex P (map cmd a) = list_ex P (map cmd b)" "list_all P (map cmd a) = list_all P (map cmd b)" for P
      unfolding list_ex_iff list_all_iff by auto
    then show ?case using Cons.IH by (cases its) simp_all
  qed simp
  show "words_hit its (map (map cmd) sv) = words_hit its (map (map cmd) sv')"
    "words_apart its (map (map cmd) sv) = words_apart its (map (map cmd) sv')" using * by auto
qed

text \<open>An installed element and the words of its specification.\<close>

definition has_spec :: "node_type \<Rightarrow> command cmd_element \<Rightarrow> string list list \<Rightarrow> bool" where
  "has_spec n e wss \<longleftrightarrow> (n, func e, wss) \<in> set command_specs \<and> estring e = print_words wss \<and> daemon e = 0 \<and>
     cmdsize e = length (mandatory wss) \<and>
     (\<forall>its. hits its 0 e = words_hit its wss \<and> told_apart its 0 e = words_apart its wss) \<and>
     map arg_word (map (map cmd) (strvec e)) = map arg_word wss \<and>
     (\<forall>ds \<in> set (strvec e). ds \<noteq> [] \<and> (\<forall>d \<in> set ds. \<not> CMD_VARARG (cmd d)))"

lemma compiled_spec:
  assumes "compiled e0 e" and "(n, e0) \<in> set all_elements"
  shows "\<exists>wss. has_spec n e wss"
proof -
  obtain wss where w: "(n, func e0, wss) \<in> set command_specs" "estring e0 = print_words wss" "daemon e0 = 0"
      "omap (map (map cmd)) (cmd_make_descvec (estring e0) (Some (doc e0))) = Ret wss"
    using element_spec [OF assms(2)] by blast
  obtain sv where sv: "cmd_make_descvec (estring e0) (Some (doc e0)) = Ret sv"
      "list_all2 same_words (strvec e) sv" "cmdsize e = cmd_cmdsize sv"
    using assms(1) by (auto simp: compiled_def)
  have wss: "wss = map (map cmd) sv" using w(4) sv(1) by simp
  have "length (take (cmd_cmdsize sv) sv) = cmd_cmdsize sv" by (induction sv) auto
  then have "cmdsize e = length (mandatory wss)" unfolding wss sv(3) mandatory_cmdsize by (metis length_map)
  moreover have "map arg_word (map (map cmd) (strvec e)) = map arg_word wss"
    unfolding wss using sv(2) by (induction rule: list_all2_induct) (simp_all add: arg_word_same)
  moreover have "spec_ok needs e0" using assms(2) all_specs by (auto simp: list_all_iff)
  ultimately have "has_spec n e wss"
    using w assms(1) same_words_cong [OF sv(2)] compiled_words [OF assms(1)]
    by (auto simp: has_spec_def compiled_def hits_words told_apart_words wss)
  then show ?thesis ..
qed

lemma spec_element:
  assumes "(n, f, tw) \<in> set command_specs"
  shows "\<exists>e0. (n, e0) \<in> set all_elements \<and> estring e0 = print_words tw"
proof -
  have "(n, print_words tw) \<in> set (map element_key all_elements)"
    unfolding element_keys spec_keys using assms by force
  then show ?thesis by (auto simp: element_key_def)
qed

lemma spec_words_inj:
  assumes "(n, f, tw) \<in> set command_specs" and "(m, g, wss) \<in> set command_specs" and "print_words wss = print_words tw"
  shows "wss = tw"
proof -
  have "list_all (\<lambda>ws. ws \<noteq> [] \<and> list_all spec_word ws) tw" "list_all (\<lambda>ws. ws \<noteq> [] \<and> list_all spec_word ws) wss"
    using assms(1,2) specs_ok by (auto simp: list_all_iff)
  from this [THEN descvec_print_words [where dp = None]] assms(3) show ?thesis by simp
qed

lemma zip_filter_map: "map fst (filter (\<lambda>(w, b). P b) (zip ws bs)) = map fst (filter snd (zip ws (map P bs)))"
  by (induction ws bs rule: list_induct2') auto

lemma collect_args_items:
  assumes "\<forall>ds \<in> set sv. ds \<noteq> [] \<and> (\<forall>d \<in> set ds. \<not> CMD_VARARG (cmd d))"
    and "length ws \<le> length sv" and "length acc + length ws < CMD_ARGC_MAX"
  shows "collect_args sv ws False acc = Ret (Inr (acc @ item_args (map (map cmd) sv) ws))"
  using assms
proof (induction ws arbitrary: sv acc)
  case (Cons w ws)
  then obtain ds sv' where sv: "sv = ds # sv'" by (cases sv) auto
  have step: "arg_step False sv = Ret (False, arg_word (map cmd ds))"
  proof (cases "length ds = 1")
    case True
    then obtain d where "ds = [d]" by (auto simp: length_Suc_conv)
    then show ?thesis using Cons.prems(1) sv by (auto simp: arg_step_def arg_word_def Let_def)
  next
    case False
    then show ?thesis by (simp add: arg_step_def arg_word_def sv)
  qed
  let ?acc = "if arg_word (map cmd ds) then acc @ [w] else acc"
  have "collect_args sv' ws False ?acc = Ret (Inr (?acc @ item_args (map (map cmd) sv') ws))"
    using Cons.prems sv by (intro Cons.IH) auto
  then show ?case using step sv Cons.prems(3) by (auto simp: item_args_def Let_def)
qed (simp add: item_args_def)

context item_filter begin

lemma lookup_selected:
  assumes "table_holds all_elements v" and "n \<in> set user_nodes" and "selects n its f tw"
    and "list_all2 fit its ws" and "length its < CMD_ARGC_MAX"
  shows "\<exists>e. func e = f \<and> daemon e = 0 \<and>
    find_command filt v ws n = Ret (Inr (e, item_args tw ws))"
proof -
  obtain c where c: "slots_lookup v (node_index n) = Some c" "holds_elements all_elements n c"
    using table_holds_slot [OF assms(1,2)] by blast
  then have vec: "cmd_node_vector v n = Ret (cmd_vector c)" by (simp add: cmd_node_vector_def node_slot_def)
  have spec: "\<exists>wss. has_spec n e wss" if "Some e \<in> set (cmd_vector c)" for e
    using c(2) that compiled_spec unfolding holds_elements_def by blast
  have tw: "(n, f, tw) \<in> set command_specs" "words_hit its tw" "length (mandatory tw) \<le> length its" "its \<noteq> []"
    and sel: "\<And>g wss. (n, g, wss) \<in> set command_specs \<Longrightarrow> words_apart its wss \<and>
      (wss = tw \<or> \<not> words_hit its wss \<or> length its < length (mandatory wss))"
    using assms(3) unfolding selects_iff by auto
  obtain e0 e where e: "(n, e0) \<in> set all_elements" "estring e0 = print_words tw" "Some e \<in> set (cmd_vector c)" "compiled e0 e"
    using spec_element [OF tw(1)] c(2) unfolding holds_elements_def by blast
  obtain wss where "has_spec n e wss" using spec [OF e(3)] ..
  moreover from this have "wss = tw"
    using spec_words_inj [OF tw(1), of n "func e" wss] e(2,4) by (auto simp: has_spec_def compiled_def)
  ultimately have es: "has_spec n e tw" by simp
  have "inj_on (\<lambda>(n, f, wss). (n, print_words wss)) (set command_specs)"
    using all_keys unfolding element_keys spec_keys by (simp add: distinct_map)
  then have "func e = f" using inj_onD [of _ _ "(n, f, tw)" "(n, func e, tw)"] tw(1) es by (fastforce simp: has_spec_def)
  have "filter (\<lambda>e'. cmdsize e' \<le> length its \<and> hits its 0 e') (somes (cmd_vector c)) = [e]"
  proof (rule filter_one [of estring])
    have none: "None \<notin> set (cmd_vector c)" using c(2) by (simp add: holds_elements_def)
    then show "distinct (map estring (somes (cmd_vector c)))"
      using c(2) by (simp add: holds_elements_def somes_the comp_def)
    show "e \<in> set (somes (cmd_vector c))" using e(3) by (simp add: set_somes)
    show "cmdsize e \<le> length its \<and> hits its 0 e" using es tw(2,3) by (simp add: has_spec_def)
    show "estring y = estring e" if y: "y \<in> set (somes (cmd_vector c))" "cmdsize y \<le> length its \<and> hits its 0 y" for y
    proof -
      obtain wss where w: "has_spec n y wss" using spec y(1) by (auto simp: set_somes)
      then have "wss = tw" using sel [of "func y" wss] y(2) by (auto simp: has_spec_def)
      with w es show ?thesis by (simp add: has_spec_def)
    qed
  qed
  moreover have "told_apart its 0 y" if "Some y \<in> set (cmd_vector c)" for y
    using spec [OF that] sel by (auto simp: has_spec_def)
  ultimately have "find_command filt v ws n =
      omap (map_sum id (Pair e)) (collect_args (strvec e) ws False [])"
    using find_command_items [OF vec assms(4) tw(4)] by blast
  moreover have "collect_args (strvec e) ws False [] = Ret (Inr (item_args tw ws))"
  proof -
    have len: "length (strvec e) = length tw" using es by (metis has_spec_def length_map)
    have "length its \<le> length tw" using tw(2) by (induction its tw rule: words_hit.induct) (auto split: if_splits)
    moreover have "item_args (map (map cmd) (strvec e)) ws = item_args tw ws"
      using es unfolding item_args_def zip_filter_map has_spec_def by (metis (no_types))
    ultimately show ?thesis
      using collect_args_items [of "strvec e" ws "[]"] es assms(4,5) len
      by (auto simp: has_spec_def dest: list_all2_lengthD)
  qed
  ultimately show ?thesis using es \<open>func e = f\<close> by (auto simp: has_spec_def)
qed

end

interpretation strict_items: item_filter cmd_filter_by_string string_kind fits
proof (unfold_locales, goal_cases)
  case (1 it w s)
  then show ?case by (cases it) (simp_all add: kind_literal kind_variable kind_ipv4)
next
  case (2 it w s)
  then show ?case by (cases it) (auto simp: kind_literal)
next
  case (3 it w s)
  then show ?case using literal_left [of _ s] literal_special [of s]
    by (cases it) (auto simp: match_left_def literal_def plain_variable_def)
next
  case (4 e v i d w)
  have "string_kind w (cmd d) \<in> set (by_string.kinds w i v)"
    using 4 unfolding by_string.kinds_def set_concat UN_iff
    by (intro bexI [of _ "map (string_kind w \<circ> cmd) (strvec e ! i)"]) (auto simp: image_iff intro!: bexI [of _ "Some e"])
  then show ?case unfolding cmd_filter_by_string_def by_string.filter_match by (intro fold_max_ge) simp
qed

interpretation typed_items: item_filter cmd_filter_by_completion completion_kind types
proof (unfold_locales, goal_cases)
  case (1 it w s)
  then show ?case by (cases it) (simp_all add: kind_literal kind_variable kind_ipv4)
next
  case (2 it w s)
  then show ?case by (cases it) (auto simp: kind_literal not_abbreviates dest: not_abbreviates)
next
  case (3 it w s)
  then show ?case using literal_left [of _ s] literal_special [of s]
    by (cases it) (auto simp: match_left_def literal_def plain_variable_def not_abbreviates)
next
  case (4 e v i d w)
  have "completion_kind w (cmd d) \<in> set (completion.kinds w i v)"
    using 4 unfolding completion.kinds_def set_concat UN_iff
    by (intro bexI [of _ "map (completion_kind w \<circ> cmd) (strvec e ! i)"]) (auto simp: image_iff intro!: bexI [of _ "Some e"])
  then show ?case unfolding cmd_filter_by_completion_def completion.filter_match by (intro fold_max_ge) simp
qed

end
