(* ===== verification/Restore.thy ===== *)
theory Restore
  imports Line_Lookup
begin

text \<open>
  Saving and restoring the configuration. A setting is what a handler stores as one line; when the
  line is executed from a file, the same handler stores it again. So the lines that \<open>config_dump\<close>
  writes, loaded by \<open>vtysh_load_config\<close>, leave the configuration they were written from.
\<close>

section \<open>Settings\<close>

text \<open>The lines the handlers store, with their arguments.\<close>

datatype peer_options = No_options | Allowed string | Endpoint string string | Keepalive string string string

datatype setting =
    Bridge_disable
  | Hostname string
  | Listenport nat
  | Peer string peer_options
  | Link bool
  | Nameserver string string
  | Address string string string
  | Dhcp
  | Route string string string string
  | Portmap string string string string string string

fun option_words :: "peer_options \<Rightarrow> string list" where
  "option_words No_options = []"
| "option_words (Allowed ips) = [''allowed-ips'', ips]"
| "option_words (Endpoint ips ep) = [''allowed-ips'', ips, ''endpoint'', ep]"
| "option_words (Keepalive ips ep ka) = [''allowed-ips'', ips, ''endpoint'', ep, ''persistent-keepalive'', ka]"

fun setting_words :: "setting \<Rightarrow> string list" where
  "setting_words Bridge_disable = [''bridge'', ''disable'']"
| "setting_words (Hostname h) = [''hostname'', h]"
| "setting_words (Listenport p) = [''wg'', ''listenport'', string_of_nat p]"
| "setting_words (Peer k opts) = [''wg'', ''peer'', k] @ option_words opts"
| "setting_words (Link up) = [''wg'', if up then ''link-up'' else ''link-down'']"
| "setting_words (Nameserver a b) = [''nameserver'', a, b]"
| "setting_words (Address eth a m) = [''ip'', ''address'', eth, a, m]"
| "setting_words Dhcp = [''ip'', ''address'', ''wan'', ''dhcp'']"
| "setting_words (Route d m g eth) = [''ip'', ''route'', d, m, g, eth]"
| "setting_words (Portmap n z a p p1 p2) = [''sfirewall'', ''nat'', ''portmap'', n, z, a, p, p1, p2]"

definition setting_line :: "setting \<Rightarrow> string" where
  "setting_line x = join (CHR '' '') (setting_words x)"

text \<open>What the handlers and the matchers of the words accept.\<close>

definition is_ipv4 :: "string \<Rightarrow> bool" where
  "is_ipv4 w \<longleftrightarrow> cmd_ipv4_match (Some w) = exact_match"

definition endpoint_valid :: "string \<Rightarrow> bool" where
  "endpoint_valid ep \<longleftrightarrow> length ep \<le> 128 \<and> CHR ''/'' \<notin> set ep"

definition keepalive_valid :: "string \<Rightarrow> bool" where
  "keepalive_valid ka \<longleftrightarrow> (digit_first ka \<longrightarrow> 1 \<le> atoi ka \<and> atoi ka \<le> 1800)"

fun options_valid :: "peer_options \<Rightarrow> bool" where
  "options_valid No_options \<longleftrightarrow> True"
| "options_valid (Allowed ips) \<longleftrightarrow> digit_first ips"
| "options_valid (Endpoint ips ep) \<longleftrightarrow> digit_first ips \<and> endpoint_valid ep"
| "options_valid (Keepalive ips ep ka) \<longleftrightarrow> digit_first ips \<and> endpoint_valid ep \<and> keepalive_valid ka"

fun setting_valid :: "setting \<Rightarrow> bool" where
  "setting_valid (Hostname h) \<longleftrightarrow> h \<noteq> [] \<and> isalpha (hd h)"
| "setting_valid (Listenport p) \<longleftrightarrow> p < 10 ^ 9"
| "setting_valid (Peer k opts) \<longleftrightarrow> public_key_ok k \<and> options_valid opts"
| "setting_valid (Nameserver a b) \<longleftrightarrow> is_ipv4 a \<and> is_ipv4 b"
| "setting_valid (Address eth a m) \<longleftrightarrow> supported_interface eth \<and> is_ipv4 a \<and> is_ipv4 m"
| "setting_valid (Route d m g eth) \<longleftrightarrow> is_ipv4 d \<and> is_ipv4 m \<and> is_ipv4 g \<and> supported_interface eth"
| "setting_valid (Portmap n z a p p1 p2) \<longleftrightarrow> digit_first n \<and> z \<in> {''vpn'', ''wan''} \<and> is_ipv4 a \<and>
     p \<in> {''tcp'', ''udp'', ''all''} \<and> (p = ''all'' \<longrightarrow> p1 = ''0'' \<and> p2 = ''0'')"
| "setting_valid _ \<longleftrightarrow> True"

text \<open>The line fits the buffer of \<open>fgets\<close>, and its words have no blank, quote, percent sign or NUL.\<close>

definition word_ok :: "string \<Rightarrow> bool" where
  "word_ok w \<longleftrightarrow> plain_word w \<and> CHR ''%'' \<notin> set w \<and> CHR 0x00 \<notin> set w"

definition setting_ok :: "setting \<Rightarrow> bool" where
  "setting_ok x \<longleftrightarrow> setting_valid x \<and> list_all word_ok (setting_words x) \<and> length (setting_line x) + 2 \<le> VTY_BUFSIZ"

section \<open>A stored line is executed by its handler\<close>

fun option_items :: "peer_options \<Rightarrow> item list" where
  "option_items No_options = []"
| "option_items (Allowed ips) = [Kw ''allowed-ips'', Arg []]"
| "option_items (Endpoint ips ep) = [Kw ''allowed-ips'', Arg [], Kw ''endpoint'',
     if ep = ''none'' then Kw ''none'' else Arg [''none'']]"
| "option_items (Keepalive ips ep ka) = [Kw ''allowed-ips'', Arg [], Kw ''endpoint'',
     if ep = ''none'' then Kw ''none'' else Arg [''none''], Kw ''persistent-keepalive'',
     if ka = ''off'' then Kw ''off'' else Arg [''off'']]"

fun setting_items :: "setting \<Rightarrow> item list" where
  "setting_items Bridge_disable = [Kw ''bridge'', Kw ''disable'']"
| "setting_items (Hostname h) = [Kw ''hostname'', Arg []]"
| "setting_items (Listenport p) = [Kw ''wg'', Kw ''listenport'', Arg []]"
| "setting_items (Peer k opts) = [Kw ''wg'', Kw ''peer'', Arg []] @ option_items opts"
| "setting_items (Link up) = [Kw ''wg'', Kw (if up then ''link-up'' else ''link-down'')]"
| "setting_items (Nameserver a b) = [Kw ''nameserver'', Addr [], Addr []]"
| "setting_items (Address eth a m) = [Kw ''ip'', Kw ''address'', Arg [], Addr [''dhcp''], Addr []]"
| "setting_items Dhcp = [Kw ''ip'', Kw ''address'', Arg [], Kw ''dhcp'']"
| "setting_items (Route d m g eth) = [Kw ''ip'', Kw ''route'', Addr [], Addr [], Addr [], Arg []]"
| "setting_items (Portmap n z a p p1 p2) =
     [Kw ''sfirewall'', Kw ''nat'', Kw ''portmap'', Arg [''apply''], Kw z, Addr [], Kw p, Arg [], Arg []]"

text \<open>The handler of a setting and the words of its specification.\<close>

fun option_fn :: "peer_options \<Rightarrow> vpn_fn" where
  "option_fn No_options = F_wg_peer_public_key"
| "option_fn (Allowed ips) = F_wg_peer_allowed_ips"
| "option_fn (Endpoint ips ep) = F_wg_peer_endpoint"
| "option_fn (Keepalive ips ep ka) = F_wg_peer_persistent_keepalive"

fun option_spec :: "peer_options \<Rightarrow> string list list" where
  "option_spec No_options = []"
| "option_spec (Allowed ips) = [[''allowed-ips''], [''WORD'']]"
| "option_spec (Endpoint ips ep) = [[''allowed-ips''], [''WORD''], [''endpoint''],
     [''none'', ''FQDN:PORT'', ''A.B.C.D:PORT'']]"
| "option_spec (Keepalive ips ep ka) = [[''allowed-ips''], [''WORD''], [''endpoint''],
     [''none'', ''FQDN:PORT'', ''A.B.C.D:PORT''], [''persistent-keepalive''], [''off'', ''NUM'']]"

fun setting_fn :: "setting \<Rightarrow> command" where
  "setting_fn Bridge_disable = Bridge F_bridge_disable"
| "setting_fn (Hostname h) = Common F_config_hostname"
| "setting_fn (Listenport p) = Vpn F_wg_listenport"
| "setting_fn (Peer k opts) = Vpn (option_fn opts)"
| "setting_fn (Link up) = Vpn F_wg_link"
| "setting_fn (Nameserver a b) = Ip F_config_dns"
| "setting_fn (Address eth a m) = Ip F_ip_address"
| "setting_fn Dhcp = Ip F_ip_address_dhcp"
| "setting_fn (Route d m g eth) = Ip F_ip_route"
| "setting_fn (Portmap n z a p p1 p2) = Fw F_sfirewall_nat_portmap"

fun setting_spec :: "setting \<Rightarrow> string list list" where
  "setting_spec Bridge_disable = [[''bridge''], [''disable'']]"
| "setting_spec (Hostname h) = [[''hostname''], [''WORD'']]"
| "setting_spec (Listenport p) = [[''wg''], [''listenport''], [''NUM'']]"
| "setting_spec (Peer k opts) = [[''wg''], [''peer''], [''PUBLICKEY'']] @ option_spec opts"
| "setting_spec (Link up) = [[''wg''], [''link-up'', ''link-down'']]"
| "setting_spec (Nameserver a b) = [[''nameserver''], [''A.B.C.D''], [''A.B.C.D'']]"
| "setting_spec (Address eth a m) = [[''ip''], [''address''], [''ETHNAME''], [''A.B.C.D''], [''A.B.C.D'']]"
| "setting_spec Dhcp = [[''ip''], [''address''], [''ETHNAME''], [''dhcp'']]"
| "setting_spec (Route d m g eth) =
     [[''ip''], [''route''], [''A.B.C.D''], [''A.B.C.D''], [''A.B.C.D''], [''ETHNAME'']]"
| "setting_spec (Portmap n z a p p1 p2) =
     [[''sfirewall''], [''nat''], [''portmap''], [''NUM''], [''vpn'', ''wan''], [''A.B.C.D''],
      [''tcp'', ''udp'', ''all''], [''PORT''], [''PORT'']]"

lemma selects_plain:
  "selects CONFIG_NODE [Kw ''bridge'', Kw ''disable''] (Bridge F_bridge_disable) [[''bridge''], [''disable'']]"
  "selects CONFIG_NODE [Kw ''hostname'', Arg []] (Common F_config_hostname) [[''hostname''], [''WORD'']]"
  "selects CONFIG_NODE [Kw ''wg'', Kw ''listenport'', Arg []] (Vpn F_wg_listenport) [[''wg''], [''listenport''], [''NUM'']]"
  "selects CONFIG_NODE [Kw ''wg'', Kw ''link-up''] (Vpn F_wg_link) [[''wg''], [''link-up'', ''link-down'']]"
  "selects CONFIG_NODE [Kw ''wg'', Kw ''link-down''] (Vpn F_wg_link) [[''wg''], [''link-up'', ''link-down'']]"
  by code_simp+

lemma selects_ip:
  "selects CONFIG_NODE [Kw ''nameserver'', Addr [], Addr []] (Ip F_config_dns) [[''nameserver''], [''A.B.C.D''], [''A.B.C.D'']]"
  "selects CONFIG_NODE [Kw ''ip'', Kw ''address'', Arg [], Addr [''dhcp''], Addr []] (Ip F_ip_address)
     [[''ip''], [''address''], [''ETHNAME''], [''A.B.C.D''], [''A.B.C.D'']]"
  "selects CONFIG_NODE [Kw ''ip'', Kw ''address'', Arg [], Kw ''dhcp''] (Ip F_ip_address_dhcp)
     [[''ip''], [''address''], [''ETHNAME''], [''dhcp'']]"
  "selects CONFIG_NODE [Kw ''ip'', Kw ''route'', Addr [], Addr [], Addr [], Arg []] (Ip F_ip_route)
     [[''ip''], [''route''], [''A.B.C.D''], [''A.B.C.D''], [''A.B.C.D''], [''ETHNAME'']]"
  by code_simp+

lemma selects_peer:
  "selects CONFIG_NODE [Kw ''wg'', Kw ''peer'', Arg []] (Vpn F_wg_peer_public_key) [[''wg''], [''peer''], [''PUBLICKEY'']]"
  "selects CONFIG_NODE [Kw ''wg'', Kw ''peer'', Arg [], Kw ''allowed-ips'', Arg []] (Vpn F_wg_peer_allowed_ips)
     [[''wg''], [''peer''], [''PUBLICKEY''], [''allowed-ips''], [''WORD'']]"
  by code_simp+

lemma selects_endpoint:
  "ep \<in> {Kw ''none'', Arg [''none'']} \<Longrightarrow>
     selects CONFIG_NODE [Kw ''wg'', Kw ''peer'', Arg [], Kw ''allowed-ips'', Arg [], Kw ''endpoint'', ep] (Vpn F_wg_peer_endpoint)
       [[''wg''], [''peer''], [''PUBLICKEY''], [''allowed-ips''], [''WORD''], [''endpoint''], [''none'', ''FQDN:PORT'', ''A.B.C.D:PORT'']]"
  by (elim insertE emptyE; hypsubst; code_simp)

lemma selects_keepalive:
  "ep \<in> {Kw ''none'', Arg [''none'']} \<Longrightarrow> ka \<in> {Kw ''off'', Arg [''off'']} \<Longrightarrow>
     selects CONFIG_NODE [Kw ''wg'', Kw ''peer'', Arg [], Kw ''allowed-ips'', Arg [], Kw ''endpoint'', ep, Kw ''persistent-keepalive'', ka]
       (Vpn F_wg_peer_persistent_keepalive)
       [[''wg''], [''peer''], [''PUBLICKEY''], [''allowed-ips''], [''WORD''], [''endpoint''], [''none'', ''FQDN:PORT'', ''A.B.C.D:PORT''],
        [''persistent-keepalive''], [''off'', ''NUM'']]"
  by (elim insertE emptyE; hypsubst; code_simp)

text \<open>When a prefix of the line leaves one command, the rest of the line is compared with it alone.\<close>

definition narrows :: "node_type \<Rightarrow> item list \<Rightarrow> command \<Rightarrow> string list list \<Rightarrow> bool" where
  "narrows n its f tw \<longleftrightarrow>
     list_ex (\<lambda>(m, g, wss). if m = n then if g = f then wss = tw else False else False) command_specs \<and>
     list_all (\<lambda>(m, g, wss). if m = n then if words_apart its wss then if words_hit its wss
         then wss = tw else True else wss = tw else True) command_specs"

lemma words_apart_append: "words_apart its wss \<Longrightarrow> \<not> words_hit its wss \<Longrightarrow> words_apart (its @ its') wss"
  by (induction its wss rule: words_apart.induct) (auto split: if_splits)

lemma words_hit_append: "words_hit (its @ its') wss \<Longrightarrow> words_hit its wss"
  by (induction its wss rule: words_hit.induct) (auto split: if_splits)

lemma narrows_selects:
  assumes "narrows n its f tw" and "its \<noteq> []" and "words_hit (its @ its') tw" and "words_apart (its @ its') tw"
    and "length (mandatory tw) \<le> length (its @ its')"
  shows "selects n (its @ its') f tw"
proof -
  have "words_apart its wss \<and> \<not> words_hit its wss \<or> wss = tw" if "(n, g, wss) \<in> set command_specs" for g wss
    using assms(1) that unfolding narrows_def list_all_spec by (metis (full_types))
  then have "words_apart (its @ its') wss \<and> (wss = tw \<or> \<not> words_hit (its @ its') wss)"
    if "(n, g, wss) \<in> set command_specs" for g wss
    using that words_apart_append words_hit_append assms(4) by metis
  moreover have "(n, f, tw) \<in> set command_specs" using assms(1) unfolding narrows_def list_ex_spec by blast
  ultimately show ?thesis using assms(2,3,5) unfolding selects_iff by blast
qed

lemma narrows_portmap:
  "narrows CONFIG_NODE [Kw ''sfirewall'', Kw ''nat'', Kw ''portmap'', Arg [''apply'']] (Fw F_sfirewall_nat_portmap)
     [[''sfirewall''], [''nat''], [''portmap''], [''NUM''], [''vpn'', ''wan''], [''A.B.C.D''],
      [''tcp'', ''udp'', ''all''], [''PORT''], [''PORT'']]"
  by code_simp

lemma spec_word_kinds:
  "plain_variable ''NUM''" "plain_variable ''PORT''" "CMD_IPV4 ''A.B.C.D''" "\<not> CMD_VARARG ''A.B.C.D''"
  by code_simp+

lemma selects_portmap:
  assumes "z \<in> {''vpn'', ''wan''}" and "p \<in> {''tcp'', ''udp'', ''all''}"
  shows "selects CONFIG_NODE
    ([Kw ''sfirewall'', Kw ''nat'', Kw ''portmap'', Arg [''apply'']] @ [Kw z, Addr [], Kw p, Arg [], Arg []])
    (Fw F_sfirewall_nat_portmap)
     [[''sfirewall''], [''nat''], [''portmap''], [''NUM''], [''vpn'', ''wan''], [''A.B.C.D''],
      [''tcp'', ''udp'', ''all''], [''PORT''], [''PORT'']]"
  using assms
  by (intro narrows_selects [OF narrows_portmap])
    (auto simp: spec_word_kinds CMD_OPTION_def)

lemma setting_selects:
  assumes "setting_valid x"
  shows "selects CONFIG_NODE (setting_items x) (setting_fn x) (setting_spec x)"
proof (cases x)
  case (Peer k opts)
  then show ?thesis
    by (cases opts) (simp_all add: selects_peer selects_endpoint selects_keepalive)
next
  case (Portmap n z a p p1 p2)
  then show ?thesis using assms selects_portmap [of z p] by simp
qed (simp_all add: selects_plain selects_ip)

lemma keywords_literal:
  "literal ''bridge''" "literal ''disable''" "literal ''hostname''" "literal ''wg''" "literal ''listenport''"
  "literal ''peer''" "literal ''link-up''" "literal ''link-down''" "literal ''nameserver''" "literal ''ip''"
  "literal ''address''" "literal ''dhcp''" "literal ''route''" "literal ''sfirewall''" "literal ''nat''"
  "literal ''portmap''" "literal ''vpn''" "literal ''wan''" "literal ''tcp''" "literal ''udp''" "literal ''all''"
  "literal ''allowed-ips''" "literal ''endpoint''" "literal ''persistent-keepalive''" "literal ''none''" "literal ''off''"
  by (simp_all add: literal_def CMD_VARARG_def CMD_OPTION_def CMD_VARIABLE_def chr_code_def)

lemma not_ipv4: "\<not> is_ipv4 ''dhcp''"
  by (simp add: is_ipv4_def) code_simp

lemma setting_fits:
  assumes "setting_valid x"
  shows "list_all2 fits (setting_items x) (setting_words x)"
proof (cases x)
  case (Peer k opts)
  then show ?thesis by (cases opts) (simp_all add: keywords_literal)
next
  case (Address eth a m)
  then show ?thesis using assms not_ipv4 by (auto simp: keywords_literal is_ipv4_def)
next
  case (Portmap n z a p p1 p2)
  then show ?thesis using assms by (auto simp: keywords_literal is_ipv4_def digit_first_def isdigit_def)
qed (use assms in \<open>simp_all add: keywords_literal is_ipv4_def\<close>)

section \<open>What the handler does when a file is loaded\<close>

text \<open>The lines of the configuration that a setting displaces.\<close>

fun left_part :: "setting \<Rightarrow> string option" where
  "left_part (Hostname h) = Some ''hostname''"
| "left_part (Listenport p) = Some ''wg listenport''"
| "left_part (Peer k opts) = Some (''wg peer '' @ k)"
| "left_part (Nameserver a b) = Some ''nameserver''"
| "left_part (Address eth a m) = Some (''ip address '' @ eth)"
| "left_part Dhcp = Some ''ip address wan''"
| "left_part (Link up) = Some ''wg link-''"
| "left_part _ = None"

definition displaces :: "setting \<Rightarrow> string \<Rightarrow> bool" where
  "displaces x l \<longleftrightarrow> (case left_part x of None \<Rightarrow> l = setting_line x | Some p \<Rightarrow> prefix p l)"

lemma lines_del_byleft_none: "list_all (\<lambda>l. \<not> prefix p l) ls \<Longrightarrow> lines_del_byleft p ls = ls"
  unfolding lines_del_byleft_def by (induction ls) auto

lemma lines_del_none: "list_all (\<lambda>l. l \<noteq> p) ls \<Longrightarrow> lines_del p ls = ls"
  unfolding lines_del_def by (auto simp: list_all_iff intro: remove1_idem)

lemma setting_line_facts:
  assumes "setting_ok x"
  shows "CHR ''%'' \<notin> set (setting_line x)" "length (setting_line x) < 511" "setting_line x \<noteq> []"
proof -
  have "set (setting_line x) \<subseteq> insert (CHR '' '') (\<Union> (set ` set (setting_words x)))"
    unfolding setting_line_def by (rule set_join)
  then show "CHR ''%'' \<notin> set (setting_line x)"
    using assms by (auto simp: setting_ok_def list_all_iff word_ok_def)
  show "length (setting_line x) < 511" using assms by (simp add: setting_ok_def VTY_BUFSIZ_def)
  show "setting_line x \<noteq> []" by (cases x) (simp_all add: setting_line_def)
qed

lemma vformat_setting: "setting_ok x \<Longrightarrow> vformat (setting_line x) [] = Ret (setting_line x)"
  using setting_line_facts(1) by (rule vformat_plain)

lemma sprintf_fits: "length l < n \<Longrightarrow> sprintf n l = Ret l"
  by (simp add: sprintf_def)

lemma arg_words:
  "arg_word [''WORD'']" "arg_word [''NUM'']" "arg_word [''PUBLICKEY'']" "arg_word [''A.B.C.D'']" "arg_word [''ETHNAME'']"
  "arg_word [''PORT'']" "\<not> arg_word [''hostname'']" "\<not> arg_word [''bridge'']" "\<not> arg_word [''disable'']"
  "\<not> arg_word [''wg'']" "\<not> arg_word [''listenport'']" "\<not> arg_word [''peer'']" "\<not> arg_word [''nameserver'']"
  "\<not> arg_word [''ip'']" "\<not> arg_word [''address'']" "\<not> arg_word [''route'']" "\<not> arg_word [''dhcp'']"
  "\<not> arg_word [''sfirewall'']" "\<not> arg_word [''nat'']" "\<not> arg_word [''portmap'']"
  "\<not> arg_word [''allowed-ips'']" "\<not> arg_word [''endpoint'']" "\<not> arg_word [''persistent-keepalive'']"
  "arg_word (a # b # ds)"
  by (simp_all add: arg_word_def CMD_VARIABLE_def CMD_OPTION_def chr_code_def)

fun option_args :: "peer_options \<Rightarrow> string list" where
  "option_args No_options = []"
| "option_args (Allowed ips) = [ips]"
| "option_args (Endpoint ips ep) = [ips, ep]"
| "option_args (Keepalive ips ep ka) = [ips, ep, ka]"

fun setting_args :: "setting \<Rightarrow> string list" where
  "setting_args Bridge_disable = []"
| "setting_args (Hostname h) = [h]"
| "setting_args (Listenport p) = [string_of_nat p]"
| "setting_args (Peer k opts) = k # option_args opts"
| "setting_args (Link up) = [if up then ''link-up'' else ''link-down'']"
| "setting_args (Nameserver a b) = [a, b]"
| "setting_args (Address eth a m) = [eth, a, m]"
| "setting_args Dhcp = [''wan'']"
| "setting_args (Route d m g eth) = [d, m, g, eth]"
| "setting_args (Portmap n z a p p1 p2) = [n, z, a, p, p1, p2]"

lemma item_args_setting: "item_args (setting_spec x) (setting_words x) = setting_args x"
proof (cases x)
  case (Peer k opts)
  then show ?thesis by (cases opts) (simp_all add: item_args_def arg_words)
qed (simp_all add: item_args_def arg_words)

text \<open>The state after the line has been stored; the trace of a peer may show that keys were made.\<close>

definition stores :: "env \<Rightarrow> setting \<Rightarrow> state \<Rightarrow> bool" where
  "stores env x s \<longleftrightarrow> (\<exists>es. set es \<subseteq> {System genkey_command} \<and> call env (setting_fn x) (setting_args x) s =
     Ret (CMD_SUCCESS, s\<lparr>config_top := lines_add (setting_line x) (config_top s), trace := trace s @ es\<rparr>))"

text \<open>Without a change of the trace.\<close>

lemma storesI:
  "call env (setting_fn x) (setting_args x) s = Ret (CMD_SUCCESS, s\<lparr>config_top := lines_add (setting_line x) (config_top s)\<rparr>) \<Longrightarrow>
     stores env x s"
  unfolding stores_def by (intro exI [of _ "[]"]) simp

lemma atoi_string_of_nat: "n < 10 ^ 9 \<Longrightarrow> atoi (string_of_nat n) = int n"
  using string_of_nat_digits [of n] length_string_of_nat [of n 9] by (subst atoi_digits) auto

lemmas store_simps = displaces_def lines_del_none lines_del_byleft_none setting_line_def sprintf_fits shell_simps

lemma stores_simple:
  assumes "setting_ok x" and "vtype (vty s) = VTY_FILE" and "list_all (\<lambda>l. \<not> displaces x l) (config_top s)"
    and "x = Bridge_disable \<or> (\<exists>h. x = Hostname h) \<or> (\<exists>p. x = Listenport p) \<or> (\<exists>a b. x = Nameserver a b)"
  shows "stores env x s"
proof -
  note f = setting_line_facts [OF assms(1)] vformat_setting [OF assms(1)]
  have v: "setting_valid x" using assms(1) by (simp add: store_simps setting_ok_def)
  note facts = assms(2,3) f v
  from assms(4) show ?thesis
  proof (elim disjE exE)
    assume "x = Bridge_disable"
    with facts show ?thesis by (intro storesI) (simp add: store_simps bridge_disable_def del: vformat.simps)
  next
    fix h assume "x = Hostname h"
    with facts show ?thesis by (intro storesI) (simp add: store_simps config_hostname_def)
  next
    fix p assume "x = Listenport p"
    with facts show ?thesis
      by (intro storesI) (simp add: store_simps wg_listenport_def atoi_string_of_nat string_of_int_def del: vformat.simps)
  next
    fix a b assume "x = Nameserver a b"
    with facts show ?thesis by (intro storesI) (simp add: store_simps config_dns_def)
  qed
qed

lemma stores_ip:
  assumes "setting_ok x" and "vtype (vty s) = VTY_FILE" and "list_all (\<lambda>l. \<not> displaces x l) (config_top s)"
    and "x = Dhcp \<or> (\<exists>eth a m. x = Address eth a m) \<or> (\<exists>d m g eth. x = Route d m g eth) \<or>
      (\<exists>n z a p p1 p2. x = Portmap n z a p p1 p2)"
  shows "stores env x s"
proof -
  note f = setting_line_facts [OF assms(1)] vformat_setting [OF assms(1)]
  have v: "setting_valid x" using assms(1) by (simp add: setting_ok_def)
  note facts = assms(2,3) f v
  from assms(4) show ?thesis
  proof (elim disjE exE)
    assume "x = Dhcp"
    with facts show ?thesis by (intro storesI) (simp add: store_simps ip_address_dhcp_def del: vformat.simps)
  next
    fix eth a m assume "x = Address eth a m"
    with facts show ?thesis by (intro storesI) (simp add: store_simps ip_address_def del: vformat.simps)
  next
    fix d m g eth assume "x = Route d m g eth"
    with facts show ?thesis by (intro storesI) (simp add: store_simps ip_route_def del: vformat.simps)
  next
    fix n z a p p1 p2 assume "x = Portmap n z a p p1 p2"
    with facts show ?thesis
      by (intro storesI; cases "p = ''all''")
        (simp_all add: store_simps sfirewall_nat_portmap_def portmap_check_def CMD_SUCCESS_def del: vformat.simps)
  qed
qed

lemma stores_link:
  assumes "setting_ok (Link up)" and "vtype (vty s) = VTY_FILE" and "list_all (\<lambda>l. \<not> displaces (Link up) l) (config_top s)"
  shows "stores env (Link up) s"
proof -
  have "list_all (\<lambda>l. \<not> prefix ''wg link-up'' l) (config_top s)" "list_all (\<lambda>l. \<not> prefix ''wg link-down'' l) (config_top s)"
    using assms(3) by (auto simp: list_all_iff displaces_def prefix_def)
  then show ?thesis using assms(2) vformat_setting [OF assms(1)]
    by (intro storesI; cases up) (simp_all add: store_simps wg_link_def del: vformat.simps)
qed

lemma genkey_fits: "length genkey_command < 2048"
  by (simp add: genkey_command_def CONFIG_DIR_def)

lemma store_peer_file:
  assumes "vtype (vty s) = VTY_FILE" and "list_all (\<lambda>l. \<not> prefix (''wg peer '' @ k) l) (config_top s)"
    and "CHR ''%'' \<notin> set (''wg peer '' @ k @ opts)" and "length (''wg peer '' @ k @ opts) < 2048"
  shows "store_peer env k opts s = Ret (CMD_SUCCESS, s\<lparr>config_top := lines_add (''wg peer '' @ k @ opts) (config_top s)\<rparr>)"
proof -
  have "vformat (''wg peer '' @ k @ opts) [] = Ret (''wg peer '' @ k @ opts)" by (rule vformat_plain) (rule assms(3))
  with assms show ?thesis by (simp add: store_peer_def store_simps del: vformat.simps)
qed

lemma ensure_key_file:
  assumes "k (s\<lparr>trace := trace s @ es\<rparr>) = r" and "es = (if e_stat env (trace s) PRIVATEKEY_PATH then [] else [System genkey_command])"
  shows "ensure_private_key env k s = r"
  using assms
  by (cases "e_stat env (trace s) PRIVATEKEY_PATH")
    (simp_all add: ensure_private_key_def shell_simps sprintf_fits [OF genkey_fits] emit_def)

fun option_text :: "peer_options \<Rightarrow> string" where
  "option_text No_options = []"
| "option_text (Allowed ips) = '' allowed-ips '' @ ips"
| "option_text (Endpoint ips ep) = '' allowed-ips '' @ ips @ '' endpoint '' @ ep"
| "option_text (Keepalive ips ep ka) =
     '' allowed-ips '' @ ips @ '' endpoint '' @ ep @ '' persistent-keepalive '' @ ka"

lemma peer_line: "setting_line (Peer k opts) = ''wg peer '' @ k @ option_text opts"
  by (cases opts) (simp_all add: setting_line_def)

lemma peer_handler:
  assumes "public_key_ok k" and "options_valid opts"
  shows "call env (setting_fn (Peer k opts)) (setting_args (Peer k opts)) =
    ensure_private_key env (store_peer env k (option_text opts))"
  using assms
  by (cases opts)
    (auto simp: wg_peer_public_key_def wg_peer_allowed_ips_def wg_peer_endpoint_def
      wg_peer_persistent_keepalive_def check_endpoint_def endpoint_valid_def keepalive_valid_def)

lemma stores_peer:
  assumes "setting_ok (Peer k opts)" and "vtype (vty s) = VTY_FILE" and "list_all (\<lambda>l. \<not> displaces (Peer k opts) l) (config_top s)"
  shows "stores env (Peer k opts) s"
proof -
  note f = setting_line_facts [OF assms(1), unfolded peer_line]
  have v: "public_key_ok k" "options_valid opts" using assms(1) by (auto simp: setting_ok_def)
  let ?es = "if e_stat env (trace s) PRIVATEKEY_PATH then [] else [System genkey_command]"
  let ?s = "s\<lparr>trace := trace s @ ?es\<rparr>"
  have "store_peer env k (option_text opts) ?s =
      Ret (CMD_SUCCESS, ?s\<lparr>config_top := lines_add (setting_line (Peer k opts)) (config_top ?s)\<rparr>)"
    unfolding peer_line using assms(2,3) f by (intro store_peer_file) (simp_all add: displaces_def)
  then have "ensure_private_key env (store_peer env k (option_text opts)) s =
      Ret (CMD_SUCCESS, ?s\<lparr>config_top := lines_add (setting_line (Peer k opts)) (config_top ?s)\<rparr>)"
    by (intro ensure_key_file [OF _ refl])
  then show ?thesis unfolding stores_def peer_handler [OF v] by (intro exI [of _ ?es]) simp
qed

lemma setting_stored:
  assumes "setting_ok x" and "vtype (vty s) = VTY_FILE" and "list_all (\<lambda>l. \<not> displaces x l) (config_top s)"
  shows "stores env x s"
  using assms stores_simple [OF assms] stores_ip [OF assms] stores_link stores_peer by (cases x) auto

section \<open>Loading stored lines\<close>

lemma setting_words_ok:
  assumes "setting_ok x"
  shows "setting_words x \<noteq> []" "list_all word_ok (setting_words x)" "hd (hd (setting_words x)) \<notin> {CHR ''!'', CHR ''#''}"
  using assms by (auto simp: setting_ok_def) (cases x; simp)+

lemma setting_chars:
  assumes "setting_ok x"
  shows "CHR 0x22 \<notin> set (setting_line x)" "CHR 0x00 \<notin> set (setting_line x)" "CHR 0x0A \<notin> set (setting_line x)"
proof -
  have "set (setting_line x) \<subseteq> insert (CHR '' '') (\<Union> (set ` set (setting_words x)))"
    unfolding setting_line_def by (rule set_join)
  moreover have "c \<noteq> CHR 0x22 \<and> c \<noteq> CHR 0x00 \<and> c \<noteq> CHR 0x0A" if "c \<in> \<Union> (set ` set (setting_words x))" for c
    using that setting_words_ok(2) [OF assms] by (auto simp: list_all_iff word_ok_def plain_word_def isspace_def)
  ultimately show "CHR 0x22 \<notin> set (setting_line x)" "CHR 0x00 \<notin> set (setting_line x)" "CHR 0x0A \<notin> set (setting_line x)"
    by auto
qed

lemma setting_strvec:
  assumes "setting_ok x"
  shows "cmd_make_strvec (Some (setting_line x @ NL)) = Some (setting_words x)"
proof (rule strvec_loop_unquoted [of _ _ "[]" NL])
  have "CHR 0x22 \<notin> set (setting_line x @ NL)" using setting_chars(1) [OF assms] by (simp add: NL_def)
  then show "join_quoted (setting_line x @ NL) = [] @ join (CHR '' '') (setting_words x) @ NL"
    by (simp add: join_quoted_plain setting_line_def)
  show "w \<noteq> [] \<and> list_all (\<lambda>c. \<not> isspace c) w" if "w \<in> set (setting_words x)" for w
    using that setting_words_ok(2) [OF assms] by (auto simp: list_all_iff word_ok_def plain_word_def)
qed (use setting_words_ok [OF assms] in \<open>auto simp: NL_def isspace_def\<close>)

lemma setting_hd:
  assumes "setting_ok x"
  shows "hd (setting_line x) \<noteq> CHR ''!''" "hd (setting_line x) \<noteq> CHR ''#''"
proof -
  have "hd (setting_words x) \<noteq> []"
    using setting_words_ok [OF assms] by (cases "setting_words x") (auto simp: word_ok_def plain_word_def)
  then have "hd (setting_line x) = hd (hd (setting_words x))"
    using join_hd [OF setting_words_ok(1) [OF assms]] by (simp add: setting_line_def)
  then show "hd (setting_line x) \<noteq> CHR ''!''" "hd (setting_line x) \<noteq> CHR ''#''"
    using setting_words_ok(3) [OF assms] by auto
qed

lemma cstr_plain: "CHR 0x00 \<notin> set s \<Longrightarrow> cstr s = s"
  by (auto simp: cstr_def takeWhile_eq_all_conv)

definition loading_vty :: "vty \<Rightarrow> bool" where
  "loading_vty my \<longleftrightarrow> vtype my = VTY_FILE \<and> vnode my = CONFIG_NODE"

lemma load_command_setting:
  assumes "setting_ok x" and "table_holds all_elements (cmds s)" and "loading_vty my"
    and "list_all (\<lambda>l. \<not> displaces x l) (config_top s)"
  shows "\<exists>es. set es \<subseteq> {System genkey_command} \<and> load_command env (setting_words x) b my s =
    Ret (my, s\<lparr>config_top := lines_add (setting_line x) (config_top s), trace := trace s @ es\<rparr>)"
proof -
  have v: "setting_valid x" using assms(1) by (simp add: setting_ok_def)
  have len: "length (setting_items x) < CMD_ARGC_MAX"
  proof (cases x)
    case (Peer k opts)
    then show ?thesis by (cases opts) (simp_all add: CMD_ARGC_MAX_def)
  qed (simp_all add: CMD_ARGC_MAX_def)
  have "CONFIG_NODE \<in> set user_nodes" by (simp add: user_nodes_def)
  from strict_items.lookup_selected [OF assms(2) this setting_selects [OF v] setting_fits [OF v] len]
  obtain e where e: "func e = setting_fn x" "daemon e = 0"
      "find_command cmd_filter_by_string (cmds s) (setting_words x) CONFIG_NODE = Ret (Inr (e, setting_args x))"
    unfolding item_args_setting by blast
  let ?s = "s\<lparr>vty := my\<rparr>"
  have "stores env x ?s" using assms by (intro setting_stored) (simp_all add: loading_vty_def)
  then obtain es where es: "set es \<subseteq> {System genkey_command}" "call env (setting_fn x) (setting_args x) ?s =
      Ret (CMD_SUCCESS, ?s\<lparr>config_top := lines_add (setting_line x) (config_top s), trace := trace s @ es\<rparr>)"
    by (auto simp: stores_def)
  have "execute_strict env (setting_words x) my s = Ret ((CMD_SUCCESS, Some e), my,
      s\<lparr>config_top := lines_add (setting_line x) (config_top s), trace := trace s @ es\<rparr>)"
    using e es assms(3)
    by (simp add: execute_strict_def on_vty_def cmd_execute_command_strict_def execute_with_def loading_vty_def)
  with es(1) show ?thesis
    by (intro exI [of _ es]) (simp add: load_command_def load_message_def cmd_codes)
qed

lemma lines_add_last: "line \<noteq> [] \<Longrightarrow> list_all (\<lambda>l. l \<le> line) ls \<Longrightarrow> lines_add line ls = ls @ [line]"
proof -
  assume "line \<noteq> []" "list_all (\<lambda>l. l \<le> line) ls"
  then have "\<forall>l \<in> set ls. \<not> line_cmp line l < 0" by (auto simp: list_all_iff line_cmp_def strcmp_less_0_iff)
  then have "takeWhile (\<lambda>l. \<not> line_cmp line l < 0) ls = ls" "dropWhile (\<lambda>l. \<not> line_cmp line l < 0) ls = []"
    by (simp_all add: takeWhile_eq_all_conv dropWhile_eq_Nil_conv)
  with \<open>line \<noteq> []\<close> show ?thesis by (simp add: lines_add_def ins_sorted_def)
qed

text \<open>In a stored configuration the lines are in order and no setting displaces an earlier one.\<close>

definition stored_settings :: "setting list \<Rightarrow> bool" where
  "stored_settings xs \<longleftrightarrow> list_all setting_ok xs \<and>
     sorted_wrt (\<lambda>x y. setting_line x \<le> setting_line y \<and> \<not> displaces y (setting_line x)) xs"

lemma load_lines_settings:
  assumes "stored_settings xs" and "table_holds all_elements (cmds s)" and "loading_vty my"
    and "\<forall>l \<in> set (config_top s). \<forall>x \<in> set xs. l \<le> setting_line x \<and> \<not> displaces x l"
  shows "\<exists>es my'. loading_vty my' \<and> set es \<subseteq> {System genkey_command} \<and>
    load_lines env (map (\<lambda>x. setting_line x @ NL) xs @ ls) my s =
      load_lines env ls my' (s\<lparr>config_top := config_top s @ map setting_line xs, trace := trace s @ es\<rparr>)"
  using assms
proof (induction xs arbitrary: my s)
  case Nil
  then show ?case by (intro exI [of _ "[]"] exI [of _ my]) simp
next
  case (Cons x xs)
  have x: "setting_ok x" "stored_settings xs" using Cons.prems(1) by (auto simp: stored_settings_def)
  let ?b = "setting_line x @ NL" and ?my = "my\<lparr>vbuf := setting_line x @ NL\<rparr>"
  have b: "cstr ?b = ?b" using setting_chars(2) [OF x(1)] by (intro cstr_plain) (simp add: NL_def)
  have hd: "?b \<noteq> []" "hd ?b \<noteq> CHR ''#''" "hd ?b \<noteq> CHR ''!''"
    using setting_hd [OF x(1)] setting_line_facts(3) [OF x(1)] by auto
  have my: "loading_vty ?my" using Cons.prems(3) by (simp add: loading_vty_def)
  have "list_all (\<lambda>l. \<not> displaces x l) (config_top s)" using Cons.prems(4) by (auto simp: list_all_iff)
  from load_command_setting [OF x(1) Cons.prems(2) my this]
  obtain es where es: "set es \<subseteq> {System genkey_command}" "load_command env (setting_words x) ?b ?my s =
      Ret (?my, s\<lparr>config_top := lines_add (setting_line x) (config_top s), trace := trace s @ es\<rparr>)" by blast
  have add: "lines_add (setting_line x) (config_top s) = config_top s @ [setting_line x]"
    using Cons.prems(4) setting_line_facts(3) [OF x(1)] by (intro lines_add_last) (auto simp: list_all_iff)
  let ?t = "s\<lparr>config_top := config_top s @ [setting_line x], trace := trace s @ es\<rparr>"
  have step: "load_lines env (map (\<lambda>x. setting_line x @ NL) (x # xs) @ ls) my s =
      load_lines env (map (\<lambda>x. setting_line x @ NL) xs @ ls) ?my ?t"
    using b hd setting_strvec [OF x(1)] es(2) by (simp add: Let_def add)
  have "\<forall>l \<in> set (config_top ?t). \<forall>y \<in> set xs. l \<le> setting_line y \<and> \<not> displaces y l"
    using Cons.prems(1,4) by (auto simp: stored_settings_def)
  from Cons.IH [OF x(2) _ my this] Cons.prems(2)
  obtain es' my' where "loading_vty my'" "set es' \<subseteq> {System genkey_command}"
      "load_lines env (map (\<lambda>x. setting_line x @ NL) xs @ ls) ?my ?t =
        load_lines env ls my' (?t\<lparr>config_top := config_top ?t @ map setting_line xs, trace := trace ?t @ es'\<rparr>)" by auto
  with step es(1) show ?case by (intro exI [of _ "es @ es'"] exI [of _ my']) simp
qed

section \<open>Writing and loading\<close>

text \<open>The content of a file that was opened for writing, as the trace has it.\<close>

definition file_event :: "string \<Rightarrow> string \<Rightarrow> event \<Rightarrow> string" where
  "file_event file content e =
     (case e of
        Open_w f \<Rightarrow> if f = file then [] else content
      | Write (File f) out \<Rightarrow> if f = file then content @ out else content
      | _ \<Rightarrow> content)"

definition written :: "string \<Rightarrow> event list \<Rightarrow> string" where
  "written file tr = foldl (file_event file) [] tr"

definition time_ok :: "string \<Rightarrow> bool" where
  "time_ok ts \<longleftrightarrow> CHR 0x0A \<notin> set ts \<and> length ts < 200"

lemma dump_file_lines:
  assumes "list_all setting_ok xs" and "time_ok ts" and "vmax v = 0"
  shows "fgets_all VTY_BUFSIZ (config_dump ts (map setting_line xs) v) =
    (''#Writed on '' @ ts @ NL) # map (\<lambda>x. setting_line x @ NL) xs @ [''!'' @ NL]"
proof -
  let ?ls = "(''#Writed on '' @ ts) # map setting_line xs @ [''!'']"
  have "CHR 0x0A \<notin> set l \<and> length l + 2 \<le> VTY_BUFSIZ" if "l \<in> set ?ls" for l
    using that assms(1,2) setting_chars(3)
    by (auto simp: list_all_iff time_ok_def VTY_BUFSIZ_def) (simp add: setting_ok_def VTY_BUFSIZ_def)
  from fgets_all_unlines [of ?ls, OF this, of "[]"] show ?thesis
    by (simp add: config_dump_def dump_lines_top [OF assms(3)] comp_def)
qed

lemma strvec_comment: "cmd_make_strvec (Some (''!'' @ NL)) = None"
  by code_simp

lemma load_dump:
  assumes "stored_settings xs" and "time_ok ts" and "vmax v = 0"
    and "e_read env (trace s) file = Some (config_dump ts (map setting_line xs) v)"
    and "table_holds all_elements (cmds s)" and "config_top s = []"
  shows "\<exists>es. set es \<subseteq> {System genkey_command} \<and> vtysh_load_config env file s =
    Ret (CMD_SUCCESS, s\<lparr>config_top := map setting_line xs, trace := trace s @ es\<rparr>)"
proof -
  let ?v = "vty_new\<lparr>vtype := VTY_FILE, vnode := CONFIG_NODE\<rparr>"
  let ?my = "?v\<lparr>vbuf := cstr (''#Writed on '' @ ts @ NL)\<rparr>"
  have my: "loading_vty ?my" by (simp add: loading_vty_def)
  have xs: "list_all setting_ok xs" using assms(1) by (simp add: stored_settings_def)
  have c: "cstr (''#Writed on '' @ ts @ NL) \<noteq> [] \<and> hd (cstr (''#Writed on '' @ ts @ NL)) = CHR ''#''"
    "cstr (''!'' @ NL) = ''!'' @ NL" by (simp_all add: cstr_def NL_def)
  from load_lines_settings [OF assms(1,5) my, of env "[''!'' @ NL]"] assms(6)
  obtain es my' where es: "set es \<subseteq> {System genkey_command}"
    "load_lines env (map (\<lambda>x. setting_line x @ NL) xs @ [''!'' @ NL]) ?my s =
      load_lines env [''!'' @ NL] my' (s\<lparr>config_top := map setting_line xs, trace := trace s @ es\<rparr>)" by auto
  have "load_lines env (fgets_all VTY_BUFSIZ (config_dump ts (map setting_line xs) v)) ?v s =
      load_lines env (map (\<lambda>x. setting_line x @ NL) xs @ [''!'' @ NL]) ?my s"
    using c(1) unfolding dump_file_lines [OF xs assms(2,3)] by (simp add: Let_def)
  moreover obtain my'' where "load_lines env [''!'' @ NL] my' (s\<lparr>config_top := map setting_line xs, trace := trace s @ es\<rparr>) =
      Ret (my'', s\<lparr>config_top := map setting_line xs, trace := trace s @ es\<rparr>)"
    using c(2) strvec_comment by (simp add: Let_def)
  ultimately show ?thesis using es assms(4)
    by (intro exI [of _ es]) (simp add: vtysh_load_config_def vtysh_config_from_file_def del: load_lines.simps)
qed

lemma write_file:
  assumes "session_inv file s" and "e_open_w env (trace s) file" and "e_time env (trace s @ [Open_w file]) = Some ts"
  shows "\<exists>t. config_write_file env argv s = Ret (CMD_SUCCESS, t) \<and>
    written file (trace t) = config_dump ts (config_top s) (configvec s) \<and> config_top t = config_top s"
  using assms
  by (auto simp: session_inv_def config_write_file_def shell_simps dump_to_def emit_def write_password_def written_def file_event_def outcome_simps)

lemma start_state:
  assumes "length (fst (e_build env)) + length (snd (e_build env)) < 1000"
  obtains s0 s1 where "init_state = Ret s0" "in_show_welcome env s0 = Ret s1" "config_top s1 = []"
    "table_holds all_elements (cmds s1)"
proof -
  obtain v where v: "command_table = Ret v" using command_table_holds by blast
  have "\<exists>s0. init_state = Ret s0" unfolding init_state_def v by simp
  then obtain s0 where s0: "init_state = Ret s0" by blast
  have "\<exists>b. in_show_welcome env s0 = Ret (out_line b s0)"
    using assms by (auto simp: in_show_welcome_def sprintf_def Let_def)
  then obtain b where b: "in_show_welcome env s0 = Ret (out_line b s0)" by blast
  show ?thesis using init_state_props [OF s0] by (intro that [OF s0 b]) (simp_all add: out_line_def)
qed

lemma main_load:
  assumes "\<not> boot_flag opts" "eval_line opts = None" "length (fst (e_build env)) + length (snd (e_build env)) < 1000"
    and "\<And>s. config_top s = [] \<Longrightarrow> table_holds all_elements (cmds s) \<Longrightarrow>
      \<exists>es. vtysh_load_config env (config_file opts) s = Ret (CMD_SUCCESS, s\<lparr>config_top := ls, trace := trace s @ es\<rparr>)"
  shows "\<exists>u. main env opts [] = Ret (None, u) \<and> config_top u = ls \<and> reachable env opts u"
proof -
  obtain s0 s1 where s: "init_state = Ret s0" "in_show_welcome env s0 = Ret s1" "config_top s1 = []"
    "table_holds all_elements (cmds s1)" using start_state [OF assms(3)] by blast
  let ?s = "s1\<lparr>host := (host s1)\<lparr>h_config := Some (config_file opts)\<rparr>\<rparr>"
  from assms(4) [of ?s] s obtain es where
    l: "vtysh_load_config env (config_file opts) ?s = Ret (CMD_SUCCESS, ?s\<lparr>config_top := ls, trace := trace ?s @ es\<rparr>)"
    by auto
  from reachable.start [OF s(1,2) l] show ?thesis using assms(1,2) by (simp add: main_def s l)
qed

text \<open>
  C2. The configuration survives a restart. If the lines of the configuration are settings that the
  handlers accept, in order and none of them displacing an earlier one, then \<open>write file\<close> in a
  session succeeds, and a shell that is started and finds in its configuration file what was written
  waits for a line with exactly the same configuration.
\<close>

theorem config_restored:
  assumes "reachable env opts s" and "stored_settings xs" and "config_top s = map setting_line xs"
    and "e_open_w env (trace s) (config_file opts)"
    and "e_time env (trace s @ [Open_w (config_file opts)]) = Some ts" and "time_ok ts"
    and "\<not> boot_flag opts" and "eval_line opts = None"
  shows "\<exists>t. config_write_file env argv s = Ret (CMD_SUCCESS, t) \<and>
    (\<forall>env' :: env. (\<forall>tr. e_read env' tr (config_file opts) = Some (written (config_file opts) (trace t))) \<and>
        length (fst (e_build env')) + length (snd (e_build env')) < 1000 \<longrightarrow>
      (\<exists>u. main env' opts [] = Ret (None, u) \<and> config_top u = config_top s))"
proof -
  note inv = reachable_inv [OF assms(1)]
  then have vmax: "vmax (configvec s) = 0" by (simp add: session_inv_def)
  from write_file [OF inv assms(4,5)] obtain t where t: "config_write_file env argv s = Ret (CMD_SUCCESS, t)"
    "written (config_file opts) (trace t) = config_dump ts (map setting_line xs) (configvec s)"
    using assms(3) by auto
  show ?thesis
  proof (rule exI [of _ t], intro conjI allI impI, rule t(1), elim conjE)
    fix env' :: env
    assume r: "\<forall>tr. e_read env' tr (config_file opts) = Some (written (config_file opts) (trace t))"
      and b: "length (fst (e_build env')) + length (snd (e_build env')) < 1000"
    have "\<exists>es. vtysh_load_config env' (config_file opts) s2 = Ret (CMD_SUCCESS, s2\<lparr>config_top := config_top s, trace := trace s2 @ es\<rparr>)"
      if "config_top s2 = []" "table_holds all_elements (cmds s2)" for s2
      using load_dump [OF assms(2,6) vmax, of env' s2 "config_file opts"] that r t(2) assms(3) by auto
    from main_load [OF assms(7,8) b this] show "\<exists>u. main env' opts [] = Ret (None, u) \<and> config_top u = config_top s"
      by blast
  qed
qed

definition sample_settings :: "setting list" where
  "sample_settings =
     [Hostname ''gw'', Address ''wg0'' ''10.1.0.1'' ''255.255.255.0'', Nameserver ''1.1.1.1'' ''8.8.8.8'', Link True,
      Listenport 443, Peer (replicate 43 (CHR ''k'') @ ''='') (Endpoint ''10.1.0.2/32'' ''192.168.1.2:51820'')]"

lemma sample_facts:
  "list_all is_ipv4 [''10.1.0.1'', ''255.255.255.0'', ''1.1.1.1'', ''8.8.8.8'']"
  "string_of_nat 443 = ''443''" "isalpha (CHR ''g'')" "supported_interface ''wg0''"
  by code_simp+

lemma sample_settings_stored: "stored_settings sample_settings"
  using sample_facts
  by (simp add: sample_settings_def stored_settings_def setting_ok_def setting_line_def word_ok_def plain_word_def
      VTY_BUFSIZ_def endpoint_valid_def digit_first_def isdigit_def public_key_ok_def PUBLICKEY_MAX_LEN_def
      displaces_def nth_append list_all_iff isspace_def)

definition sample_env :: env where
  "sample_env = quiet_env\<lparr>e_read := \<lambda>_ _. Some (config_dump ''now'' (map setting_line sample_settings) (vector_init 1))\<rparr>"

theorem config_restored_witness:
  "\<exists>s t u. reachable sample_env (default_options None) s \<and> config_write_file sample_env [] s = Ret (CMD_SUCCESS, t) \<and>
    main (quiet_env\<lparr>e_read := \<lambda>_ _. Some (written ''/qrwg/config/asmcli.conf'' (trace t))\<rparr>) (default_options None) [] =
      Ret (None, u) \<and> config_top u = map setting_line sample_settings"
proof -
  let ?opts = "default_options None" and ?f = "''/qrwg/config/asmcli.conf''"
  have ok: "stored_settings sample_settings" by (rule sample_settings_stored)
  have ts: "time_ok ''now''" by (simp add: time_ok_def)
  have f: "config_file ?opts = ?f" "\<not> boot_flag ?opts" "eval_line ?opts = None"
    by (simp_all add: default_options_def CONFIG_DIR_def CONFIG_FILE_def)
  have env: "length (fst (e_build sample_env)) + length (snd (e_build sample_env)) < 1000"
    "e_open_w sample_env tr fl" "e_time sample_env tr = Some ''now''" for tr fl
    by (simp_all add: sample_env_def quiet_env_def)
  have "\<exists>es. vtysh_load_config sample_env (config_file ?opts) s =
      Ret (CMD_SUCCESS, s\<lparr>config_top := map setting_line sample_settings, trace := trace s @ es\<rparr>)"
    if "config_top s = []" "table_holds all_elements (cmds s)" for s
    using load_dump [OF ok ts, of "vector_init 1" sample_env s "config_file ?opts"] that
    by (auto simp: sample_env_def vector_init_def)
  from main_load [OF f(2,3) env(1) this] obtain s where
    s: "reachable sample_env ?opts s" "config_top s = map setting_line sample_settings" by blast
  from config_restored [OF s(1) ok s(2) env(2,3) ts f(2,3), of "[]"] obtain t where t:
    "config_write_file sample_env [] s = Ret (CMD_SUCCESS, t)"
    "\<And>env' :: env. (\<forall>tr. e_read env' tr ?f = Some (written ?f (trace t))) \<Longrightarrow>
        length (fst (e_build env')) + length (snd (e_build env')) < 1000 \<Longrightarrow>
      \<exists>u. main env' ?opts [] = Ret (None, u) \<and> config_top u = config_top s" unfolding f(1) by blast
  from t(2) [of "quiet_env\<lparr>e_read := \<lambda>_ _. Some (written ?f (trace t))\<rparr>"] s t(1) show ?thesis
    by (auto simp: quiet_env_def)
qed

end
