(* ===== verification/Handlers.thy ===== *)
theory Handlers
  imports Restore
begin

text \<open>
  What single handlers accept and do: WireGuard peers, port map and filter rules and the rule files
  made of them, the listening port, and the password prompt.
\<close>

section \<open>Peers\<close>

lemma store_peer_effect:
  assumes "CHR ''%'' \<notin> set (''wg peer '' @ k @ opts)" and "length (''wg peer '' @ k @ opts) < 1900"
  shows "store_peer env k opts s = Ret (CMD_SUCCESS,
    s\<lparr>config_top := lines_add (''wg peer '' @ k @ opts) (lines_del_byleft (''wg peer '' @ k) (config_top s)),
      trace := trace s @ (if vtype (vty s) = VTY_FILE then [] else
        [System (''wg set wg0 private-key '' @ PRIVATEKEY_PATH @ '' peer '' @ k @ opts @ '' > /dev/null 2>&1'')])\<rparr>)"
proof -
  have "vformat (''wg peer '' @ k @ opts) [] = Ret (''wg peer '' @ k @ opts)" by (rule vformat_plain) (rule assms(1))
  with assms(2) show ?thesis
    by (simp add: store_peer_def shell_simps sprintf_fits emit_def PRIVATEKEY_PATH_def CONFIG_DIR_def del: vformat.simps)
qed

lemma message_only:
  "\<exists>r msg. key_error s = Ret (r, emit (Write Stdout msg) s) \<and> r \<noteq> CMD_SUCCESS"
  "\<exists>r msg. allowed_ips_error ips s = Ret (r, emit (Write Stdout msg) s) \<and> r \<noteq> CMD_SUCCESS"
  "\<exists>r msg. fw_error what arg s = Ret (r, emit (Write Stdout msg) s) \<and> r \<noteq> CMD_SUCCESS"
  "\<exists>r msg. not_supported_option arg s = Ret (r, emit (Write Stdout msg) s) \<and> r \<noteq> CMD_SUCCESS"
  by (auto simp: key_error_def allowed_ips_error_def fw_error_def not_supported_option_def shell_simps cmd_codes)

lemma check_endpoint_reject:
  "\<not> endpoint_valid ep \<Longrightarrow> \<exists>r msg. check_endpoint ep ok s = Ret (r, emit (Write Stdout msg) s) \<and> r \<noteq> CMD_SUCCESS"
  by (auto simp: check_endpoint_def endpoint_valid_def shell_simps cmd_codes)

lemma check_endpoint_accept: "endpoint_valid ep \<Longrightarrow> check_endpoint ep ok = ok"
  by (auto simp: check_endpoint_def endpoint_valid_def)

lemma peer_rejected:
  assumes "\<not> setting_valid (Peer k opts)"
  shows "\<exists>r msg. call env (setting_fn (Peer k opts)) (setting_args (Peer k opts)) s = Ret (r, emit (Write Stdout msg) s) \<and> r \<noteq> CMD_SUCCESS"
proof (cases "public_key_ok k")
  case False
  then show ?thesis using message_only(1) [of s]
    by (cases opts) (simp_all add: wg_peer_public_key_def wg_peer_allowed_ips_def wg_peer_endpoint_def
      wg_peer_persistent_keepalive_def)
next
  case True
  note key = True
  show ?thesis
  proof (cases opts)
    case No_options
    then show ?thesis using assms key by simp
  next
    case (Allowed ips)
    then show ?thesis using assms key message_only(2) by (simp add: wg_peer_allowed_ips_def)
  next
    case (Endpoint ips ep)
    then show ?thesis using assms key message_only(2) check_endpoint_reject
      by (cases "digit_first ips") (simp_all add: wg_peer_endpoint_def)
  next
    case (Keepalive ips ep ka)
    show ?thesis
    proof (cases "digit_first ips \<and> endpoint_valid ep")
      case True
      with assms key Keepalive show ?thesis
        by (auto simp: wg_peer_persistent_keepalive_def check_endpoint_accept keepalive_valid_def shell_simps cmd_codes)
    next
      case False
      then show ?thesis using Keepalive key message_only(2) check_endpoint_reject
        by (cases "digit_first ips") (simp_all add: wg_peer_persistent_keepalive_def split del: if_split)
    qed
  qed
qed

lemma peer_accepted:
  assumes "setting_valid (Peer k opts)" and "CHR ''%'' \<notin> set (setting_line (Peer k opts))"
    and "length (setting_line (Peer k opts)) < 1900"
  shows "\<exists>es t. call env (setting_fn (Peer k opts)) (setting_args (Peer k opts)) s = Ret (CMD_SUCCESS, t) \<and>
    t = s\<lparr>config_top := lines_add (setting_line (Peer k opts)) (lines_del_byleft (''wg peer '' @ k) (config_top s)),
      trace := trace s @ es\<rparr> \<and>
    es = (if e_stat env (trace s) PRIVATEKEY_PATH then [] else [System genkey_command]) @
      (if vtype (vty s) = VTY_FILE then [] else
        [System (''wg set wg0 private-key '' @ PRIVATEKEY_PATH @ '' peer '' @ k @ option_text opts @ '' > /dev/null 2>&1'')])"
proof -
  have v: "public_key_ok k" "options_valid opts" using assms(1) by auto
  let ?es = "if e_stat env (trace s) PRIVATEKEY_PATH then [] else [System genkey_command]"
  from store_peer_effect [of k "option_text opts" env "s\<lparr>trace := trace s @ ?es\<rparr>"] assms(2,3)
  show ?thesis unfolding peer_handler [OF v] unfolding peer_line
    by (subst ensure_key_file [OF _ refl]) auto
qed

section \<open>Rule files\<close>

definition param_ok :: "nat \<Rightarrow> string \<Rightarrow> bool" where
  "param_ok sz w \<longleftrightarrow> plain_word w \<and> CHR 0x00 \<notin> set w \<and> CHR ''%'' \<notin> set w \<and> length w < sz"

lemma take_params_words: "list_all (\<lambda>w. length w < sz) ws \<Longrightarrow> take_params (length ws) sz ws = Ret (Some ws)"
  by (induction ws) (simp_all add: sprintf_def)

lemma rule_params_line:
  assumes "list_all (param_ok sz) ws" and "ws \<noteq> []" and "CHR 0x00 \<notin> set keyword"
  shows "rule_params keyword (length ws) sz (keyword @ '' '' @ join (CHR '' '') ws @ NL) = Ret (Some ws)"
proof -
  let ?j = "join (CHR '' '') ws"
  have "set ?j \<subseteq> insert (CHR '' '') (\<Union> (set ` set ws))" by (rule set_join)
  then have "CHR 0x00 \<notin> set ?j" using assms(1) by (auto simp: list_all_iff param_ok_def)
  then have "cstr (keyword @ '' '' @ ?j @ NL) = keyword @ '' '' @ ?j @ NL"
    using assms(3) by (intro cstr_plain) (auto simp: NL_def)
  moreover have "butlast (keyword @ '' '' @ ?j @ NL) = keyword @ '' '' @ ?j"
    by (simp add: butlast_append NL_def)
  moreover have "strtok_all (CHR '' '') ?j = ws"
    using assms(1) by (intro strtok_all_join) (auto simp: list_all_iff param_ok_def plain_word_def isspace_def)
  moreover have "take_params (length ws) sz ws = Ret (Some ws)"
    using assms(1) by (intro take_params_words) (auto simp: list_all_iff param_ok_def)
  ultimately show ?thesis by (simp add: rule_params_def cut_last_def strncmp_prefix_right_iff)
qed

definition portmap_line :: "string list \<Rightarrow> string" where
  "portmap_line ps = ''sfirewall nat portmap'' @ '' '' @ join (CHR '' '') ps"

lemma portmap_rules_lines:
  "list_all (\<lambda>ps. length ps = 6 \<and> list_all (param_ok 32) ps) pss \<Longrightarrow>
     portmap_rules (map (\<lambda>ps. portmap_line ps @ NL) pss) = Ret (concat (map portmap_rule pss))"
proof (induction pss)
  case (Cons ps pss)
  then have "rule_params ''sfirewall nat portmap'' (length ps) 32 (portmap_line ps @ NL) = Ret (Some ps)"
    unfolding portmap_line_def append_assoc by (intro rule_params_line) auto
  with Cons show ?case by simp
qed simp

text \<open>Filter rules are numbered in the order of the lines.\<close>

definition filter_params_ok :: "string list \<Rightarrow> bool" where
  "filter_params_ok ps \<longleftrightarrow> length ps = 13 \<and> list_all (param_ok 64) ps \<and> ps ! 4 \<in> {''permit'', ''deny'', ''reject''}"

lemma filter_rules_enumerate:
  "list_all filter_params_ok pss \<Longrightarrow> filter_rules i k (map (\<lambda>ps. filter_line ps @ NL) pss) =
     Ret (concat (map (\<lambda>(n, ps). filter_rule ps (action_index (ps ! 4) 0) n) (enumerate k pss)))"
proof (induction pss arbitrary: i k)
  case (Cons ps pss)
  then have p: "length ps = 13" "list_all (param_ok 64) ps" "ps ! 4 \<in> {''permit'', ''deny'', ''reject''}"
    by (auto simp: filter_params_ok_def)
  then have "filter_line ps = ''sfirewall filter'' @ '' '' @ join (CHR '' '') ps" by (simp add: filter_line_def)
  moreover have "rule_params ''sfirewall filter'' (length ps) 64 (''sfirewall filter'' @ '' '' @ join (CHR '' '') ps @ NL) = Ret (Some ps)"
    using p by (intro rule_params_line) auto
  moreover have "action_index (ps ! 4) i = action_index (ps ! 4) 0" using p(3) by (auto simp: action_index_def)
  ultimately show ?case using Cons p(1) by (simp add: Let_def)
qed simp


section \<open>Filter rules\<close>

definition port_valid :: "string \<Rightarrow> bool" where
  "port_valid p \<longleftrightarrow> p = ''any'' \<or> digit_first p \<and> 1 \<le> atoi p \<and> atoi p \<le> 65535"

definition cidr_valid :: "string \<Rightarrow> bool" where
  "cidr_valid ip \<longleftrightarrow> digit_first ip \<and> CHR ''/'' \<in> set ip \<and> length (dropWhile (\<lambda>c. c \<noteq> CHR ''/'') ip) \<le> 3"

definition day_valid :: "string \<Rightarrow> bool" where
  "day_valid d \<longleftrightarrow> d = ''any'' \<or> length (strtok_all (CHR ''|'') d) \<le> 7 \<and> list_all (\<lambda>w. length w = 3) (strtok_all (CHR ''|'') d)"

definition time_valid :: "string \<Rightarrow> bool" where
  "time_valid t \<longleftrightarrow> t = ''any'' \<or>
     (\<exists>h m rest. strtok_all (CHR '':'') t = h # m # rest \<and> length h = 2 \<and> length m = 2 \<and>
        0 \<le> atoi h \<and> atoi h \<le> 23 \<and> 0 \<le> atoi m \<and> atoi m \<le> 59)"

definition filter_valid :: "string list \<Rightarrow> bool" where
  "filter_valid argv \<longleftrightarrow> digit_first (argv ! 0) \<and> argv ! 1 \<in> {''lan2wan'', ''wan2lan''} \<and> argv ! 2 \<in> {''in'', ''out'', ''fw''} \<and>
     argv ! 3 \<in> {''insert'', ''append''} \<and> argv ! 4 \<in> {''permit'', ''deny'', ''reject''} \<and>
     cidr_valid (argv ! 6) \<and> port_valid (argv ! 7) \<and> cidr_valid (argv ! 8) \<and> port_valid (argv ! 9) \<and>
     day_valid (argv ! 10) \<and> time_valid (argv ! 11) \<and> time_valid (argv ! 12)"

text \<open>A check that passes goes on, one that fails prints a message and returns an error.\<close>

definition rejects :: "'f handler \<Rightarrow> bool" where
  "rejects h \<longleftrightarrow> (\<forall>s. \<exists>r msg. h s = Ret (r, emit (Write Stdout msg) s) \<and> r \<noteq> CMD_SUCCESS)"

lemma rejects_errors: "rejects (fw_error what arg)" "rejects (not_supported_option arg)"
  using message_only(3,4) by (auto simp: rejects_def)

lemma check_port_cases: "if port_valid p then check_port p ok = ok else rejects (check_port p ok)"
  by (auto simp: port_valid_def check_port_def rejects_errors)

lemma strchr_dropWhile: "strchr s c = (if c \<in> set s then Some (dropWhile (\<lambda>x. x \<noteq> c) s) else None)"
  by (induction s) auto

lemma buf_fits: "length out < n \<Longrightarrow> buf n out k = k out"
  by (rule ext) (simp add: buf_def sprintf_def)

lemma check_cidr_cases:
  "length ip < 256 \<Longrightarrow> if cidr_valid ip then check_cidr ip ok = ok else rejects (check_cidr ip ok)"
  by (auto simp: cidr_valid_def check_cidr_def buf_fits rejects_errors strchr_dropWhile)

lemma check_day_cases:
  "length d < 128 \<Longrightarrow> if day_valid d then check_day d ok = ok else rejects (check_day d ok)"
  by (auto simp: day_valid_def check_day_def buf_fits rejects_errors Let_def list_all_iff list_ex_iff)

lemma check_time_cases:
  "length t < 128 \<Longrightarrow> if time_valid t then check_time t ok = ok else rejects (check_time t ok)"
  by (auto simp: time_valid_def check_time_def buf_fits rejects_errors  split: list.split)

lemma filter_check_cases:
  assumes "length argv = 13" and "list_all (param_ok 64) argv"
  shows "if filter_valid argv then filter_check argv ok = ok else rejects (filter_check argv ok)"
proof -
  obtain num zone dir pos action proto sip sport dip dport day since till where
    a: "argv = [num, zone, dir, pos, action, proto, sip, sport, dip, dport, day, since, till]"
    using assms(1) by (auto simp: length_Suc_conv eval_nat_numeral)
  have len: "length sip < 256" "length dip < 256" "length day < 128" "length since < 128" "length till < 128"
    using assms(2) by (auto simp: a param_ok_def)
  let ?t = "check_time since (check_time till ok)"
  let ?c = "check_cidr sip (check_cidr dip (check_day day ?t))"
  show ?thesis
    using check_port_cases [of sport "check_port dport ?c"] check_port_cases [of dport ?c]
      check_cidr_cases [OF len(1), of "check_cidr dip (check_day day ?t)"] check_cidr_cases [OF len(2), of "check_day day ?t"]
      check_day_cases [OF len(3), of ?t] check_time_cases [OF len(4), of "check_time till ok"] check_time_cases [OF len(5), of ok]
    by (auto simp: a filter_check_def filter_valid_def rejects_errors split: if_splits)
qed

lemma length_join: "list_all (\<lambda>w. length w < n) ws \<Longrightarrow> length (join d ws) \<le> length ws * n"
  by (induction d ws rule: join.induct) auto

lemma filter_line_fits:
  assumes "length argv = 13" and "list_all (param_ok 64) argv"
  shows "length (filter_line argv) < 1024" "CHR ''%'' \<notin> set (filter_line argv)"
proof -
  have "length (join (CHR '' '') argv) \<le> 13 * 64"
    using length_join [of 64 argv "CHR '' ''"] assms by (auto simp: list_all_iff param_ok_def)
  then show "length (filter_line argv) < 1024" using assms(1) by (simp add: filter_line_def)
  have "set (join (CHR '' '') argv) \<subseteq> insert (CHR '' '') (\<Union> (set ` set argv))" by (rule set_join)
  then show "CHR ''%'' \<notin> set (filter_line argv)" using assms by (auto simp: filter_line_def list_all_iff param_ok_def)
qed

definition other_position :: "string \<Rightarrow> string" where
  "other_position pos = (if pos = ''append'' then ''insert'' else ''append'')"

lemma filter_stored:
  assumes "length argv = 13" and "list_all (param_ok 64) argv" and "filter_valid argv"
  shows "sfirewall_filter_rules env argv s = Ret (CMD_SUCCESS, s\<lparr>config_top :=
    lines_add (filter_line argv) (lines_del (filter_line argv)
      (lines_del (filter_line (argv[3 := other_position (argv ! 3)])) (config_top s)))\<rparr>)"
proof -
  have pos: "argv ! 3 = ''insert'' \<or> argv ! 3 = ''append''" using assms(3) by (auto simp: filter_valid_def)
  let ?b = "argv[3 := other_position (argv ! 3)]"
  have pw: "param_ok 64 ''insert''" "param_ok 64 ''append''" by (simp_all add: param_ok_def plain_word_def isspace_def)
  then have b: "length ?b = 13" "list_all (param_ok 64) ?b"
    using assms(1,2) by (auto simp: list_all_iff other_position_def dest!: set_update_subset_insert [THEN subsetD])
  note fits = sprintf_fits [OF filter_line_fits(1) [OF assms(1,2)]] sprintf_fits [OF filter_line_fits(1) [OF b]]
    vformat_plain [OF filter_line_fits(2) [OF assms(1,2)]]
  have "filter_check argv ok = ok" for ok :: "'a handler" using filter_check_cases [OF assms(1,2), of ok] assms(3) by simp
  with pos fits show ?thesis
    unfolding sfirewall_filter_rules_def
    by (auto simp: Let_def other_position_def shell_simps CMD_SUCCESS_def)
qed

section \<open>The password prompt\<close>

fun attempts :: "env \<Rightarrow> string list \<Rightarrow> state \<Rightarrow> state outcome" where
  "attempts env [] s = Ret s"
| "attempts env (p # ps) s = obind (vtysh_execute env (Some p) s) (\<lambda>(_, s). attempts env ps s)"

definition at_password :: "string \<Rightarrow> int \<Rightarrow> state \<Rightarrow> bool" where
  "at_password enc n s \<longleftrightarrow> vnode (vty s) = AUTH_ENABLE_NODE \<and> h_enable_encrypt (host s) = Some enc \<and> enc \<noteq> [] \<and>
     h_trytimes (host s) = n"

lemma wrong_password:
  assumes "at_password enc n s" and "e_crypt env p (take 2 enc) \<noteq> enc"
  shows "n > 1 \<Longrightarrow> vtysh_execute env (Some p) s = Exit 1"
    "n \<le> 1 \<Longrightarrow> \<exists>t. vtysh_execute env (Some p) s = Ret (- 1, t) \<and> at_password enc (n + 1) t"
  using assms
  by (auto simp: at_password_def vtysh_execute_def in_is_valid_password_def set_trytimes_def out_line_def)

lemma right_password:
  assumes "at_password enc n s" and "e_crypt env p (take 2 enc) = enc"
  shows "\<exists>t. vtysh_execute env (Some p) s = Ret (- 1, t) \<and> vnode (vty t) = ENABLE_NODE \<and> h_trytimes (host t) = 0"
  using assms by (auto simp: at_password_def vtysh_execute_def in_is_valid_password_def set_trytimes_def)

lemma attempts_wrong:
  assumes "at_password enc n s" and "list_all (\<lambda>p. e_crypt env p (take 2 enc) \<noteq> enc) ps" and "n + int (length ps) \<le> 2"
  shows "\<exists>t. attempts env (ps @ qs) s = attempts env qs t \<and> at_password enc (n + int (length ps)) t"
  using assms
proof (induction ps arbitrary: n s)
  case (Cons p ps)
  then obtain t where t: "vtysh_execute env (Some p) s = Ret (- 1, t)" "at_password enc (n + 1) t"
    using wrong_password(2) [of enc n s env p] by auto
  from Cons.IH [OF t(2)] Cons.prems(2,3) t(1) show ?case by (auto simp: algebra_simps)
qed auto

section \<open>The listening port\<close>

lemma read_fwrule_name:
  assumes "c # cs = line" "\<not> isspace c" "\<not> isdigit c" "c \<noteq> CHR ''-''" "c \<noteq> CHR ''+''" "c \<noteq> CHR 0x00" "c \<noteq> CHR 0x0A"
  shows "read_fwrule (Some line) = 0"
proof -
  let ?n = "length (takeWhile (\<lambda>c. c \<noteq> CHR 0x0A) line)"
  have "fgets 256 line = Some (take (Suc (min 254 ?n)) line, drop (Suc (min 254 ?n)) line)"
    using assms(1) by (auto simp: fgets_def Let_def)
  moreover obtain xs where "cstr (take (Suc (min 254 ?n)) line) = c # xs"
    using assms(1,6) by (cases line) (auto simp: cstr_def)
  ultimately show ?thesis using atoi_no_number [OF assms(2-5)] by (simp add: read_fwrule_def)
qed

lemma filter_rejected:
  "length argv = 13 \<Longrightarrow> list_all (param_ok 64) argv \<Longrightarrow> \<not> filter_valid argv \<Longrightarrow> rejects (filter_check argv ok)"
  using filter_check_cases [of argv ok] by simp

definition listenport_events :: "string \<Rightarrow> event list" where
  "listenport_events port =
    [System (''wg set wg0 listen-port '' @ port @ '' > /dev/null 2>&1''),
     System (''uci show firewall  | grep \"Allow-WG-Inbound\" | awk -F'' @ quoted ''='' @
                   '' '' @ quoted ''{ print $1 }'' @ '' | sed s\"/.name//g\" > /tmp/.fwrule''),
     Unlink ''/tmp/.fwrule'',
     System ''uci add firewall rule > /dev/null 2>&1'',
     System ''uci set firewall.@rule[-1].src=\"*\" > /dev/null 2>&1'',
     System ''uci set firewall.@rule[-1].target=\"ACCEPT\" > /dev/null 2>&1'',
     System ''uci set firewall.@rule[-1].proto=\"udp\" > /dev/null 2>&1'',
     System (''uci set firewall.@rule[-1].dest_port=\"'' @ port @ ''\" > /dev/null 2>&1''),
     System ''uci set firewall.@rule[-1].name=\"Allow-WG-Inbound\" > /dev/null 2>&1'',
     System ''uci commit firewall > /dev/null 2>&1'',
     System ''/etc/init.d/firewall restart > /dev/null 2>&1'']"

lemma wg_listenport_effect:
  assumes "length port < 900" and "vtype (vty s) = VTY_SHELL"
    and "read_fwrule (e_read env (trace s @ take 2 (listenport_events port)) ''/tmp/.fwrule'') = 0"
  shows "wg_listenport env [port] s = Ret (CMD_SUCCESS, s\<lparr>config_top :=
      lines_add (snprintf 1024 (''wg listenport '' @ string_of_int (atoi port))) (lines_del_byleft ''wg listenport'' (config_top s)),
    trace := trace s @ listenport_events port\<rparr>)"
proof -
  let ?l = "snprintf 1024 (''wg listenport '' @ string_of_int (atoi port))"
  have "\<not> isdigit (CHR ''%'')" by (simp add: isdigit_def)
  then have "CHR ''%'' \<notin> set (string_of_nat k)" for k
    using string_of_nat_digits [of k] unfolding list_all_iff by blast
  then have "CHR ''%'' \<notin> set (string_of_int i)" for i by (simp add: string_of_int_def)
  then have "CHR ''%'' \<notin> set ?l" unfolding snprintf_def by (auto dest!: in_set_takeD)
  then have "vformat ?l [] = Ret ?l" by (rule vformat_plain)
  with assms show ?thesis
    by (simp add: wg_listenport_def shell_simps Let_def emit_def listenport_events_def sprintf_fits del: vformat.simps)
qed

section \<open>Properties\<close>

text \<open>
  C8. What becomes of a peer, for the four forms of \<open>wg peer\<close>, if its line has fewer than 1900
  characters, which fit the buffers, and no percent sign, since it is used as a format: if the key has 44 characters and
  ends in \<open>=\<close>, the allowed addresses start with a digit, the endpoint is short and has no
  slash, and a numeric keepalive is between 1 and 1800, then the line of the peer replaces the first line
  with its key, keys are generated if there are none, and, unless a file is being loaded, \<open>wg set\<close>
  is called with the same options. In every other case one message is printed, an error is returned and
  nothing else changes.
\<close>

theorem wg_peer_decides:
  assumes "CHR ''%'' \<notin> set (setting_line (Peer k opts))" and "length (setting_line (Peer k opts)) < 1900"
  shows "if setting_valid (Peer k opts)
    then call env (setting_fn (Peer k opts)) (setting_args (Peer k opts)) s = Ret (CMD_SUCCESS,
      s\<lparr>config_top := lines_add (setting_line (Peer k opts)) (lines_del_byleft (''wg peer '' @ k) (config_top s)),
        trace := trace s @ (if e_stat env (trace s) PRIVATEKEY_PATH then [] else [System genkey_command]) @
          (if vtype (vty s) = VTY_FILE then [] else
            [System (''wg set wg0 private-key '' @ PRIVATEKEY_PATH @ '' peer '' @ k @ option_text opts @ '' > /dev/null 2>&1'')])\<rparr>)
    else \<exists>r msg. call env (setting_fn (Peer k opts)) (setting_args (Peer k opts)) s = Ret (r, emit (Write Stdout msg) s) \<and>
      r \<noteq> CMD_SUCCESS"
  using peer_accepted [of k opts env s] peer_rejected [of k opts env s] assms by auto

theorem wg_peer_decides_witness:
  "\<forall>s :: state. \<exists>r msg. wg_peer_allowed_ips quiet_env [''short'', ''10.0.0.1/32''] s = Ret (r, emit (Write Stdout msg) s) \<and>
     r \<noteq> CMD_SUCCESS"
proof
  fix s :: state
  show "\<exists>r msg. wg_peer_allowed_ips quiet_env [''short'', ''10.0.0.1/32''] s = Ret (r, emit (Write Stdout msg) s) \<and> r \<noteq> CMD_SUCCESS"
    using wg_peer_decides [of "''short''" "Allowed ''10.0.0.1/32''" quiet_env s]
    by (simp add: setting_line_def public_key_ok_def PUBLICKEY_MAX_LEN_def)
qed

text \<open>
  C10. Port map rules: six words that fit the arrays of the generator, which the handler accepts, are
  stored as one line that occurs once more only if it occurred more than once before; and the generator
  that reads such lines from the rule file writes, for any number of them and in their order, exactly
  the rule made of each line's words.
\<close>

theorem portmap_rules_stored:
  assumes "list_all (\<lambda>ps. length ps = 6 \<and> list_all (param_ok 32) ps) pss"
  shows "portmap_rules (map (\<lambda>ps. portmap_line ps @ NL) pss) = Ret (concat (map portmap_rule pss)) \<and>
    (\<forall>ps \<in> set pss. \<forall>r t. sfirewall_nat_portmap env ps s = Ret (r, t) \<longrightarrow>
       r = CMD_SUCCESS \<and> config_top t = lines_add (portmap_line ps) (lines_del (portmap_line ps) (config_top s)) \<or>
       r \<noteq> CMD_SUCCESS \<and> config_top t = config_top s)"
proof -
  have "r = CMD_SUCCESS \<and> config_top t = lines_add (portmap_line ps) (lines_del (portmap_line ps) (config_top s)) \<or>
       r \<noteq> CMD_SUCCESS \<and> config_top t = config_top s"
    if ps: "ps \<in> set pss" and t: "sfirewall_nat_portmap env ps s = Ret (r, t)" for ps r t
  proof -
    have p: "length ps = 6" "list_all (param_ok 32) ps" using assms ps by (auto simp: list_all_iff)
    then obtain n z a p p1 p2 where a: "ps = [n, z, a, p, p1, p2]" by (auto simp: length_Suc_conv eval_nat_numeral)
    have line: "''sfirewall nat portmap '' @ n @ '' '' @ z @ '' '' @ a @ '' '' @ p @ '' '' @ p1 @ '' '' @ p2 = portmap_line ps"
      by (simp add: portmap_line_def a)
    have "length (portmap_line ps) < 1024"
      using length_join [of 32 ps "CHR '' ''"] p by (auto simp: portmap_line_def list_all_iff param_ok_def)
    moreover have "CHR ''%'' \<notin> set (portmap_line ps)"
      using set_join [of "CHR '' ''" ps] p(2) by (auto simp: portmap_line_def list_all_iff param_ok_def)
    ultimately have f: "buf 1024 (portmap_line ps) k = k (portmap_line ps)" "vformat (portmap_line ps) [] = Ret (portmap_line ps)" for k
      by (simp_all add: buf_fits vformat_plain)
    from t show ?thesis
      unfolding sfirewall_nat_portmap_def portmap_check_def a list.case line [unfolded a] f [unfolded a] 
      by (auto simp: f(2) [unfolded a] fw_error_def shell_simps cmd_codes split: if_splits)
  qed
  then show ?thesis using portmap_rules_lines [OF assms] by blast
qed

theorem portmap_rules_stored_witness:
  "portmap_rules [''sfirewall nat portmap 10 wan 192.168.1.2 tcp 8080 80'' @ NL] =
     Ret (portmap_rule [''10'', ''wan'', ''192.168.1.2'', ''tcp'', ''8080'', ''80''])"
  using portmap_rules_stored [THEN conjunct1, of "[[''10'', ''wan'', ''192.168.1.2'', ''tcp'', ''8080'', ''80'']]"]
  by (simp add: param_ok_def plain_word_def isspace_def portmap_line_def del: portmap_rules.simps)

text \<open>
  C9. Filter rules: of thirteen words that fit the arrays, a rule with a numeric index, known zone,
  direction, position and action, ports that are \<open>any\<close> or from 1 to 65535, addresses that start
  with a digit and have at most two characters after the slash, at most seven days of three characters,
  and times that are \<open>any\<close> or of an hour to 23 and a minute to 59, is stored in the place of the
  same rule with the other position. Every other rule is rejected with one message and changes nothing.
  From the lines of any number of rules that are stored, in their order, the generator makes one rule
  each, numbered from the count it starts with, with the target of its own action.
\<close>

theorem filter_rules_stored:
  assumes "list_all (\<lambda>argv. length argv = 13 \<and> list_all (param_ok 64) argv) rules"
  shows "(\<forall>argv \<in> set rules.
      if filter_valid argv
      then sfirewall_filter_rules env argv s = Ret (CMD_SUCCESS, s\<lparr>config_top := lines_add (filter_line argv)
        (lines_del (filter_line argv) (lines_del (filter_line (argv[3 := other_position (argv ! 3)])) (config_top s)))\<rparr>)
      else \<exists>r msg. sfirewall_filter_rules env argv s = Ret (r, emit (Write Stdout msg) s) \<and> r \<noteq> CMD_SUCCESS) \<and>
    (list_all filter_valid rules \<longrightarrow>
      filter_rules i k (map (\<lambda>argv. filter_line argv @ NL) rules) =
        Ret (concat (map (\<lambda>(n, argv). filter_rule argv (action_index (argv ! 4) 0) n) (enumerate k rules))))"
proof (intro conjI ballI impI)
  fix argv
  assume "argv \<in> set rules"
  then have a: "length argv = 13" "list_all (param_ok 64) argv" using assms by (auto simp: list_all_iff)
  show "if filter_valid argv
      then sfirewall_filter_rules env argv s = Ret (CMD_SUCCESS, s\<lparr>config_top := lines_add (filter_line argv)
        (lines_del (filter_line argv) (lines_del (filter_line (argv[3 := other_position (argv ! 3)])) (config_top s)))\<rparr>)
      else \<exists>r msg. sfirewall_filter_rules env argv s = Ret (r, emit (Write Stdout msg) s) \<and> r \<noteq> CMD_SUCCESS"
  proof (cases "filter_valid argv")
    case True
    with filter_stored [OF a True] show ?thesis by simp
  next
    case False
    then have "rejects (sfirewall_filter_rules env argv)"
      unfolding sfirewall_filter_rules_def by (rule filter_rejected [OF a])
    with False show ?thesis unfolding rejects_def by auto
  qed
next
  assume "list_all filter_valid rules"
  with assms have "list_all filter_params_ok rules"
    by (auto simp: list_all_iff filter_params_ok_def filter_valid_def)
  then show "filter_rules i k (map (\<lambda>argv. filter_line argv @ NL) rules) =
      Ret (concat (map (\<lambda>(n, argv). filter_rule argv (action_index (argv ! 4) 0) n) (enumerate k rules)))"
    by (rule filter_rules_enumerate)
qed

definition sample_rule :: "string \<Rightarrow> string \<Rightarrow> string list" where
  "sample_rule action port = [''10'', ''lan2wan'', ''in'', ''insert'', action, ''tcp'', ''10.0.0.0/8'', port,
       ''0.0.0.0/0'', ''any'', ''any'', ''any'', ''any'']"

theorem filter_rules_stored_witness:
  "filter_rules 0 0 [filter_line (sample_rule ''deny'' ''80'') @ NL, filter_line (sample_rule ''permit'' ''443'') @ NL] =
     Ret (filter_rule (sample_rule ''deny'' ''80'') 1 0 @ filter_rule (sample_rule ''permit'' ''443'') 0 1) \<and>
   (\<forall>s :: state. \<exists>r msg. sfirewall_filter_rules quiet_env (sample_rule ''deny'' ''70000'') s = Ret (r, emit (Write Stdout msg) s) \<and>
     r \<noteq> CMD_SUCCESS)"
proof -
  have ports: "atoi ''70000'' = 70000" "atoi ''80'' = 80" "atoi ''443'' = 443"
    by (simp_all add: atoi_def isspace_def isdigit_def digit_val_def chr_code_def to_int32_def)
  let ?good = "[sample_rule ''deny'' ''80'', sample_rule ''permit'' ''443'']" and ?bad = "[sample_rule ''deny'' ''70000'']"
  have words: "list_all (\<lambda>argv. length argv = 13 \<and> list_all (param_ok 64) argv) ?good"
    "list_all (\<lambda>argv. length argv = 13 \<and> list_all (param_ok 64) argv) ?bad"
    by (simp_all add: sample_rule_def param_ok_def plain_word_def isspace_def)
  have "list_all filter_valid ?good"
    using ports by (simp add: sample_rule_def filter_valid_def port_valid_def cidr_valid_def day_valid_def time_valid_def
      digit_first_def isdigit_def)
  moreover have "\<not> filter_valid (sample_rule ''deny'' ''70000'')"
    using ports by (simp add: sample_rule_def filter_valid_def port_valid_def)
  moreover have "action_index ''deny'' 0 = 1" "action_index ''permit'' 0 = 0" by (simp_all add: action_index_def)
  ultimately have "filter_rules 0 0 [filter_line (sample_rule ''deny'' ''80'') @ NL, filter_line (sample_rule ''permit'' ''443'') @ NL] =
      Ret (filter_rule (sample_rule ''deny'' ''80'') 1 0 @ filter_rule (sample_rule ''permit'' ''443'') 0 1)"
    using filter_rules_stored [OF words(1), THEN conjunct2, of 0 0] by (simp add: sample_rule_def del: filter_rules.simps)
  moreover have "\<exists>r msg. sfirewall_filter_rules quiet_env (sample_rule ''deny'' ''70000'') s = Ret (r, emit (Write Stdout msg) s) \<and>
      r \<noteq> CMD_SUCCESS" for s :: state
    using filter_rules_stored [OF words(2), THEN conjunct1, of quiet_env s] \<open>\<not> filter_valid (sample_rule ''deny'' ''70000'')\<close> by simp
  ultimately show ?thesis by blast
qed

text \<open>
  C16. The old firewall rule is never deleted when the listening port changes: \<open>uci show\<close> names
  the rule as in \<open>firewall.@rule[3]\<close>, \<open>atoi\<close> reads 0 from it, and \<open>uci delete\<close> is
  called for positive numbers only. So each \<open>wg listenport\<close> adds another rule.
\<close>

theorem wg_listenport_keeps_rule:
  assumes "length port < 900" and "vtype (vty s) = VTY_SHELL"
    and "\<And>tr. e_read env tr ''/tmp/.fwrule'' = Some (''firewall.@rule['' @ n @ '']'' @ NL)"
  shows "\<exists>t. wg_listenport env [port] s = Ret (CMD_SUCCESS, t) \<and>
    (\<forall>c. System (''uci delete '' @ c) \<notin> set (drop (length (trace s)) (trace t))) \<and>
    System ''uci add firewall rule > /dev/null 2>&1'' \<in> set (drop (length (trace s)) (trace t))"
proof -
  have "read_fwrule (Some (''firewall.@rule['' @ n @ '']'' @ NL)) = 0"
    by (rule read_fwrule_name [of "CHR ''f''"]) (simp_all add: isspace_def isdigit_def)
  from wg_listenport_effect [OF assms(1,2), of env, unfolded assms(3), OF this] show ?thesis
    by (simp add: listenport_events_def)
qed

theorem wg_listenport_keeps_rule_witness:
  "\<exists>s t. wg_listenport (quiet_env\<lparr>e_read := \<lambda>_ _. Some (''firewall.@rule[3]'' @ NL)\<rparr>) [''51820''] (s :: state) =
     Ret (CMD_SUCCESS, t) \<and> (\<forall>c. System (''uci delete '' @ c) \<notin> set (drop (length (trace s)) (trace t)))"
proof -
  let ?env = "quiet_env\<lparr>e_read := \<lambda>_ _. Some (''firewall.@rule[3]'' @ NL)\<rparr>"
  let ?s = "\<lparr>cmds = [], host = init_host, config_top = [], configvec = vector_init 1, vty = vty_new, trace = []\<rparr> :: state"
  have "length ''51820'' < 900" "vtype (vty ?s) = VTY_SHELL" "e_read ?env tr ''/tmp/.fwrule'' = Some (''firewall.@rule['' @ ''3'' @ '']'' @ NL)" for tr
    by (simp_all add: vty_new_def)
  from wg_listenport_keeps_rule [OF this] show ?thesis by blast
qed

text \<open>
  C15. The password prompt gives three attempts: in the password node with a password set and no failed
  attempt so far, three wrong lines end the process with status 1; and the right password after less
  than three wrong ones leads to the enable node with the count of failed attempts back at 0.
\<close>

theorem password_attempts:
  assumes "at_password enc 0 s" and "list_all (\<lambda>p. e_crypt env p (take 2 enc) \<noteq> enc) wrong"
  shows "(length wrong = 3 \<longrightarrow> attempts env wrong s = Exit 1) \<and>
    (length wrong < 3 \<and> e_crypt env right (take 2 enc) = enc \<longrightarrow>
      (\<exists>t. attempts env (wrong @ [right]) s = Ret t \<and> vnode (vty t) = ENABLE_NODE \<and> h_trytimes (host t) = 0))"
proof (intro conjI impI)
  assume "length wrong = 3"
  then obtain a b c where w: "wrong = [a, b] @ [c]" by (auto simp: length_Suc_conv eval_nat_numeral)
  from attempts_wrong [OF assms(1), of env "[a, b]" "[c]"] assms(2) w obtain t where
    t: "attempts env wrong s = attempts env [c] t" "at_password enc 2 t" by auto
  with wrong_password(1) [OF t(2), of env c] assms(2) w show "attempts env wrong s = Exit 1" by simp
next
  assume r: "length wrong < 3 \<and> e_crypt env right (take 2 enc) = enc"
  from attempts_wrong [OF assms, of "[right]"] r obtain t where
    t: "attempts env (wrong @ [right]) s = attempts env [right] t" "at_password enc (int (length wrong)) t" by auto
  with right_password [OF t(2), of env right] r
  show "\<exists>t. attempts env (wrong @ [right]) s = Ret t \<and> vnode (vty t) = ENABLE_NODE \<and> h_trytimes (host t) = 0" by auto
qed

theorem password_attempts_witness:
  "\<exists>s :: state. attempts quiet_env [''a'', ''b'', ''c''] s = Exit 1 \<and>
     (\<exists>t. attempts quiet_env [''secret''] s = Ret t \<and> vnode (vty t) = ENABLE_NODE)"
proof -
  let ?s = "\<lparr>cmds = [], host = init_host\<lparr>h_enable_encrypt := Some ''secret''\<rparr>, config_top = [], configvec = vector_init 1,
    vty = vty_new\<lparr>vnode := AUTH_ENABLE_NODE\<rparr>, trace = []\<rparr> :: state"
  have at: "at_password ''secret'' 0 ?s" by (simp add: at_password_def init_host_def)
  from password_attempts [OF at, of quiet_env "[''a'', ''b'', ''c'']"] password_attempts [OF at, of quiet_env "[]" "''secret''"]
  show ?thesis by (intro exI [of _ ?s]) (auto simp: quiet_env_def simp del: attempts.simps)
qed

end
