(* ===== verification/Eval_Mode.thy ===== *)
theory Eval_Mode
  imports Handlers
begin

text \<open>
  The shell with the option \<open>-e\<close>, as the web agent starts it: the configuration file is loaded,
  \<open>enable\<close>, the abbreviation \<open>config terminal\<close> and the line are looked up like typed lines
  and executed, and the configuration is written.
\<close>

section \<open>A typed line is executed by its handler\<close>

lemma typed_line:
  assumes "session_inv file s" and "cmd_make_strvec (Some line) = Some ws"
    and "selects (vnode (vty s)) its f tw" and "list_all2 types its ws" and "length its < CMD_ARGC_MAX"
    and "call env f (item_args tw ws) s = Ret (CMD_SUCCESS, t)"
  shows "vtysh_execute env (Some line) s = Ret (CMD_SUCCESS, t)"
proof -
  have tab: "table_holds all_elements (cmds s)" and node: "vnode (vty s) \<in> set user_nodes" "vnode (vty s) \<noteq> AUTH_ENABLE_NODE"
    using assms(1) by (auto simp: session_inv_def user_node_def user_nodes_def)
  from typed_items.lookup_selected [OF tab node(1) assms(3-5)] obtain e where
    "func e = f" "daemon e = 0" "find_command cmd_filter_by_completion (cmds s) ws (vnode (vty s)) = Ret (Inr (e, item_args tw ws))"
    by blast
  with assms(2,6) node(2) show ?thesis
    by (simp add: vtysh_execute_def vtysh_execute_func_def cmd_execute_command_def execute_with_def error_message_def cmd_codes)
qed

lemma selects_config_terminal:
  "selects ENABLE_NODE [Abbr ''configure'' [''disable'', ''exit'', ''list'', ''netstat'', ''ping'', ''show'', ''ssh'', ''tcpdump'', ''write''],
     Kw ''terminal''] (Common F_config_terminal) [[''configure''], [''terminal'']]"
  by code_simp

lemma config_terminal_line:
  assumes "session_inv file s" and "vnode (vty s) = ENABLE_NODE"
  shows "vtysh_execute env (Some ''config terminal'') s = Ret (CMD_SUCCESS, s\<lparr>vty := (vty s)\<lparr>vnode := CONFIG_NODE\<rparr>\<rparr>)"
proof (rule typed_line [OF assms(1) _ selects_config_terminal [folded assms(2)]])
  show "cmd_make_strvec (Some ''config terminal'') = Some [''config'', ''terminal'']" by code_simp
  show "call env (Common F_config_terminal) (item_args [[''configure''], [''terminal'']] [''config'', ''terminal'']) s =
      Ret (CMD_SUCCESS, s\<lparr>vty := (vty s)\<lparr>vnode := CONFIG_NODE\<rparr>\<rparr>)"
    by (simp add: config_terminal_def shell_simps)
qed (simp_all add: abbreviates_def literal_def CMD_VARARG_def CMD_OPTION_def CMD_VARIABLE_def chr_code_def CMD_ARGC_MAX_def)

lemma setting_strvec_end:
  assumes "setting_ok x"
  shows "cmd_make_strvec (Some (setting_line x)) = Some (setting_words x)"
proof (rule strvec_loop_unquoted [of _ _ "[]" "[]"])
  show "join_quoted (setting_line x) = [] @ join (CHR '' '') (setting_words x) @ []"
    using setting_chars(1) [OF assms] by (simp add: join_quoted_plain setting_line_def)
  show "w \<noteq> [] \<and> list_all (\<lambda>c. \<not> isspace c) w" if "w \<in> set (setting_words x)" for w
    using that setting_words_ok(2) [OF assms] by (auto simp: list_all_iff word_ok_def plain_word_def)
qed (use setting_words_ok [OF assms] in auto)

text \<open>
  A setting whose endpoint or keepalive word does not abbreviate the keyword that stands beside it.
\<close>

fun options_typed :: "peer_options \<Rightarrow> bool" where
  "options_typed (Endpoint ips ep) \<longleftrightarrow> ep = ''none'' \<or> \<not> prefix ep ''none''"
| "options_typed (Keepalive ips ep ka) \<longleftrightarrow> (ep = ''none'' \<or> \<not> prefix ep ''none'') \<and> (ka = ''off'' \<or> \<not> prefix ka ''off'')"
| "options_typed _ \<longleftrightarrow> True"

lemma peer_types:
  assumes "options_typed opts"
  shows "list_all2 types (setting_items (Peer k opts)) (setting_words (Peer k opts))"
  using assms by (cases opts) (auto simp: keywords_literal abbreviates_def)

lemma peer_line_stored:
  assumes "session_inv file s" and "vnode (vty s) = CONFIG_NODE" and "setting_ok (Peer k opts)" and "options_typed opts"
  shows "\<exists>es t. vtysh_execute env (Some (setting_line (Peer k opts))) s = Ret (CMD_SUCCESS, t) \<and>
    t = s\<lparr>config_top := lines_add (setting_line (Peer k opts)) (lines_del_byleft (''wg peer '' @ k) (config_top s)),
      trace := trace s @ es\<rparr> \<and>
    es = (if e_stat env (trace s) PRIVATEKEY_PATH then [] else [System genkey_command]) @
      [System (''wg set wg0 private-key '' @ PRIVATEKEY_PATH @ '' peer '' @ k @ option_text opts @ '' > /dev/null 2>&1'')]"
proof -
  let ?x = "Peer k opts"
  have v: "setting_valid ?x" using assms(3) by (simp add: setting_ok_def)
  note f = setting_line_facts [OF assms(3)]
  have len: "length (setting_items ?x) < CMD_ARGC_MAX" by (cases opts) (simp_all add: CMD_ARGC_MAX_def)
  have "vtype (vty s) = VTY_SHELL" using assms(1) by (simp add: session_inv_def)
  with peer_accepted [OF v f(1), of env s] f(2) obtain es t where
    t: "call env (setting_fn ?x) (setting_args ?x) s = Ret (CMD_SUCCESS, t)"
      "t = s\<lparr>config_top := lines_add (setting_line ?x) (lines_del_byleft (''wg peer '' @ k) (config_top s)), trace := trace s @ es\<rparr>"
      "es = (if e_stat env (trace s) PRIVATEKEY_PATH then [] else [System genkey_command]) @
        [System (''wg set wg0 private-key '' @ PRIVATEKEY_PATH @ '' peer '' @ k @ option_text opts @ '' > /dev/null 2>&1'')]"
    by auto
  have "vtysh_execute env (Some (setting_line ?x)) s = Ret (CMD_SUCCESS, t)"
  proof (rule typed_line [OF assms(1)])
    show "cmd_make_strvec (Some (setting_line ?x)) = Some (setting_words ?x)" by (rule setting_strvec_end [OF assms(3)])
    show "selects (vnode (vty s)) (setting_items ?x) (setting_fn ?x) (setting_spec ?x)"
      unfolding assms(2) by (rule setting_selects [OF v])
    show "list_all2 types (setting_items ?x) (setting_words ?x)" by (rule peer_types [OF assms(4)])
    show "call env (setting_fn ?x) (item_args (setting_spec ?x) (setting_words ?x)) s = Ret (CMD_SUCCESS, t)"
      unfolding item_args_setting by (rule t(1))
  qed (rule len)
  with t(2,3) show ?thesis by blast
qed

section \<open>The three lines and the file\<close>

lemma session_inv_node: "session_inv file s \<Longrightarrow> n \<in> {VIEW_NODE, ENABLE_NODE, CONFIG_NODE} \<Longrightarrow>
    session_inv file (s\<lparr>vty := (vty s)\<lparr>vnode := n\<rparr>\<rparr>)"
  by (auto simp: session_inv_def no_password_def user_node_def)

lemma eval_peer:
  assumes "session_inv file s" and "vnode (vty s) = VIEW_NODE" and "setting_ok (Peer k opts)" and "options_typed opts"
    and "\<And>tr. e_open_w env tr file" and "\<And>tr. e_time env tr = Some ts"
  shows "\<exists>t. eval_mode env (setting_line (Peer k opts)) s = Ret (0, t) \<and>
    config_top t = lines_add (setting_line (Peer k opts)) (lines_del_byleft (''wg peer '' @ k) (config_top s)) \<and>
    written file (trace t) = config_dump ts (config_top t) (configvec s) \<and>
    System (''wg set wg0 private-key '' @ PRIVATEKEY_PATH @ '' peer '' @ k @ option_text opts @ '' > /dev/null 2>&1'') \<in> set (trace t)"
proof -
  let ?en = "s\<lparr>vty := (vty s)\<lparr>vnode := ENABLE_NODE\<rparr>\<rparr>" and ?cf = "s\<lparr>vty := (vty s)\<lparr>vnode := CONFIG_NODE\<rparr>\<rparr>"
  have inv: "session_inv file ?en" "session_inv file ?cf" using session_inv_node [OF assms(1)] by simp_all
  have en: "vtysh_execute env (Some ''enable'') s = Ret (CMD_SUCCESS, ?en)" by (rule enable_line [OF assms(1,2)])
  have cf: "vtysh_execute env (Some ''config terminal'') ?en = Ret (CMD_SUCCESS, ?cf)"
    using config_terminal_line [OF inv(1), of env] by simp
  from peer_line_stored [OF inv(2) _ assms(3,4), of env] obtain es t where
    t: "vtysh_execute env (Some (setting_line (Peer k opts))) ?cf = Ret (CMD_SUCCESS, t)"
      "t = ?cf\<lparr>config_top := lines_add (setting_line (Peer k opts)) (lines_del_byleft (''wg peer '' @ k) (config_top s)),
        trace := trace s @ es\<rparr>"
      "System (''wg set wg0 private-key '' @ PRIVATEKEY_PATH @ '' peer '' @ k @ option_text opts @ '' > /dev/null 2>&1'') \<in> set es"
    by auto
  have "h_config (host t) = Some file" using assms(1) t(2) by (simp add: session_inv_def)
  then have "eval_mode env (setting_line (Peer k opts)) s =
      Ret (0, emit (Write (File file) (config_dump ts (config_top t) (configvec t))) (emit (Open_w file) t))"
    using assms(5,6) by (simp add: eval_mode_def en cf t(1) dump_to_def emit_def)
  with t(2,3) show ?thesis by (auto simp: emit_def written_def file_event_def)
qed

lemma start_view:
  assumes "init_state = Ret s0" and "in_show_welcome env s0 = Ret s1"
  shows "vnode (vty s1) = VIEW_NODE" and "Open_w f \<notin> set (trace s1)"
proof -
  obtain v where v: "command_table = Ret v" using command_table_holds by blast
  from assms(1) [unfolded init_state_def v] have "trace s0 = []" by auto
  then show "vnode (vty s1) = VIEW_NODE" "Open_w f \<notin> set (trace s1)"
    using init_state_props [OF assms(1)] assms(2) by (auto simp: in_show_welcome_def out_line_def emit_def outcome_simps Let_def)
qed

text \<open>
  The configuration is loaded from the file, the peer replaces the lines of its key, and the file is
  written anew.
\<close>

lemma main_eval_peer:
  assumes "\<not> boot_flag opts" and "eval_line opts = Some (setting_line (Peer k peer))"
    and "length (fst (e_build env)) + length (snd (e_build env)) < 1000"
    and "stored_settings xs" and "time_ok ts0"
    and "\<And>tr. Open_w (config_file opts) \<notin> set tr \<Longrightarrow>
      e_read env tr (config_file opts) = Some (config_dump ts0 (map setting_line xs) (vector_init 1))"
    and "\<And>tr. e_open_w env tr (config_file opts)" and "\<And>tr. e_time env tr = Some ts"
    and "setting_ok (Peer k peer)" and "options_typed peer"
  shows "\<exists>t. main env opts [] = Ret (Some 0, t) \<and>
    config_top t = lines_add (setting_line (Peer k peer)) (lines_del_byleft (''wg peer '' @ k) (map setting_line xs)) \<and>
    written (config_file opts) (trace t) = config_dump ts (config_top t) (vector_init 1) \<and>
    System (''wg set wg0 private-key '' @ PRIVATEKEY_PATH @ '' peer '' @ k @ option_text peer @ '' > /dev/null 2>&1'') \<in> set (trace t)"
proof -
  let ?f = "config_file opts"
  obtain s0 s1 where s: "init_state = Ret s0" "in_show_welcome env s0 = Ret s1" "config_top s1 = []"
    "table_holds all_elements (cmds s1)" using start_state [OF assms(3)] by blast
  let ?s = "s1\<lparr>host := (host s1)\<lparr>h_config := Some ?f\<rparr>\<rparr>"
  have v0: "vmax (vector_init 1 :: config list vector) = 0" by (simp add: vector_init_def)
  have "e_read env (trace ?s) ?f = Some (config_dump ts0 (map setting_line xs) (vector_init 1))"
    using start_view(2) [OF s(1,2), of ?f] by (intro assms(6)) simp
  then obtain es where
    l: "vtysh_load_config env ?f ?s = Ret (CMD_SUCCESS, ?s\<lparr>config_top := map setting_line xs, trace := trace ?s @ es\<rparr>)"
    using load_dump [OF assms(4,5), of "vector_init 1" env ?s ?f] s(3,4) by (auto simp: vector_init_def)
  let ?t = "?s\<lparr>config_top := map setting_line xs, trace := trace ?s @ es\<rparr>"
  have inv: "session_inv ?f ?t" using reachable_inv [OF reachable.start [OF s(1,2) l]] .
  have "vnode (vty ?t) = VIEW_NODE" using start_view(1) [OF s(1,2)] by simp
  from eval_peer [OF inv this assms(9,10,7,8)] obtain t where t: "eval_mode env (setting_line (Peer k peer)) ?t = Ret (0, t)"
    "config_top t = lines_add (setting_line (Peer k peer)) (lines_del_byleft (''wg peer '' @ k) (map setting_line xs))"
    "written ?f (trace t) = config_dump ts (config_top t) (configvec ?t)"
    "System (''wg set wg0 private-key '' @ PRIVATEKEY_PATH @ '' peer '' @ k @ option_text peer @ '' > /dev/null 2>&1'') \<in> set (trace t)"
    by auto
  have "main env opts [] = Ret (Some 0, t)" using assms(1,2) t(1) by (simp add: main_def s l)
  moreover have "vmax (configvec ?t) = 0" using inv by (simp add: session_inv_def)
  then have "config_dump ts (config_top t) (configvec ?t) = config_dump ts (config_top t) (vector_init 1)"
    using v0 by (simp add: config_dump_def dump_lines_top)
  ultimately show ?thesis using t(2-4) by metis
qed

end
