(* ===== verification/Web_Agent.thy ===== *)
theory Web_Agent
  imports C_Base "HOL-Library.Word"
begin

text \<open>
  The web agent (\<open>src/webagent/cpp\<close>): a TCP server on port 51821 that takes messages of the
  web pages, turns each into a command line of the shell and runs it with \<open>vtysh -e\<close>.

  \<^item> \<open>vtyshell.cpp\<close>: \<open>split\<close>, \<open>getIPNetmask\<close>, \<open>runCommand\<close> and
    \<open>doAction\<close>, which builds the command line of a message.
  \<^item> \<open>client.cpp\<close>, \<open>server.cpp\<close>: the connected clients, the observers that are told of
    their messages, the removal of dead clients, and what is sent back. A turn of the loop of the receive
    thread of a client, a pass of the thread that removes dead clients, and the acceptance of a client
    are the atomic steps; the mutexes of the code make them so.
  \<^item> \<open>main.cpp\<close>: the observer \<open>onIncomingMsg_basedSocket\<close> and the program.

  The sockets are a parameter (\<open>net\<close>). An exception that no function catches ends the process:
  \<open>std::terminate\<close>, the outcome \<open>Exit ABORT\<close>. An access of a \<open>std::vector\<close> or an
  array past its end is \<open>Undef\<close>. Log messages are not modelled.
\<close>

unbundle bit_operations_syntax

section \<open>State\<close>

record client =
  c_sockfd :: int
  c_ip :: string
  c_isConnected :: bool

datatype ClientEvent = DISCONNECTED | INCOMING_MSG

datatype agent_event = Run string | Sent int string | Closed int | Print string

text \<open>
  The two handlers of an observer for messages, by name, and whether it has one for disconnections
  (which only writes to the log).
\<close>

datatype msg_handler = onIncomingMsg_basedIP | onIncomingMsg_basedSocket

record server_observer =
  wantedIP :: string
  incomingPacketHandler :: "msg_handler option"
  incomingSinglePacketHandler :: "msg_handler option"
  disconnectionHandler :: bool

record agent =
  a_sockfd :: int
  a_clients :: "client list"
  a_subscribers :: "server_observer list"
  a_stopRemoveClientsTask :: bool
  a_flagTerminate :: bool
  a_trace :: "agent_event list"

text \<open>The results of the socket calls; they may depend on what was done before.\<close>

record net =
  n_socket :: int
  n_bind :: "int \<Rightarrow> int \<Rightarrow> int"
  n_listen :: "int \<Rightarrow> int \<Rightarrow> int"
  n_accept :: "agent_event list \<Rightarrow> int \<times> string"
  n_send :: "agent_event list \<Rightarrow> int \<Rightarrow> string \<Rightarrow> int"
  n_close :: "agent_event list \<Rightarrow> int \<Rightarrow> int"
  n_daemon :: int
  n_strerror :: string

definition ABORT :: int where
  "ABORT = 134"

definition MAX_PACKET_SIZE :: nat where
  "MAX_PACKET_SIZE = 4096"

definition a_emit :: "agent_event \<Rightarrow> agent \<Rightarrow> agent" where
  "a_emit e a = a\<lparr>a_trace := a_trace a @ [e]\<rparr>"

definition vec_at :: "'a list \<Rightarrow> nat \<Rightarrow> 'a outcome" where
  "vec_at xs i = (if i < length xs then Ret (xs ! i) else Undef)"

section \<open>Splitting a message\<close>

text \<open>\<open>std::string::find\<close>: the position of the first occurrence.\<close>

fun find_sub :: "string \<Rightarrow> string \<Rightarrow> nat option" where
  "find_sub d [] = (if d = [] then Some 0 else None)"
| "find_sub d (c # s) = (if prefix d (c # s) then Some 0 else map_option Suc (find_sub d s))"

text \<open>The loop never ends with an empty delimiter; the callers pass a newline and \<open>:=\<close>.\<close>

function split :: "string \<Rightarrow> string \<Rightarrow> string list outcome" where
  "split s delimiter =
     (if delimiter = [] then Undef
      else case find_sub delimiter s of
        None \<Rightarrow> Ret [s]
      | Some i \<Rightarrow> omap (Cons (take i s)) (split (drop (i + length delimiter) s) delimiter))"
  by pat_completeness auto
termination
proof (relation "measure (\<lambda>(s, d). length s)", goal_cases)
  case (2 s d i)
  have "find_sub d s = Some i \<Longrightarrow> d \<noteq> [] \<Longrightarrow> s \<noteq> []" by (cases s) auto
  with 2 show ?case by (cases s; cases d) auto
qed simp

declare split.simps [simp del]

section \<open>Addresses\<close>

definition is_xdigit :: "char \<Rightarrow> bool" where
  "is_xdigit c \<longleftrightarrow> isdigit c \<or> c \<in> set ''abcdefABCDEF''"

definition xdigit_val :: "char \<Rightarrow> nat" where
  "xdigit_val c = (if isdigit c then digit_val c else if 97 \<le> chr_code c then chr_code c - 87 else chr_code c - 55)"

definition base_val :: "nat \<Rightarrow> string \<Rightarrow> nat" where
  "base_val b ds = min ULONG_MAX (foldl (\<lambda>n c. b * n + xdigit_val c) 0 ds)"

text \<open>
  \<open>strtoul (s, &z, 0)\<close> on a string that starts with a digit: hexadecimal after \<open>0x\<close>, octal
  after \<open>0\<close>, decimal otherwise.
\<close>

definition strtoul0 :: "string \<Rightarrow> nat \<times> string" where
  "strtoul0 s =
     (if length s > 2 \<and> hd s = CHR ''0'' \<and> s ! 1 \<in> set ''xX'' \<and> is_xdigit (s ! 2)
      then (base_val 16 (takeWhile is_xdigit (drop 2 s)), dropWhile is_xdigit (drop 2 s))
      else if hd s = CHR ''0''
      then (base_val 8 (takeWhile (\<lambda>c. c \<in> set ''01234567'') s), dropWhile (\<lambda>c. c \<in> set ''01234567'') s)
      else (base_val 10 (takeWhile isdigit s), dropWhile isdigit s))"

text \<open>The numbers of an address, at most \<open>n\<close>, separated by dots.\<close>

fun addr_parts :: "nat \<Rightarrow> string \<Rightarrow> nat list option" where
  "addr_parts 0 s = None"
| "addr_parts (Suc n) s =
     (if s = [] \<or> \<not> isdigit (hd s) then None
      else let (a, z) = strtoul0 s in
        if z = [] then Some [a]
        else if hd z = CHR ''.'' then map_option (Cons a) (addr_parts n (tl z))
        else None)"

text \<open>\<open>inet_aton\<close> of the C library of the target: the last number fills the bytes that are left.\<close>

definition inet_aton :: "string \<Rightarrow> nat list option" where
  "inet_aton s =
     (case addr_parts 4 s of
        None \<Rightarrow> None
      | Some as \<Rightarrow>
          let v = last as;
              bs = butlast as @ (case length as of
                     Suc 0 \<Rightarrow> [v div 2 ^ 24, v div 2 ^ 16 mod 256, v div 2 ^ 8 mod 256, v mod 256]
                   | Suc (Suc 0) \<Rightarrow> [v div 2 ^ 16, v div 2 ^ 8 mod 256, v mod 256]
                   | Suc (Suc (Suc 0)) \<Rightarrow> [v div 2 ^ 8, v mod 256]
                   | _ \<Rightarrow> [v])
          in if list_all (\<lambda>b. b \<le> 255) bs then Some bs else None)"

text \<open>\<open>inet_ntoa\<close> of the four bytes of an address in memory.\<close>

definition inet_ntoa :: "nat list \<Rightarrow> string" where
  "inet_ntoa bs = join (CHR ''.'') (map string_of_nat bs)"

text \<open>
  The bytes in memory of \<open>ntohl (x)\<close>: the most significant byte first, on little and on big
  endian machines.
\<close>

definition ntohl_bytes :: "32 word \<Rightarrow> nat list" where
  "ntohl_bytes x = map (\<lambda>k. unat (drop_bit k x AND 255)) [24, 16, 8, 0]"

text \<open>A shift by 32 bits or more, for a prefix length of 0 or less, is undefined.\<close>

definition getIPNetmask :: "string \<Rightarrow> (string \<times> string) option outcome" where
  "getIPNetmask netinfo =
     (case strchr netinfo (CHR ''/'') of
        None \<Rightarrow> Ret None
      | Some rest \<Rightarrow>
          let ip = takeWhile (\<lambda>c. c \<noteq> CHR ''/'') netinfo; maskbits = atoi (tl rest) in
          (case inet_aton ip of
             None \<Rightarrow> Ret None
           | Some addr \<Rightarrow>
               if maskbits > 30 then Ret None
               else if maskbits \<le> 0 then Undef
               else
                 obind (sprintf 16 (inet_ntoa addr)) (\<lambda>ipstr.
                 obind (sprintf 16 (inet_ntoa (ntohl_bytes (push_bit (nat (32 - maskbits)) 0xffffffff)))) (\<lambda>netmaskstr.
                   Ret (Some (ipstr, netmaskstr))))))"

section \<open>Actions\<close>

datatype VtyshCmd =
    SET_HOST_NAME | CHANGE_ADMIN_PASSWORD | REBOOT_SYSTEM
  | SET_ETHERNET_INTERFACE | NO_SET_ETHERNET_INTERFACE | ADD_ROUTE_ENTRY | REMOVE_ROUTE_ENTRY
  | SET_WIREGUARD_INTERFACE | NO_SET_WIREGUARD_INTERFACE | SET_WIREGUARD_GLOBAL_CONFIG
  | ADD_WIREGUARD_PEER | REMOVE_WIREGUARD_PEER

text \<open>
  The map; looking a missing name up gives the value 0, which is none of the enumerators (it also adds
  the name with that value, so later look-ups give the same).
\<close>

definition vtysh_cmd :: "(string \<times> VtyshCmd) list" where
  "vtysh_cmd =
     [(''SET_HOST_NAME'', SET_HOST_NAME),
      (''CHANGE_ADMIN_PASSWORD'', CHANGE_ADMIN_PASSWORD),
      (''REBOOT_SYSTEM'', REBOOT_SYSTEM),
      (''SET_ETHERNET_INTERFACE'', SET_ETHERNET_INTERFACE),
      (''NO_SET_ETHERNET_INTERFACE'', NO_SET_ETHERNET_INTERFACE),
      (''ADD_ROUTE_ENTRY'', ADD_ROUTE_ENTRY),
      (''REMOVE_ROUTE_ENTRY'', REMOVE_ROUTE_ENTRY),
      (''SET_WIREGUARD_INTERFACE'', SET_WIREGUARD_INTERFACE),
      (''NO_SET_WIREGUARD_INTERFACE'', NO_SET_WIREGUARD_INTERFACE),
      (''SET_WIREGUARD_GLOBAL_CONFIG'', SET_WIREGUARD_GLOBAL_CONFIG),
      (''ADD_WIREGUARD_PEER'', ADD_WIREGUARD_PEER),
      (''REMOVE_WIREGUARD_PEER'', REMOVE_WIREGUARD_PEER)]"

definition runCommand :: "string \<Rightarrow> agent \<Rightarrow> (bool \<times> agent) outcome" where
  "runCommand b a =
     obind (sprintf 256 (''/usr/bin/qrwg/vtysh -e \"'' @ b @ ''\"'')) (\<lambda>command.
       Ret (True, a_emit (Run command) a))"

text \<open>\<open>std::stoi\<close>: with no number, or one outside \<open>int\<close>, it throws.\<close>

definition stoi :: "string \<Rightarrow> int outcome" where
  "stoi s =
     (let t = dropWhile isspace s;
          neg = (t \<noteq> [] \<and> hd t = CHR ''-'');
          ds = (if t \<noteq> [] \<and> (hd t = CHR ''-'' \<or> hd t = CHR ''+'') then tl t else t);
          v = (if neg then - int (digits_val 0 ds) else int (digits_val 0 ds))
      in if takeWhile isdigit ds = [] then Exit ABORT
         else if v < - (2 ^ 31) \<or> 2 ^ 31 \<le> v then Exit ABORT
         else Ret v)"

text \<open>The loop that fills the array \<open>KeyValue[16]\<close> from the lines after the third.\<close>

fun read_fields :: "nat \<Rightarrow> nat \<Rightarrow> string list \<Rightarrow> string list \<Rightarrow> string list outcome" where
  "read_fields i 0 l kv = Ret kv"
| "read_fields i (Suc n) l kv =
     obind (vec_at l (i + 3)) (\<lambda>line.
     obind (split line '':='') (\<lambda>keyval.
     obind (vec_at keyval 1) (\<lambda>v.
       if i < 16 then read_fields (Suc i) n l (kv[i := v]) else Undef)))"

text \<open>
  The \<open>switch\<close>: the command line in \<open>scmd\<close>, or an early return with the value given. The
  three kinds of result are \<open>Line\<close>, \<open>Done\<close> and an undefined one.
\<close>

datatype action = Line string | Done bool

definition scmd :: "string \<Rightarrow> action outcome" where
  "scmd out = omap Line (sprintf 256 out)"

definition action_of :: "VtyshCmd option \<Rightarrow> string list \<Rightarrow> action outcome" where
  "action_of c kv =
     (case c of
        Some SET_HOST_NAME \<Rightarrow> scmd (''hostname '' @ kv ! 0)
      | Some REBOOT_SYSTEM \<Rightarrow> scmd ''reboot''
      | Some SET_ETHERNET_INTERFACE \<Rightarrow>
          obind (getIPNetmask (kv ! 0)) (\<lambda>r.
            case r of
              Some (ipstr, netmaskstr) \<Rightarrow> scmd (''ip address '' @ kv ! 1 @ '' '' @ ipstr @ '' '' @ netmaskstr)
            | None \<Rightarrow> Ret (Done False))
      | Some NO_SET_ETHERNET_INTERFACE \<Rightarrow> scmd (''no ip address '' @ kv ! 0)
      | Some ADD_ROUTE_ENTRY \<Rightarrow>
          scmd (''ip route '' @ kv ! 1 @ '' '' @ kv ! 2 @ '' '' @ kv ! 3 @ '' '' @ kv ! 0)
      | Some REMOVE_ROUTE_ENTRY \<Rightarrow> scmd (''no ip route '' @ kv ! 1 @ '' '' @ kv ! 2)
      | Some SET_WIREGUARD_INTERFACE \<Rightarrow>
          obind (getIPNetmask (kv ! 0)) (\<lambda>r.
            case r of
              Some (ipstr, netmaskstr) \<Rightarrow> scmd (''ip address wg0 '' @ ipstr @ '' '' @ netmaskstr)
            | None \<Rightarrow> Ret (Done False))
      | Some NO_SET_WIREGUARD_INTERFACE \<Rightarrow> scmd ''no ip address wg0''
      | Some SET_WIREGUARD_GLOBAL_CONFIG \<Rightarrow> Ret (Done True)
      | Some ADD_WIREGUARD_PEER \<Rightarrow>
          scmd (''wg peer '' @ kv ! 0 @ '' allowed-ips '' @ kv ! 1 @ '' endpoint '' @ kv ! 2 @
                '' persistent-keepalive 25'')
      | Some REMOVE_WIREGUARD_PEER \<Rightarrow> scmd (''no wg peer '' @ kv ! 0)
      | _ \<Rightarrow> Ret (Done False))"

definition doAction :: "string \<Rightarrow> agent \<Rightarrow> (bool \<times> agent) outcome" where
  "doAction s a =
     obind (split s NL) (\<lambda>l.
     obind (vec_at l 1) (\<lambda>l1.
     obind (split l1 '':='') (\<lambda>subcmd.
     obind (vec_at l 2) (\<lambda>l2.
     obind (split l2 '':='') (\<lambda>fcount.
     obind (vec_at fcount 1) (\<lambda>f1.
     obind (stoi f1) (\<lambda>count.
     obind (read_fields 0 (nat count) l (replicate 16 [])) (\<lambda>kv.
     obind (vec_at subcmd 1) (\<lambda>name.
     obind (action_of (map_of vtysh_cmd name) kv) (\<lambda>act.
       case act of
         Done r \<Rightarrow> Ret (r, a)
       | Line line \<Rightarrow>
           obind (runCommand line a) (\<lambda>(ok_flag, a).
             if ok_flag then Ret (True, a_emit (Run ''/usr/bin/qrwg/vtysh -e \"write\"'') a)
             else Ret (True, a))))))))))))"

section \<open>Sending\<close>

record pipe_ret =
  successFlag :: bool
  pmsg :: string

definition success :: pipe_ret where
  "success = \<lparr>successFlag = True, pmsg = []\<rparr>"

definition failure :: "string \<Rightarrow> pipe_ret" where
  "failure msg = \<lparr>successFlag = False, pmsg = msg\<rparr>"

text \<open>
  \<open>Client::send\<close>: the message of the exception it throws, if any. The result of \<open>send\<close> is
  converted to \<open>size_t\<close>; so it is never negative.
\<close>

definition client_send :: "net \<Rightarrow> client \<Rightarrow> string \<Rightarrow> agent \<Rightarrow> string option \<times> agent" where
  "client_send nt c msg a =
     (if \<not> c_isConnected c then (None, a)
      else
        let numBytesSent = nat (n_send nt (a_trace a) (c_sockfd c) msg mod 2 ^ 64);
            a = a_emit (Sent (c_sockfd c) msg) a
        in if numBytesSent < length msg
           then (Some (''Only '' @ string_of_nat numBytesSent @ '' bytes out of '' @
                       string_of_nat (length msg) @ '' was sent to client''), a)
           else (None, a))"

definition sendToClient :: "net \<Rightarrow> client \<Rightarrow> string \<Rightarrow> agent \<Rightarrow> pipe_ret \<times> agent" where
  "sendToClient nt c msg a =
     (case client_send nt c msg a of
        (Some error, a) \<Rightarrow> (failure error, a)
      | (None, a) \<Rightarrow> (success, a))"

definition sendToClient_ip :: "net \<Rightarrow> string \<Rightarrow> string \<Rightarrow> agent \<Rightarrow> pipe_ret \<times> agent" where
  "sendToClient_ip nt clientIP msg a =
     (case find (\<lambda>c. c_ip c = clientIP) (a_clients a) of
        None \<Rightarrow> (failure ''client not found'', a)
      | Some c \<Rightarrow> sendToClient nt c msg a)"

fun send_each :: "net \<Rightarrow> client list \<Rightarrow> string \<Rightarrow> agent \<Rightarrow> pipe_ret \<times> agent" where
  "send_each nt [] msg a = (success, a)"
| "send_each nt (c # cs) msg a =
     (let (r, a) = sendToClient nt c msg a in
      if \<not> successFlag r then (r, a) else send_each nt cs msg a)"

definition sendToAllClients :: "net \<Rightarrow> string \<Rightarrow> agent \<Rightarrow> pipe_ret \<times> agent" where
  "sendToAllClients nt msg a = send_each nt (a_clients a) msg a"

definition sendMessage :: "net \<Rightarrow> client \<Rightarrow> string \<Rightarrow> agent \<Rightarrow> bool \<times> agent" where
  "sendMessage nt c res a =
     (let reply = (if res = ''OK'' then ''cmd:=OK'' @ NL else ''cmd:=NOK'' @ NL);
          (r, a) = sendToClient nt c reply a
      in (successFlag r, a))"

definition send_OK :: "net \<Rightarrow> client \<Rightarrow> agent \<Rightarrow> bool \<times> agent" where
  "send_OK nt c a = sendMessage nt c ''OK'' a"

definition send_NOK :: "net \<Rightarrow> client \<Rightarrow> agent \<Rightarrow> bool \<times> agent" where
  "send_NOK nt c a = sendMessage nt c ''NOK'' a"

section \<open>Messages\<close>

text \<open>
  The observer of the program: the message is copied into a zeroed buffer of
  \<open>MAX_PACKET_SIZE\<close> bytes and read back as a C string.
\<close>

definition incoming_basedSocket :: "net \<Rightarrow> client \<Rightarrow> string \<Rightarrow> agent \<Rightarrow> (bool \<times> agent) outcome" where
  "incoming_basedSocket nt c msg a =
     (if length msg \<ge> MAX_PACKET_SIZE then Undef
      else
        let s = cstr msg in
        obind (split s NL) (\<lambda>l.
        obind (vec_at l 0) (\<lambda>l0.
        obind (split l0 '':='') (\<lambda>x.
        obind (vec_at x 1) (\<lambda>cmd.
          if cmd = ''HELLO'' then
            obind (doAction s a) (\<lambda>(ok, a). Ret (if ok then send_OK nt c a else send_NOK nt c a))
          else if cmd = ''BYE'' then Ret (send_OK nt c a)
          else Ret (send_NOK nt c a))))))"

definition call_handler :: "net \<Rightarrow> msg_handler \<Rightarrow> client \<Rightarrow> string \<Rightarrow> agent \<Rightarrow> (bool \<times> agent) outcome" where
  "call_handler nt h c msg a =
     (case h of
        onIncomingMsg_basedIP \<Rightarrow> Ret (True, a)
      | onIncomingMsg_basedSocket \<Rightarrow> incoming_basedSocket nt c msg a)"

text \<open>The loops over the subscribers.\<close>

fun publish :: "(server_observer \<Rightarrow> msg_handler option) \<Rightarrow> net \<Rightarrow> server_observer list \<Rightarrow> client \<Rightarrow> string \<Rightarrow>
    agent \<Rightarrow> agent outcome" where
  "publish sel nt [] c msg a = Ret a"
| "publish sel nt (ob # obs) c msg a =
     obind (if wantedIP ob = c_ip c \<or> wantedIP ob = [] then
              (case sel ob of
                 None \<Rightarrow> Ret a
               | Some h \<Rightarrow> omap snd (call_handler nt h c msg a))
            else Ret a) (publish sel nt obs c msg)"

definition publishClientMsg :: "net \<Rightarrow> client \<Rightarrow> string \<Rightarrow> agent \<Rightarrow> agent outcome" where
  "publishClientMsg nt c msg a = publish incomingPacketHandler nt (a_subscribers a) c msg a"

definition publishSingleClientMsg :: "net \<Rightarrow> client \<Rightarrow> string \<Rightarrow> agent \<Rightarrow> agent outcome" where
  "publishSingleClientMsg nt c msg a = publish incomingSinglePacketHandler nt (a_subscribers a) c msg a"

text \<open>The disconnection handler only writes to the log.\<close>

definition publishClientDisconnected :: "string \<Rightarrow> string \<Rightarrow> agent \<Rightarrow> agent outcome" where
  "publishClientDisconnected ip msg a = Ret a"

definition clientEventHandler :: "net \<Rightarrow> client \<Rightarrow> ClientEvent \<Rightarrow> string \<Rightarrow> agent \<Rightarrow> agent outcome" where
  "clientEventHandler nt c event msg a =
     (case event of
        DISCONNECTED \<Rightarrow> publishClientDisconnected (c_ip c) msg a
      | INCOMING_MSG \<Rightarrow> publishSingleClientMsg nt c msg a)"

section \<open>Clients\<close>

datatype wait_result = FAILURE | TIMEOUT | SUCCESS

text \<open>What \<open>select\<close> returned.\<close>

definition waitFor :: "int \<Rightarrow> wait_result" where
  "waitFor selectRet = (if selectRet = - 1 then FAILURE else if selectRet = 0 then TIMEOUT else SUCCESS)"

definition new_client :: "int \<Rightarrow> client" where
  "new_client fd = \<lparr>c_sockfd = fd, c_ip = [], c_isConnected = False\<rparr>"

definition startListen :: "client \<Rightarrow> client" where
  "startListen c = c\<lparr>c_isConnected := True\<rparr>"

definition set_client :: "nat \<Rightarrow> client \<Rightarrow> agent \<Rightarrow> agent" where
  "set_client i c a = a\<lparr>a_clients := (a_clients a)[i := c]\<rparr>"

text \<open>
  One turn of the loop of \<open>Client::receiveTask\<close> for the client at \<open>i\<close>: the results of
  \<open>select\<close> and \<open>recv\<close>, and the bytes that are then in the buffer \<open>receivedMessage\<close>
  (\<open>recv\<close> does not end them with a NUL, and the buffer is not cleared). The result of
  \<open>recv\<close> is converted to \<open>size_t\<close>, so an error is taken for a message.
\<close>

definition receiveTask :: "net \<Rightarrow> nat \<Rightarrow> int \<Rightarrow> int \<Rightarrow> string \<Rightarrow> agent \<Rightarrow> agent outcome" where
  "receiveTask nt i selectRet recvRet receivedMessage a =
     obind (vec_at (a_clients a) i) (\<lambda>c.
       if \<not> c_isConnected c then Ret a
       else case waitFor selectRet of
         FAILURE \<Rightarrow> Exit ABORT
       | TIMEOUT \<Rightarrow> Ret a
       | SUCCESS \<Rightarrow>
           let numOfBytesReceived = recvRet mod 2 ^ 64 in
           if numOfBytesReceived < 1 then
             let c = c\<lparr>c_isConnected := False\<rparr> in
             clientEventHandler nt c DISCONNECTED ''Client closed connection'' (set_client i c a)
           else if CHR 0x00 \<notin> set receivedMessage then Undef
           else clientEventHandler nt c INCOMING_MSG (cstr receivedMessage) a)"

definition client_print :: "client \<Rightarrow> string" where
  "client_print c =
     ''-----------------'' @ NL @ ''IP address: '' @ c_ip c @ NL @
     ''Connected?: '' @ (if c_isConnected c then ''True'' else ''False'') @ NL @
     ''Socket FD: '' @ string_of_int (c_sockfd c) @ NL"

text \<open>\<open>Client::close\<close>: the receive thread is joined, the socket is closed; \<open>True\<close> if it throws.\<close>

definition client_close :: "net \<Rightarrow> client \<Rightarrow> agent \<Rightarrow> bool \<times> agent" where
  "client_close nt c a = (n_close nt (a_trace a) (c_sockfd c) = - 1, a_emit (Closed (c_sockfd c)) a)"

section \<open>The server\<close>

definition new_server :: agent where
  "new_server = \<lparr>a_sockfd = 0, a_clients = [], a_subscribers = [], a_stopRemoveClientsTask = False,
     a_flagTerminate = False, a_trace = []\<rparr>"

definition subscribe :: "server_observer \<Rightarrow> agent \<Rightarrow> agent" where
  "subscribe ob a = a\<lparr>a_subscribers := a_subscribers a @ [ob]\<rparr>"

definition printClients :: "agent \<Rightarrow> agent" where
  "printClients a =
     a_emit (Print ((if a_clients a = [] then ''no connected clients'' @ NL else []) @
       concat (map client_print (a_clients a)))) a"

text \<open>
  A pass of \<open>removeDeadClients\<close>: while there is a client that is not connected, the first is
  closed and erased. An exception of \<open>close\<close> ends the process. Each turn erases a client, so
  the number of clients bounds the turns.
\<close>

fun remove_dead :: "net \<Rightarrow> nat \<Rightarrow> agent \<Rightarrow> agent outcome" where
  "remove_dead nt n a =
     (case filter (\<lambda>i. \<not> c_isConnected (a_clients a ! i)) [0..<length (a_clients a)] of
        [] \<Rightarrow> Ret a
      | i # _ \<Rightarrow>
          (case n of
             0 \<Rightarrow> Undef
           | Suc n \<Rightarrow>
               let (thrown, a) = client_close nt (a_clients a ! i) a in
               if thrown then Exit ABORT
               else remove_dead nt n
                 (a\<lparr>a_clients := take i (a_clients a) @ drop (Suc i) (a_clients a)\<rparr>)))"

declare remove_dead.simps [simp del]

definition removeDeadClients :: "net \<Rightarrow> agent \<Rightarrow> agent outcome" where
  "removeDeadClients nt a =
     (if a_stopRemoveClientsTask a then Ret a else remove_dead nt (length (a_clients a)) a)"

text \<open>\<open>waitForClient\<close>: the set \<open>_fds\<close> is never filled, so the socket is never in it.\<close>

definition waitForClient :: "net \<Rightarrow> nat \<Rightarrow> int \<Rightarrow> pipe_ret" where
  "waitForClient nt timeout selectRet =
     (if timeout > 0 then
        (case waitFor selectRet of
           FAILURE \<Rightarrow> failure (n_strerror nt)
         | TIMEOUT \<Rightarrow> failure ''Timeout waiting for client''
         | SUCCESS \<Rightarrow> failure ''File descriptor is not set'')
      else success)"

text \<open>\<open>acceptClient\<close>: the address of the new client, or the message of the exception.\<close>

definition acceptClient :: "net \<Rightarrow> nat \<Rightarrow> int \<Rightarrow> agent \<Rightarrow> (string + string) \<times> agent" where
  "acceptClient nt timeout selectRet a =
     (let w = waitForClient nt timeout selectRet in
      if \<not> successFlag w then (Inl (pmsg w), a)
      else
        let (fd, ip) = n_accept nt (a_trace a) in
        if fd = - 1 then (Inl (n_strerror nt), a)
        else
          let c = startListen ((new_client fd)\<lparr>c_ip := ip\<rparr>) in
          (Inr ip, a\<lparr>a_clients := a_clients a @ [c]\<rparr>))"

text \<open>
  \<open>start\<close>: the socket is made, bound and listened on; an exception is turned into a failure.
\<close>

definition start :: "net \<Rightarrow> int \<Rightarrow> int \<Rightarrow> agent \<Rightarrow> pipe_ret \<times> agent" where
  "start nt port maxNumOfClients a =
     (let fd = n_socket nt; a = a\<lparr>a_sockfd := fd\<rparr> in
      if fd = - 1 then (failure (n_strerror nt), a)
      else if n_bind nt fd port = - 1 then (failure (n_strerror nt), a)
      else if n_listen nt fd maxNumOfClients = - 1 then (failure (n_strerror nt), a)
      else (success, a))"

text \<open>Closing the clients one after the other, until one throws; each is marked as not connected.\<close>

fun close_each :: "net \<Rightarrow> client list \<Rightarrow> agent \<Rightarrow> bool \<times> client list \<times> agent" where
  "close_each nt [] a = (False, [], a)"
| "close_each nt (c # cs) a =
     (let (thrown, a) = client_close nt c a; c = c\<lparr>c_isConnected := False\<rparr> in
      if thrown then (True, c # cs, a)
      else let (thrown, cs, a) = close_each nt cs a in (thrown, c # cs, a))"

definition server_close :: "net \<Rightarrow> agent \<Rightarrow> pipe_ret \<times> agent" where
  "server_close nt a =
     (let a = a\<lparr>a_stopRemoveClientsTask := True\<rparr>;
          (thrown, cs, a) = close_each nt (a_clients a) a in
      if thrown then (failure (n_strerror nt), a\<lparr>a_clients := cs\<rparr>)
      else
        let a = a\<lparr>a_clients := []\<rparr>;
            r = n_close nt (a_trace a) (a_sockfd a);
            a = a_emit (Closed (a_sockfd a)) a
        in if r = - 1 then (failure (n_strerror nt), a) else (success, a))"

section \<open>The program\<close>

text \<open>\<open>hashMagic\<close>: the product of 64 bits is cut to the 32 bits of the result
  (\<open>char\<close> is unsigned on the gateway).\<close>

fun hashMagic :: "string \<Rightarrow> 32 word" where
  "hashMagic [] = 8603"
| "hashMagic (c # s) = of_nat (chr_code c) + 0xEDB8832F * hashMagic s"

definition observer :: server_observer where
  "observer = \<lparr>wantedIP = ''127.0.0.1'', incomingPacketHandler = Some onIncomingMsg_basedIP,
     incomingSinglePacketHandler = Some onIncomingMsg_basedSocket, disconnectionHandler = True\<rparr>"

text \<open>\<open>main\<close> up to the loop that accepts clients.\<close>

definition web_main :: "net \<Rightarrow> string list \<Rightarrow> agent outcome" where
  "web_main nt args =
     (case args of
        [arg] \<Rightarrow>
          let h = hashMagic arg in
          if h = hashMagic ''-v'' \<or> h = hashMagic ''--version'' then Exit 0
          else if \<not> (h = hashMagic ''-f'' \<or> h = hashMagic ''--foreground'' \<or>
                      h = hashMagic ''-d'' \<or> h = hashMagic ''--daemon'') then Exit 1
          else if (h = hashMagic ''-d'' \<or> h = hashMagic ''--daemon'') \<and> n_daemon nt \<noteq> 0 then Exit 1
          else
            let (r, a) = start nt 51821 5 new_server in
            if \<not> successFlag r then Exit 1 else Ret (subscribe observer a)
      | _ \<Rightarrow> Exit 1)"

text \<open>The signal handler: the process ends.\<close>

definition sig_handler :: "net \<Rightarrow> agent \<Rightarrow> agent outcome" where
  "sig_handler nt a = (case server_close nt (a\<lparr>a_flagTerminate := True\<rparr>) of (_, a) \<Rightarrow> Exit 0)"

end
