(* ===== verification/Web_Protocol.thy ===== *)
theory Web_Protocol
  imports Web_Agent
begin

text \<open>
  What the web agent does: how a message is taken apart and turned into a command line, what becomes of
  an address with a prefix length, which clients are heard, and how dead clients are removed.
\<close>

section \<open>Splitting\<close>

lemma find_sub_None_iff: "find_sub d s = None \<longleftrightarrow> \<not> sublist d s"
  by (induction s) (auto simp: sublist_Cons_right)

lemma find_sub_Some:
  assumes "find_sub d s = Some i"
  shows "s = take i s @ d @ drop (i + length d) s" "i + length d \<le> length s"
proof -
  have "s = take i s @ d @ drop (i + length d) s \<and> i + length d \<le> length s"
    using assms
  proof (induction s arbitrary: i)
    case Nil
    then show ?case by (auto split: if_splits)
  next
    case (Cons c s)
    show ?case
    proof (cases "prefix d (c # s)")
      case True
      with Cons.prems show ?thesis by (auto simp: prefix_def dest: arg_cong [of _ _ length])
    next
      case False
      with Cons obtain j where "i = Suc j" "find_sub d s = Some j" by auto
      with Cons.IH show ?thesis by auto
    qed
  qed
  then show "s = take i s @ d @ drop (i + length d) s" "i + length d \<le> length s" by auto
qed

text \<open>A piece without the first character of the delimiter, in front of the delimiter.\<close>

lemma find_sub_piece:
  assumes "hd d \<notin> set w" and "d \<noteq> []"
  shows "find_sub d (w @ d @ s) = Some (length w)" "find_sub d w = None"
proof -
  have p: "\<not> prefix d (c # t)" if "c \<noteq> hd d" for c t using that assms(2) by (cases d) auto
  show "find_sub d (w @ d @ s) = Some (length w)" using assms
  proof (induction w)
    case Nil
    then show ?case by (cases d) auto
  next
    case (Cons c w)
    then show ?case using p [of c] by auto
  qed
  show "find_sub d w = None" using assms
  proof (induction w)
    case (Cons c w)
    then show ?case using p [of c] by auto
  qed (simp add: assms)
qed

lemma split_piece:
  assumes "hd d \<notin> set w" and "d \<noteq> []"
  shows "split (w @ d @ s) d = omap (Cons w) (split s d)" "split w d = Ret [w]"
  using find_sub_piece [OF assms] assms(2) by (subst split.simps; simp)+

fun join_by :: "string \<Rightarrow> string list \<Rightarrow> string" where
  "join_by d [] = []"
| "join_by d [w] = w"
| "join_by d (w # v # ws) = w @ d @ join_by d (v # ws)"

lemma split_join_by:
  "d \<noteq> [] \<Longrightarrow> ws \<noteq> [] \<Longrightarrow> list_all (\<lambda>w. hd d \<notin> set w) ws \<Longrightarrow> split (join_by d ws) d = Ret ws"
  by (induction d ws rule: join_by.induct) (simp_all add: split_piece)

lemma find_sub_before: "find_sub d s = Some i \<Longrightarrow> d \<noteq> [] \<Longrightarrow> \<not> sublist d (take i s)"
proof (induction s arbitrary: i)
  case (Cons c s)
  show ?case
  proof (cases "prefix d (c # s)")
    case True
    with Cons.prems show ?thesis by auto
  next
    case False
    with Cons.prems obtain j where j: "i = Suc j" "find_sub d s = Some j" by auto
    moreover have "\<not> prefix d (c # take j s)"
      using False by (metis append_prefixD append_take_drop_id append_Cons prefix_order.trans prefixI)
    ultimately show ?thesis using Cons by (simp add: sublist_Cons_right)
  qed
qed simp

lemma split_spec:
  assumes "split s d = Ret ws"
  shows "join_by d ws = s \<and> ws \<noteq> [] \<and> list_all (\<lambda>w. \<not> sublist d w) ws"
  using assms
proof (induction s d arbitrary: ws rule: split.induct)
  case (1 s d)
  show ?case
  proof (cases "find_sub d s")
    case None
    then have "\<not> sublist d s" by (simp only: find_sub_None_iff not_False_eq_True)
    moreover have "ws = [s]" using "1.prems" None split.simps [of s d] by (auto split: if_splits)
    ultimately show ?thesis by simp
  next
    case (Some i)
    have d: "d \<noteq> []" using "1.prems" split.simps [of s d] by auto
    with "1.prems" Some split.simps [of s d] obtain vs where vs: "split (drop (i + length d) s) d = Ret vs" "ws = take i s # vs"
      by (auto simp: outcome_simps)
    have "join_by d (take i s # vs) = take i s @ d @ join_by d vs" using "1.IH" [OF d Some vs(1)] by (cases vs) auto
    with "1.IH" [OF d Some vs(1)] find_sub_Some(1) [OF Some] find_sub_before [OF Some d] vs(2) show ?thesis by auto
  qed
qed

lemma split_defined: "d \<noteq> [] \<Longrightarrow> \<exists>ws. split s d = Ret ws"
proof (induction s d rule: split.induct)
  case (1 s d)
  show ?case
  proof (cases "find_sub d s")
    case None
    with 1 split.simps [of s d] show ?thesis by auto
  next
    case (Some i)
    from "1.IH" [OF "1.prems" Some "1.prems"] obtain ws where "split (drop (i + length d) s) d = Ret ws" by blast
    with Some "1.prems" split.simps [of s d] show ?thesis by auto
  qed
qed

section \<open>Messages\<close>

text \<open>A message of the web pages: the command, the subcommand, the number of fs and the fs.\<close>

definition message :: "string \<Rightarrow> (string \<times> string) list \<Rightarrow> string" where
  "message name fs =
     join_by NL ([''cmd:=HELLO'', ''subcmd:='' @ name, ''field_count:='' @ string_of_nat (length fs)] @
       map (\<lambda>(k, v). k @ '':='' @ v) fs @ [[]])"

definition field_ok :: "string \<Rightarrow> bool" where
  "field_ok w \<longleftrightarrow> CHR 0x0A \<notin> set w \<and> CHR '':'' \<notin> set w"

text \<open>The value may contain a colon; what follows a second \<open>:=\<close> is lost.\<close>

definition value_ok :: "string \<Rightarrow> bool" where
  "value_ok w \<longleftrightarrow> CHR 0x0A \<notin> set w \<and> \<not> sublist '':='' w"

lemma split_assign:
  assumes "CHR '':'' \<notin> set k" and "\<not> sublist '':='' v"
  shows "split (k @ '':='' @ v) '':='' = Ret [k, v]"
proof -
  have "find_sub '':='' v = None" using assms(2) by (simp only: find_sub_None_iff not_False_eq_True)
  then have "split v '':='' = Ret [v]" by (subst split.simps) simp
  with split_piece(1) [of "'':=''" k v] assms(1) show ?thesis by simp
qed

lemma read_fields_lines:
  assumes "list_all (\<lambda>(k, v). field_ok k \<and> value_ok v) fs" and "drop (i + 3) l = map (\<lambda>(k, v). k @ '':='' @ v) fs @ rest"
    and "i + length fs \<le> 16" and "length kv = 16"
  shows "read_fields i (length fs) l kv = Ret (take i kv @ map snd fs @ drop (i + length fs) kv)"
  using assms
proof (induction fs arbitrary: i kv)
  case Nil
  then show ?case by simp
next
  case (Cons f fs)
  obtain k v where f: "f = (k, v)" by fastforce
  have "l ! (i + 3) = k @ '':='' @ v" "i + 3 < length l" "drop (Suc i + 3) l = map (\<lambda>(k, v). k @ '':='' @ v) fs @ rest"
  proof -
    have d: "drop (i + 3) l = (k @ '':='' @ v) # map (\<lambda>(k, v). k @ '':='' @ v) fs @ rest" using Cons.prems(2) f by simp
    then show len: "i + 3 < length l" by (metis drop_all linorder_not_less list.distinct(1))
    from d len show "l ! (i + 3) = k @ '':='' @ v" by (metis Cons_nth_drop_Suc list.inject)
    from d len show "drop (Suc i + 3) l = map (\<lambda>(k, v). k @ '':='' @ v) fs @ rest"
      by (metis Cons_nth_drop_Suc add_Suc list.inject)
  qed
  moreover have "split (k @ '':='' @ v) '':='' = Ret [k, v]"
    using Cons.prems(1) f by (intro split_assign) (auto simp: field_ok_def value_ok_def)
  ultimately have "read_fields i (length (f # fs)) l kv = read_fields (Suc i) (length fs) l (kv[i := v])"
    using Cons.prems(3) by (simp add: vec_at_def)
  also have "\<dots> = Ret (take (Suc i) (kv[i := v]) @ map snd fs @ drop (Suc i + length fs) (kv[i := v]))"
    using Cons.prems \<open>drop (Suc i + 3) l = _\<close> by (intro Cons.IH) auto
  finally show ?case using f Cons.prems(3,4) by (simp add: take_Suc_conv_app_nth)
qed

lemma stoi_string_of_nat: "n < 2 ^ 31 \<Longrightarrow> stoi (string_of_nat n) = Ret (int n)"
proof -
  assume "n < 2 ^ 31"
  obtain c cs where c: "string_of_nat n = c # cs" "isdigit c" using string_of_nat_digits [of n] by (cases "string_of_nat n") auto
  then have "\<not> isspace c" "c \<noteq> CHR ''-''" "c \<noteq> CHR ''+''" by (auto simp: isdigit_def isspace_def)
  moreover have "digits_val 0 (c # cs) = n" using digits_val_string_of_nat [of n] c(1) by simp
  ultimately show ?thesis using c \<open>n < 2 ^ 31\<close> by (simp add: stoi_def Let_def del: digits_val.simps)
qed

text \<open>What a command line or an early return leads to.\<close>

definition perform :: "action \<Rightarrow> agent \<Rightarrow> (bool \<times> agent) outcome" where
  "perform act a =
     (case act of
        Done r \<Rightarrow> Ret (r, a)
      | Line line \<Rightarrow> omap (\<lambda>(_, a). (True, a_emit (Run ''/usr/bin/qrwg/vtysh -e \"write\"'') a)) (runCommand line a))"

definition field_values :: "(string \<times> string) list \<Rightarrow> string list" where
  "field_values fs = map snd fs @ replicate (16 - length fs) []"

definition fields_ok :: "(string \<times> string) list \<Rightarrow> bool" where
  "fields_ok fs \<longleftrightarrow> length fs \<le> 16 \<and> list_all (\<lambda>(k, v). field_ok k \<and> value_ok v) fs"

lemma digits_plain: "list_all isdigit s \<Longrightarrow> field_ok s"
proof -
  assume "list_all isdigit s"
  moreover have "\<not> isdigit (CHR 0x0A)" "\<not> isdigit (CHR '':'')" by (simp_all add: isdigit_def)
  ultimately show ?thesis unfolding field_ok_def list_all_iff by blast
qed

lemma split_message:
  assumes "value_ok name" and "fields_ok fs"
  shows "split (message name fs) NL = Ret ([''cmd:=HELLO'', ''subcmd:='' @ name, ''field_count:='' @ string_of_nat (length fs)] @
       map (\<lambda>(k, v). k @ '':='' @ v) fs @ [[]])"
proof -
  have "CHR 0x0A \<notin> set (string_of_nat (length fs))"
    using digits_plain string_of_nat_digits [of "length fs"] by (auto simp: field_ok_def)
  then show ?thesis unfolding message_def
    using assms by (intro split_join_by) (auto simp: NL_def value_ok_def fields_ok_def field_ok_def list_all_iff)
qed

lemma doAction_decodes:
  assumes "value_ok name" and "fields_ok fs"
  shows "doAction (message name fs) a = obind (action_of (map_of vtysh_cmd name) (field_values fs)) (\<lambda>act. perform act a)"
proof -
  let ?l = "[''cmd:=HELLO'', ''subcmd:='' @ name, ''field_count:='' @ string_of_nat (length fs)] @
       map (\<lambda>(k, v). k @ '':='' @ v) fs @ [[]]"
  have f: "length fs \<le> 16" "list_all (\<lambda>(k, v). field_ok k \<and> value_ok v) fs"
    using assms(2) by (auto simp: fields_ok_def)
  have 1: "split (''subcmd:='' @ name) '':='' = Ret [''subcmd'', name]"
    using split_assign [of "''subcmd''" name] assms(1) by (simp add: value_ok_def)
  have "CHR '':'' \<notin> set (string_of_nat (length fs))"
    using digits_plain string_of_nat_digits [of "length fs"] by (auto simp: field_ok_def)
  then have "\<not> sublist '':='' (string_of_nat (length fs))" by (auto simp: sublist_def)
  then have 2: "split (''field_count:='' @ string_of_nat (length fs)) '':='' = Ret [''field_count'', string_of_nat (length fs)]"
    using split_assign [of "''field_count''" "string_of_nat (length fs)"] by simp
  have 3: "stoi (string_of_nat (length fs)) = Ret (int (length fs))"
    using f(1) by (intro stoi_string_of_nat) simp
  have 4: "read_fields 0 (length fs) ?l (replicate 16 []) = Ret (field_values fs)"
    using read_fields_lines [OF f(2), of 0 ?l "[[]]" "replicate 16 []"] f(1) by (simp add: field_values_def)
  have run: "(case act of Done r \<Rightarrow> Ret (r, a) | Line line \<Rightarrow> obind (runCommand line a) (\<lambda>(ok_flag, a).
      if ok_flag then Ret (True, a_emit (Run ''/usr/bin/qrwg/vtysh -e \"write\"'') a) else Ret (True, a))) = perform act a" for act
    by (auto simp: perform_def runCommand_def sprintf_def split: action.split)
  have at: "vec_at ?l 1 = Ret (''subcmd:='' @ name)" "vec_at ?l 2 = Ret (''field_count:='' @ string_of_nat (length fs))"
    "vec_at [x, y] 1 = Ret y" for x y :: string by (simp_all add: vec_at_def)
  show ?thesis
    unfolding doAction_def split_message [OF assms] obind.simps at 1 2 3 nat_int 4 run ..
qed

section \<open>Addresses in dotted form\<close>

lemma foldl_digits: "list_all isdigit ds \<Longrightarrow> foldl (\<lambda>n c. 10 * n + xdigit_val c) n ds = digits_val n ds"
  by (induction ds arbitrary: n) (auto simp: xdigit_val_def)

lemma hd_string_of_nat: "0 < n \<Longrightarrow> hd (string_of_nat n) \<noteq> CHR ''0''"
proof (induction n rule: string_of_nat.induct)
  case (1 n)
  show ?case
  proof (cases "n < 10")
    case True
    have "digit_val (CHR ''0'') = 0" by (simp add: digit_val_def chr_code_def)
    moreover have "digit_val (char_of (48 + n)) = n" using digit_char [OF True] by blast
    ultimately have "digit_val (char_of (48 + n)) \<noteq> digit_val (CHR ''0'')" using "1.prems" by linarith
    then have "char_of (48 + n) \<noteq> CHR ''0''" by (rule contrapos_nn) (rule arg_cong)
    then show ?thesis using True by (subst string_of_nat.simps) (simp del: char_of_eq_iff)
  next
    case False
    then have "0 < n div 10" by (simp add: div_greater_zero_iff)
    with False 1 string_of_nat_digits [of "n div 10"] show ?thesis by (subst string_of_nat.simps) simp
  qed
qed

definition ends_number :: "string \<Rightarrow> bool" where
  "ends_number z \<longleftrightarrow> z = [] \<or> hd z = CHR ''.''"

lemma strtoul0_string_of_nat:
  assumes "n \<le> 255" and "ends_number z"
  shows "strtoul0 (string_of_nat n @ z) = (n, z)"
proof -
  let ?s = "string_of_nat n"
  have ds: "list_all isdigit ?s" "?s \<noteq> []" using string_of_nat_digits by auto
  have z: "takeWhile P z = [] \<and> dropWhile P z = z" if "\<not> P (CHR ''.'')" for P
    using assms(2) that by (cases z) (auto simp: ends_number_def)
  show ?thesis
  proof (cases "n = 0")
    case True
    moreover have "string_of_nat 0 = ''0''" by code_simp
    ultimately have "?s = ''0''" by simp
    with z [of "\<lambda>c. c \<in> set ''01234567''"] assms(2) True show ?thesis
      by (cases z) (auto simp: strtoul0_def base_val_def xdigit_val_def digit_val_def isdigit_def chr_code_def ends_number_def)
  next
    case False
    then have hd: "hd (?s @ z) \<noteq> CHR ''0''" using hd_string_of_nat ds(2) by simp
    have "takeWhile isdigit (?s @ z) = ?s" "dropWhile isdigit (?s @ z) = z"
      using ds(1) z [of isdigit] by (auto simp: list_all_iff takeWhile_append dropWhile_append isdigit_def)
    moreover have "base_val 10 ?s = n"
      using foldl_digits [OF ds(1), of 0] assms(1) by (simp add: base_val_def ULONG_MAX_def)
    ultimately show ?thesis using hd by (simp add: strtoul0_def)
  qed
qed

lemma addr_parts_step:
  assumes "n \<le> 255"
  shows "addr_parts (Suc k) (string_of_nat n) = Some [n]"
    "addr_parts (Suc k) (string_of_nat n @ CHR ''.'' # s) = map_option (Cons n) (addr_parts k s)"
proof -
  have d: "string_of_nat n \<noteq> []" "isdigit (hd (string_of_nat n))"
    using string_of_nat_digits [of n] by (cases "string_of_nat n"; simp)+
  show "addr_parts (Suc k) (string_of_nat n) = Some [n]"
    using strtoul0_string_of_nat [OF assms, of "[]"] d by (simp add: ends_number_def)
  show "addr_parts (Suc k) (string_of_nat n @ CHR ''.'' # s) = map_option (Cons n) (addr_parts k s)"
    using strtoul0_string_of_nat [OF assms, of "CHR ''.'' # s"] d by (simp add: ends_number_def)
qed

lemma inet_aton_dotted:
  assumes "list_all (\<lambda>b. b \<le> 255) [a, b, c, d]"
  shows "inet_aton (inet_ntoa [a, b, c, d]) = Some [a, b, c, d]"
proof -
  have "(4 :: nat) = Suc (Suc (Suc (Suc 0)))" by simp
  then have "addr_parts 4 (inet_ntoa [a, b, c, d]) = Some [a, b, c, d]"
    using assms by (simp only:) (simp add: inet_ntoa_def addr_parts_step del: addr_parts.simps)
  then show ?thesis using assms by (simp add: inet_aton_def)
qed

lemma inet_ntoa_length:
  assumes "list_all (\<lambda>b. b \<le> 255) [a, b, c, d]"
  shows "length (inet_ntoa [a, b, c, d]) < 16"
proof -
  have "length (string_of_nat n) \<le> 3" if "n \<le> 255" for n using length_string_of_nat [of n 3] that by simp
  from this [of a] this [of b] this [of c] this [of d] assms show ?thesis by (simp add: inet_ntoa_def)
qed

text \<open>The bytes of a network mask spell the number with \<open>m\<close> leading ones.\<close>

definition bytes_val :: "nat list \<Rightarrow> int" where
  "bytes_val bs = foldl (\<lambda>n b. 256 * n + int b) 0 bs"

definition netmask_bytes :: "int \<Rightarrow> nat list" where
  "netmask_bytes m = ntohl_bytes (push_bit (nat (32 - m)) 0xffffffff)"

lemma netmask_bytes_all:
  "list_all (\<lambda>m. list_all (\<lambda>b. b \<le> 255) (netmask_bytes m) \<and> length (netmask_bytes m) = 4 \<and>
     bytes_val (netmask_bytes m) = 2 ^ 32 - 2 ^ nat (32 - m)) [1..30]"
  by code_simp

lemma inet_ntoa_no_slash: "CHR ''/'' \<notin> set (inet_ntoa bs)"
proof -
  have "set (join (CHR ''.'') ws) \<subseteq> insert (CHR ''.'') (\<Union> (set ` set ws))" for ws
    by (induction "CHR ''.''" ws rule: join.induct) auto
  moreover have "CHR ''/'' \<notin> set (string_of_nat n)" for n
  proof -
    have "\<not> isdigit (CHR ''/'')" by (simp add: isdigit_def)
    then show ?thesis using string_of_nat_digits [of n] unfolding list_all_iff by blast
  qed
  ultimately show ?thesis unfolding inet_ntoa_def by fastforce
qed

lemma getIPNetmask_dotted:
  assumes "list_all (\<lambda>b. b \<le> 255) [a, b, c, d]" and "1 \<le> m" and "m \<le> 30"
  shows "getIPNetmask (inet_ntoa [a, b, c, d] @ ''/'' @ string_of_nat m) =
    Ret (Some (inet_ntoa [a, b, c, d], inet_ntoa (netmask_bytes (int m))))"
proof -
  let ?ip = "inet_ntoa [a, b, c, d]"
  have "strchr (u @ CHR ''/'' # v) (CHR ''/'') = Some (CHR ''/'' # v)" if "CHR ''/'' \<notin> set u" for u v
    using that by (induction u) auto
  then have s: "strchr (?ip @ ''/'' @ string_of_nat m) (CHR ''/'') = Some (CHR ''/'' # string_of_nat m)"
    using inet_ntoa_no_slash by simp
  have ip: "takeWhile (\<lambda>c. c \<noteq> CHR ''/'') (?ip @ ''/'' @ string_of_nat m) = ?ip"
    using inet_ntoa_no_slash [of "[a, b, c, d]"] by (subst takeWhile_append2) auto
  have "length (string_of_nat m) \<le> 9" using length_string_of_nat [of m 9] assms(3) by simp
  then have m: "atoi (string_of_nat m) = int m" using string_of_nat_digits [of m] by (subst atoi_digits) auto
  have "int m \<in> set [1..30]" using assms(2,3) by simp
  with netmask_bytes_all have nb: "list_all (\<lambda>b. b \<le> 255) (netmask_bytes (int m))" "length (netmask_bytes (int m)) = 4"
    unfolding list_all_iff by blast+
  then obtain x y z w where x: "netmask_bytes (int m) = [x, y, z, w]" by (auto simp: length_Suc_conv eval_nat_numeral)
  have "length (inet_ntoa (netmask_bytes (int m))) < 16" using nb(1) inet_ntoa_length [of x y z w] unfolding x by simp
  then show ?thesis
    unfolding getIPNetmask_def s using ip m inet_aton_dotted [OF assms(1)] inet_ntoa_length [OF assms(1)] assms(2,3)
    by (simp add: sprintf_def netmask_bytes_def)
qed

section \<open>Removing dead clients\<close>

lemma first_dead:
  assumes "filter (\<lambda>i. \<not> P (cs ! i)) [0..<length cs] = i # is"
  shows "i < length cs" "\<not> P (cs ! i)" "filter P (take i cs) = take i cs" "filter (\<lambda>c. \<not> P c) (take i cs) = []"
proof -
  have i: "i \<in> set (filter (\<lambda>i. \<not> P (cs ! i)) [0..<length cs])" using assms by simp
  then show "i < length cs" "\<not> P (cs ! i)" by auto
  have "P (cs ! j)" if "j < i" for j
  proof (rule ccontr)
    assume "\<not> P (cs ! j)"
    with that \<open>i < length cs\<close> have "j \<in> set (i # is)" unfolding assms [symmetric] by auto
    moreover have "sorted (i # is)" unfolding assms [symmetric] by (intro sorted_wrt_filter) simp
    ultimately show False using that by auto
  qed
  then have all: "\<forall>c \<in> set (take i cs). P c" by (auto simp: in_set_conv_nth)
  then show "filter P (take i cs) = take i cs" "filter (\<lambda>c. \<not> P c) (take i cs) = []"
    by (auto simp: filter_empty_conv filter_id_conv)
qed

definition swept :: "agent \<Rightarrow> agent" where
  "swept a = a\<lparr>a_clients := filter c_isConnected (a_clients a),
     a_trace := a_trace a @ map (\<lambda>c. Closed (c_sockfd c)) (filter (\<lambda>c. \<not> c_isConnected c) (a_clients a))\<rparr>"

lemma remove_dead_swept:
  assumes "\<And>tr fd. n_close nt tr fd \<noteq> - 1" and "length (filter (\<lambda>c. \<not> c_isConnected c) (a_clients a)) \<le> n"
  shows "remove_dead nt n a = Ret (swept a)"
  using assms(2)
proof (induction n arbitrary: a)
  case 0
  then have all: "\<forall>c \<in> set (a_clients a). c_isConnected c" by (simp add: filter_empty_conv)
  then have "filter (\<lambda>i. \<not> c_isConnected (a_clients a ! i)) [0..<length (a_clients a)] = []"
    by (auto simp: filter_empty_conv)
  moreover have "swept a = a" using all by (simp add: swept_def filter_id_conv [THEN iffD2])
  ultimately show ?case by (subst remove_dead.simps) simp
next
  case (Suc n)
  let ?cs = "a_clients a"
  show ?case
  proof (cases "filter (\<lambda>i. \<not> c_isConnected (?cs ! i)) [0..<length ?cs]")
    case Nil
    then have "\<forall>c \<in> set ?cs. c_isConnected c" by (auto simp: filter_empty_conv in_set_conv_nth)
    then have "swept a = a" by (simp add: swept_def filter_id_conv [THEN iffD2])
    with Nil show ?thesis by (subst remove_dead.simps) simp
  next
    case (Cons i "is")
    note f = first_dead [OF Cons]
    let ?a = "(a_emit (Closed (c_sockfd (?cs ! i))) a)\<lparr>a_clients := take i ?cs @ drop (Suc i) ?cs\<rparr>"
    have split: "?cs = take i ?cs @ ?cs ! i # drop (Suc i) ?cs" using f(1) by (simp add: id_take_nth_drop)
    have dead: "filter (\<lambda>c. \<not> c_isConnected c) ?cs = ?cs ! i # filter (\<lambda>c. \<not> c_isConnected c) (drop (Suc i) ?cs)"
      by (subst split) (simp add: f)
    have live: "filter c_isConnected ?cs = filter c_isConnected (take i ?cs @ drop (Suc i) ?cs)"
      by (subst split) (simp add: f(2))
    have "remove_dead nt (Suc n) a = remove_dead nt n ?a"
      using Cons assms(1) by (subst remove_dead.simps) (simp add: client_close_def a_emit_def)
    also have "\<dots> = Ret (swept ?a)" using Suc.prems dead f(4) by (intro Suc.IH) simp
    also have "swept ?a = swept a" using dead live f(4) by (simp add: swept_def a_emit_def)
    finally show ?thesis .
  qed
qed

section \<open>Reachable states of the agent\<close>

text \<open>
  The steps of the threads: the main thread accepts a client, the thread of a client makes a turn (the
  step carries the place of the client), the thread that removes dead clients makes a pass.
\<close>

inductive agent_step :: "net \<Rightarrow> nat option \<Rightarrow> agent \<Rightarrow> agent \<Rightarrow> bool" for nt where
  accept: "acceptClient nt 0 selectRet a = (r, b) \<Longrightarrow> agent_step nt None a b"
| receive: "receiveTask nt i selectRet recvRet m a = Ret b \<Longrightarrow> agent_step nt (Some i) a b"
| sweep: "removeDeadClients nt a = Ret b \<Longrightarrow> agent_step nt None a b"

inductive agent_reachable :: "net \<Rightarrow> agent \<Rightarrow> bool" for nt where
  boot: "web_main nt args = Ret a \<Longrightarrow> agent_reachable nt a"
| step: "agent_reachable nt a \<Longrightarrow> agent_step nt who a b \<Longrightarrow> agent_reachable nt b"

definition vtysh_call :: "string \<Rightarrow> string" where
  "vtysh_call line = ''/usr/bin/qrwg/vtysh -e \"'' @ line @ ''\"''"

text \<open>
  What the agent does for one message of the client with the socket \<open>fd\<close>: nothing (there was no
  message), an answer to this client, or a command line of one of the forms of \<open>action_of\<close>, with
  the values of the message put in as they are, then \<open>write\<close>, and the answer \<open>OK\<close>.
\<close>

inductive exchange :: "int \<Rightarrow> agent_event list \<Rightarrow> bool" for fd where
  quiet: "exchange fd []"
| answer: "res \<in> {''OK'', ''NOK''} \<Longrightarrow> exchange fd [Sent fd (''cmd:='' @ res @ NL)]"
| obey: "action_of c kv = Ret (Line line) \<Longrightarrow> length (vtysh_call line) < 256 \<Longrightarrow>
    exchange fd [Run (vtysh_call line), Run (vtysh_call ''write''), Sent fd (''cmd:=OK'' @ NL)]"

lemma perform_events:
  assumes "perform act a = Ret (r, b)"
  shows "r = True \<and> (\<exists>line. act = Line line \<and> length (vtysh_call line) < 256 \<and>
      b = a\<lparr>a_trace := a_trace a @ [Run (vtysh_call line), Run (vtysh_call ''write'')]\<rparr>) \<or> act = Done r \<and> b = a"
  using assms
  by (cases act) (auto simp: perform_def outcome_simps runCommand_def sprintf_def a_emit_def vtysh_call_def split: if_splits)

lemma doAction_perform:
  assumes "doAction s a = Ret (r, b)"
  shows "\<exists>c kv act. action_of c kv = Ret act \<and> perform act a = Ret (r, b)"
proof -
  have run: "(case act of Done r \<Rightarrow> Ret (r, a) | Line line \<Rightarrow> obind (runCommand line a) (\<lambda>(ok_flag, a).
      if ok_flag then Ret (True, a_emit (Run ''/usr/bin/qrwg/vtysh -e \"write\"'') a) else Ret (True, a))) = perform act a" for act
    by (auto simp: perform_def runCommand_def sprintf_def split: action.split)
  show ?thesis using assms unfolding doAction_def run by (auto simp: obind_eq_Ret_iff)
qed

lemma sendMessage_events:
  assumes "sendMessage nt c res a = (r, b)" and "c_isConnected c"
  shows "b = a\<lparr>a_trace := a_trace a @ [Sent (c_sockfd c) (''cmd:='' @ (if res = ''OK'' then ''OK'' else ''NOK'') @ NL)]\<rparr>"
  using assms by (auto simp: sendMessage_def sendToClient_def client_send_def Let_def a_emit_def split: if_splits)

lemma incoming_exchange:
  assumes "incoming_basedSocket nt c msg a = Ret (r, b)" and "c_isConnected c"
  shows "\<exists>es. b = a\<lparr>a_trace := a_trace a @ es\<rparr> \<and> exchange (c_sockfd c) es"
proof -
  from assms consider ok x where "doAction (cstr msg) a = Ret (ok, x)" "sendMessage nt c (if ok then ''OK'' else ''NOK'') x = (r, b)"
    | res where "sendMessage nt c res a = (r, b)"
    by (auto simp: incoming_basedSocket_def obind_eq_Ret_iff Let_def send_OK_def send_NOK_def split: if_splits)
  then show ?thesis
  proof cases
    case 1
    from doAction_perform [OF 1(1)] obtain kind kv act where
      act: "action_of kind kv = Ret act" "perform act a = Ret (ok, x)" by blast
    from perform_events [OF act(2)] show ?thesis
    proof (elim disjE exE conjE)
      fix line
      assume line: "ok = True" "act = Line line" "length (vtysh_call line) < 256"
        "x = a\<lparr>a_trace := a_trace a @ [Run (vtysh_call line), Run (vtysh_call ''write'')]\<rparr>"
      let ?es = "[Run (vtysh_call line), Run (vtysh_call ''write''), Sent (c_sockfd c) (''cmd:=OK'' @ NL)]"
      have "exchange (c_sockfd c) ?es" using act(1) line(2,3) by (intro exchange.obey) auto
      moreover have "b = a\<lparr>a_trace := a_trace a @ ?es\<rparr>"
        using sendMessage_events [OF 1(2) assms(2)] line(1,4) by simp
      ultimately show ?thesis by blast
    next
      assume "act = Done ok" "x = a"
      then have "b = a\<lparr>a_trace := a_trace a @ [Sent (c_sockfd c) (''cmd:='' @ (if ok then ''OK'' else ''NOK'') @ NL)]\<rparr>"
        using sendMessage_events [OF 1(2) assms(2)] by simp
      moreover have "exchange (c_sockfd c) [Sent (c_sockfd c) (''cmd:='' @ (if ok then ''OK'' else ''NOK'') @ NL)]"
        by (rule exchange.answer) simp
      ultimately show ?thesis by blast
    qed
  next
    case 2
    have "exchange (c_sockfd c) [Sent (c_sockfd c) (''cmd:='' @ (if res = ''OK'' then ''OK'' else ''NOK'') @ NL)]"
      by (rule exchange.answer) simp
    with sendMessage_events [OF 2 assms(2)] show ?thesis by blast
  qed
qed

text \<open>The agent has one observer, which hears local clients only.\<close>

lemma publish_observer:
  assumes "publishSingleClientMsg nt c msg a = Ret b" and "a_subscribers a = [observer]" and "c_isConnected c"
  shows "\<exists>es. b = a\<lparr>a_trace := a_trace a @ es\<rparr> \<and> exchange (c_sockfd c) es \<and> (c_ip c \<noteq> ''127.0.0.1'' \<longrightarrow> es = [])"
proof (cases "c_ip c = ''127.0.0.1''")
  case True
  with assms(1,2) obtain r where "incoming_basedSocket nt c msg a = Ret (r, b)"
    by (auto simp: publishSingleClientMsg_def observer_def call_handler_def outcome_simps)
  from incoming_exchange [OF this assms(3)] True show ?thesis by blast
next
  case False
  with assms(1,2) have "b = a" by (auto simp: publishSingleClientMsg_def observer_def)
  then show ?thesis by (intro exI [of _ "[]"]) (simp add: exchange.quiet)
qed

lemma receive_exchange:
  assumes "receiveTask nt i selectRet recvRet m a = Ret b" and "a_subscribers a = [observer]"
  shows "i < length (a_clients a) \<and> a_subscribers b = [observer] \<and> (\<exists>es. a_trace b = a_trace a @ es \<and>
    exchange (c_sockfd (a_clients a ! i)) es \<and> (c_ip (a_clients a ! i) \<noteq> ''127.0.0.1'' \<longrightarrow> es = []))"
proof -
  have i: "i < length (a_clients a)" using assms(1) by (auto simp: receiveTask_def vec_at_def outcome_simps split: if_splits)
  from assms consider "a_trace b = a_trace a" "a_subscribers b = a_subscribers a"
    | "publishSingleClientMsg nt (a_clients a ! i) (cstr m) a = Ret b" "c_isConnected (a_clients a ! i)"
    by (auto simp: receiveTask_def vec_at_def outcome_simps clientEventHandler_def publishClientDisconnected_def set_client_def
        Let_def split: if_splits wait_result.splits)
  then show ?thesis
  proof cases
    case 1
    with i assms(2) exchange.quiet show ?thesis by auto
  next
    case 2
    from publish_observer [OF 2(1) assms(2) 2(2)] i assms(2) show ?thesis by auto
  qed
qed

lemma remove_dead_keeps:
  "remove_dead nt n a = Ret b \<Longrightarrow> a_subscribers b = a_subscribers a \<and> (\<exists>fds. a_trace b = a_trace a @ map Closed fds)"
proof (induction nt n a rule: remove_dead.induct)
  case (1 nt n a)
  show ?case
  proof (cases "filter (\<lambda>i. \<not> c_isConnected (a_clients a ! i)) [0..<length (a_clients a)]")
    case Nil
    with "1.prems" show ?thesis by (subst (asm) remove_dead.simps) (auto intro: exI [of _ "[]"])
  next
    case (Cons i "is")
    obtain k where k: "n = Suc k" using "1.prems" Cons by (cases n) (subst (asm) remove_dead.simps, simp)+
    let ?x = "(a_emit (Closed (c_sockfd (a_clients a ! i))) a)\<lparr>a_clients := take i (a_clients a) @ drop (Suc i) (a_clients a)\<rparr>"
    have b: "remove_dead nt k ?x = Ret b" "n_close nt (a_trace a) (c_sockfd (a_clients a ! i)) \<noteq> - 1"
      using "1.prems" Cons k by (subst (asm) remove_dead.simps, auto simp: client_close_def a_emit_def split: if_splits)+
    have "a_subscribers b = a_subscribers ?x \<and> (\<exists>fds. a_trace b = a_trace ?x @ map Closed fds)"
      using "1.IH" [OF Cons k, of _ False "a_emit (Closed (c_sockfd (a_clients a ! i))) a"] b
      by (simp add: client_close_def a_emit_def)
    then obtain fds where "a_subscribers b = a_subscribers a" "a_trace b = a_trace a @ map Closed (c_sockfd (a_clients a ! i) # fds)"
      by (auto simp: a_emit_def)
    then show ?thesis by blast
  qed
qed

lemma agent_step_events:
  assumes "agent_step nt who a b" and "a_subscribers a = [observer]"
  shows "a_subscribers b = [observer] \<and> (\<exists>es. a_trace b = a_trace a @ es \<and>
    (case who of None \<Rightarrow> \<exists>fds. es = map Closed fds
     | Some i \<Rightarrow> i < length (a_clients a) \<and> exchange (c_sockfd (a_clients a ! i)) es \<and>
         (c_ip (a_clients a ! i) \<noteq> ''127.0.0.1'' \<longrightarrow> es = [])))"
  using assms
proof (cases rule: agent_step.cases)
  case (accept selectRet r)
  then have "a_trace b = a_trace a \<and> a_subscribers b = a_subscribers a"
    by (auto simp: acceptClient_def Let_def split: if_splits prod.splits)
  with accept assms(2) show ?thesis by (auto intro: exI [of _ "[]"])
next
  case (receive i selectRet recvRet m)
  with receive_exchange [OF receive(2) assms(2)] show ?thesis by auto
next
  case sweep
  with remove_dead_keeps [of nt "length (a_clients a)" a b] assms(2) show ?thesis
    by (cases "a_stopRemoveClientsTask a") (auto simp: removeDeadClients_def intro: exI [of _ "[]"])
qed

lemma agent_reachable_observer: "agent_reachable nt a \<Longrightarrow> a_subscribers a = [observer]"
proof (induction rule: agent_reachable.induct)
  case (boot args a)
  then obtain r x where "start nt 51821 5 new_server = (r, x)" "a = subscribe observer x"
    unfolding web_main_def by (auto simp: Let_def simp del: hashMagic.simps split: list.splits if_splits prod.splits)
  then show ?case by (auto simp: start_def new_server_def subscribe_def Let_def split: if_splits)
next
  case (step a who b)
  with agent_step_events show ?case by blast
qed

section \<open>Properties\<close>

text \<open>
  C5. The web agent obeys local clients only. Whatever state the threads of the agent have reached, and
  whatever step one of them makes next: the thread of a client whose address is not 127.0.0.1 runs no
  command and sends nothing, whatever the client says. The thread of a local client sends answers to
  this client only, and for one message it runs at most two commands, \<open>vtysh -e\<close> with a line of
  one of the forms of the \<open>switch\<close> in \<open>doAction\<close> that fits the buffer, and
  \<open>vtysh -e "write"\<close>. The other threads only close sockets. What the shell of the system makes
  of the line is not part of this: the values of the message are in it as they are.
\<close>

theorem agent_serves_local_clients:
  assumes "agent_reachable nt a" and "agent_step nt who a b"
  shows "\<exists>es. a_trace b = a_trace a @ es \<and>
    (case who of
       None \<Rightarrow> \<exists>fds. es = map Closed fds
     | Some i \<Rightarrow> i < length (a_clients a) \<and> exchange (c_sockfd (a_clients a ! i)) es \<and>
         (c_ip (a_clients a ! i) \<noteq> ''127.0.0.1'' \<longrightarrow> es = []))"
  using agent_step_events [OF assms(2) agent_reachable_observer [OF assms(1)]] by blast

text \<open>A network for the witnesses: every call succeeds, and clients come from the address given.\<close>

definition sample_net :: "string \<Rightarrow> net" where
  "sample_net ip = \<lparr>n_socket = 3, n_bind = \<lambda>_ _. 0, n_listen = \<lambda>_ _. 0, n_accept = \<lambda>_. (4, ip),
     n_send = \<lambda>_ _ m. int (length m), n_close = \<lambda>_ _. 0, n_daemon = 0, n_strerror = ''error''\<rparr>"

definition sample_agent :: "string \<Rightarrow> agent" where
  "sample_agent ip = \<lparr>a_sockfd = 3, a_clients = [\<lparr>c_sockfd = 4, c_ip = ip, c_isConnected = True\<rparr>],
     a_subscribers = [observer], a_stopRemoveClientsTask = False, a_flagTerminate = False, a_trace = []\<rparr>"

lemma sample_agent_reachable: "agent_reachable (sample_net ip) (sample_agent ip)"
proof -
  let ?a = "\<lparr>a_sockfd = 3, a_clients = [], a_subscribers = [observer], a_stopRemoveClientsTask = False,
      a_flagTerminate = False, a_trace = []\<rparr>"
  have h: "hashMagic ''-f'' \<noteq> hashMagic ''-v''" "hashMagic ''-f'' \<noteq> hashMagic ''--version''"
    "hashMagic ''-f'' \<noteq> hashMagic ''-d''" "hashMagic ''-f'' \<noteq> hashMagic ''--daemon''"
    by (simp_all add: chr_code_def)
  have "start (sample_net ip) 51821 5 new_server = (success, new_server\<lparr>a_sockfd := 3\<rparr>)"
    by (simp add: start_def sample_net_def)
  then have "web_main (sample_net ip) [''-f''] = Ret ?a"
    using h by (simp add: web_main_def Let_def new_server_def subscribe_def success_def del: hashMagic.simps)
  then have "agent_reachable (sample_net ip) ?a" by (rule agent_reachable.boot)
  moreover have "acceptClient (sample_net ip) 0 1 ?a = (Inr ip, sample_agent ip)"
    by (simp add: acceptClient_def waitForClient_def success_def sample_net_def new_client_def startListen_def sample_agent_def)
  then have "agent_step (sample_net ip) None ?a (sample_agent ip)" by (rule agent_step.accept)
  ultimately show ?thesis by (rule agent_reachable.step)
qed

theorem agent_serves_local_clients_witness:
  "\<exists>b. receiveTask (sample_net ''10.0.0.7'') 0 1 11 (''cmd:=HELLO'' @ NL @ [CHR 0x00]) (sample_agent ''10.0.0.7'') = Ret b \<and>
     a_trace b = []"
proof -
  let ?a = "sample_agent ''10.0.0.7''" and ?m = "''cmd:=HELLO'' @ NL @ [CHR 0x00]"
  have "\<exists>b. receiveTask (sample_net ''10.0.0.7'') 0 1 11 ?m ?a = Ret b"
    by (simp add: receiveTask_def vec_at_def sample_agent_def waitFor_def Let_def clientEventHandler_def
        publishSingleClientMsg_def observer_def NL_def)
  then obtain b where b: "receiveTask (sample_net ''10.0.0.7'') 0 1 11 ?m ?a = Ret b" by blast
  then have "agent_step (sample_net ''10.0.0.7'') (Some 0) ?a b" by (rule agent_step.receive)
  from agent_serves_local_clients [OF sample_agent_reachable this] have "a_trace b = a_trace ?a"
    by (auto simp: sample_agent_def)
  with b show ?thesis by (auto simp: sample_agent_def)
qed

text \<open>
  C11. How a message is decoded: the message of up to 16 fields, as the web pages write it, makes the
  agent run the command line of its subcommand with the values of the fields and then
  \<open>vtysh -e "write"\<close>, or return at once where the subcommand has no command line. Neither the
  names of the fields nor anything else in the message plays a role. A name or value may contain colons,
  but no newline and, in a value, no second \<open>:=\<close>.
\<close>

theorem doAction_message:
  assumes "value_ok name" and "fields_ok fs"
  shows "doAction (message name fs) a =
    obind (action_of (map_of vtysh_cmd name) (field_values fs)) (\<lambda>act. perform act a)"
  using assms by (rule doAction_decodes)

theorem doAction_message_witness:
  "doAction (message ''SET_HOST_NAME'' [(''hostname'', ''gw'')]) new_server =
     Ret (True, new_server\<lparr>a_trace := [Run ''/usr/bin/qrwg/vtysh -e \"hostname gw\"'', Run ''/usr/bin/qrwg/vtysh -e \"write\"'']\<rparr>)"
proof -
  have "value_ok ''SET_HOST_NAME''" "fields_ok [(''hostname'', ''gw'')]"
    by (simp_all add: value_ok_def fields_ok_def field_ok_def sublist_code)
  from doAction_message [OF this, of new_server] show ?thesis
    by (simp add: vtysh_cmd_def field_values_def action_of_def scmd_def sprintf_def perform_def runCommand_def a_emit_def new_server_def)
qed

text \<open>
  C12. Addresses with a prefix length: for a dotted address and a prefix length from 1 to 30,
  \<open>getIPNetmask\<close> writes no more than its buffers hold and gives the address as it was written
  and the four bytes of the mask with that many leading ones.
\<close>

theorem getIPNetmask_mask:
  assumes "list_all (\<lambda>b. b \<le> 255) [a, b, c, d]" and "1 \<le> m" and "m \<le> 30"
  shows "\<exists>bs. getIPNetmask (inet_ntoa [a, b, c, d] @ ''/'' @ string_of_nat m) =
      Ret (Some (inet_ntoa [a, b, c, d], inet_ntoa bs)) \<and>
    length bs = 4 \<and> list_all (\<lambda>b. b \<le> 255) bs \<and> bytes_val bs = 2 ^ 32 - 2 ^ (32 - m)"
proof -
  have "int m \<in> set [1..30]" using assms(2,3) by simp
  with netmask_bytes_all have nb: "list_all (\<lambda>b. b \<le> 255) (netmask_bytes (int m)) \<and> length (netmask_bytes (int m)) = 4 \<and>
      bytes_val (netmask_bytes (int m)) = 2 ^ 32 - 2 ^ nat (32 - int m)"
    unfolding list_all_iff by blast
  moreover have "nat (32 - int m) = 32 - m" by simp
  ultimately show ?thesis using getIPNetmask_dotted [OF assms] by (intro exI [of _ "netmask_bytes (int m)"]) simp
qed

theorem getIPNetmask_mask_witness:
  "\<exists>bs. getIPNetmask ''10.1.0.1/24'' = Ret (Some (''10.1.0.1'', inet_ntoa bs)) \<and> length bs = 4 \<and>
     bytes_val bs = 2 ^ 32 - 2 ^ (32 - 24)"
proof -
  have "inet_ntoa [10, 1, 0, 1] = ''10.1.0.1''" "string_of_nat 24 = ''24''" by code_simp+
  with getIPNetmask_mask [of 10 1 0 1 24] show ?thesis by auto
qed

text \<open>
  C14. The pass that removes dead clients ends, whatever the list of clients is: if no socket fails to
  close, the clients that are left are exactly the connected ones in their order, and every other client
  was closed exactly once, in order.
\<close>

theorem removeDeadClients_terminates:
  assumes "\<And>tr fd. n_close nt tr fd \<noteq> - 1" and "\<not> a_stopRemoveClientsTask a"
  shows "removeDeadClients nt a = Ret (a\<lparr>a_clients := filter c_isConnected (a_clients a),
     a_trace := a_trace a @ map (\<lambda>c. Closed (c_sockfd c)) (filter (\<lambda>c. \<not> c_isConnected c) (a_clients a))\<rparr>)"
  using remove_dead_swept [OF assms(1), of a "length (a_clients a)"] assms(2)
  by (simp add: removeDeadClients_def swept_def)

theorem removeDeadClients_terminates_witness:
  "removeDeadClients (sample_net []) ((sample_agent [])\<lparr>a_clients := [\<lparr>c_sockfd = 4, c_ip = [], c_isConnected = False\<rparr>]\<rparr>) =
     Ret ((sample_agent [])\<lparr>a_clients := [], a_trace := [Closed 4]\<rparr>)"
  using removeDeadClients_terminates
    [of "sample_net []" "(sample_agent [])\<lparr>a_clients := [\<lparr>c_sockfd = 4, c_ip = [], c_isConnected = False\<rparr>]\<rparr>"]
  by (simp add: sample_net_def sample_agent_def)

text \<open>
  C17. A failed \<open>send\<close> is not noticed: its result -1, converted to \<open>size_t\<close>, is neither
  negative nor less than the size of the message. So \<open>send_OK\<close> and \<open>send_NOK\<close> report
  success although nothing was sent.
\<close>

theorem send_failure_unnoticed:
  assumes "c_isConnected c" and "\<And>m. n_send nt (a_trace a) (c_sockfd c) m = - 1"
  shows "fst (send_OK nt c a) \<and> fst (send_NOK nt c a)"
  using assms
  by (simp add: send_OK_def send_NOK_def sendMessage_def sendToClient_def client_send_def Let_def NL_def success_def)

theorem send_failure_unnoticed_witness:
  "fst (send_OK ((sample_net [])\<lparr>n_send := \<lambda>_ _ _. - 1\<rparr>) (startListen (new_client 4)) new_server)"
  using send_failure_unnoticed [of "startListen (new_client 4)" "(sample_net [])\<lparr>n_send := \<lambda>_ _ _. - 1\<rparr>" new_server]
  by (simp add: startListen_def)

end
