(* ===== verification/Spec2Isabelle.thy ===== *)
theory Spec2Isabelle
  imports Encoding Eval_Mode Web_Protocol
begin

text \<open>
  The command shell of the quantum-resistant WireGuard gateway (\<open>src/wgshell/vtysh\<close>) and
  the web agent that drives it (\<open>src/webagent/cpp\<close>).

  \<^bold>\<open>The program.\<close> \<open>vtysh\<close> reads lines, from a terminal, from its option
  \<open>-e\<close>, or from the configuration file, and executes them. A line is split into words, the
  words are compared with the specifications of the commands of the current node (view, enable,
  configuration), and the handler of the one command that is left is called with the words that stand at
  its variables. Handlers change the running configuration, a sorted list of lines, and run programs of
  the system with \<open>system\<close>. The configuration is written to a file and loaded from it line by
  line with the strict filter. The web agent takes messages of the web pages from a TCP socket and starts
  \<open>vtysh -e\<close> with the command line they stand for.

  \<^bold>\<open>The theories,\<close> in the order of their imports.
  \<^item> \<open>C_Base\<close>: the outcome of C code (a value, the end of the process, or undefined), C
    strings and the functions of the C library; the locale \<open>bounded_simulation\<close> for refinements.
  \<^item> \<open>Vector\<close> (\<open>vector.c\<close>) and \<open>Link_List\<close> (\<open>linklist.c\<close>): the
    growing array and the doubly linked list on an explicit heap of nodes, each an interpretation of
    \<open>bounded_simulation\<close> against lists.
  \<^item> \<open>Encoding\<close> (\<open>encoding.c\<close>): base64 and hex keys on 8 and 32 bit words.
  \<^item> \<open>Cmd_Tokens\<close>, \<open>Cmd_Match\<close>, \<open>Cmd_Engine\<close> (\<open>command.c\<close>):
    splitting lines and specifications; the matchers of single words and the two filters; nodes,
    installing, sorting, finding, executing, describing and completing commands.
  \<^item> \<open>Config_Store\<close> (\<open>vtysh_config.c\<close>): the configuration on the linked list, and the
    sorted list of lines that it refines and that the handlers use.
  \<^item> \<open>Shell_State\<close> (\<open>command.h\<close>, \<open>vty.c\<close>): the state of the shell, the
    environment, the statements of handlers; the locales \<open>step_rel\<close>, \<open>effect_rel\<close> and
    \<open>config_rel\<close> for relations that every statement respects.
  \<^item> \<open>Cmd_Bridge\<close>, \<open>Cmd_Common\<close>, \<open>Cmd_Tool\<close>, \<open>Cmd_Ip\<close>,
    \<open>Cmd_Firewall\<close>, \<open>Cmd_Vpn\<close> (\<open>cmd/*.c\<close>): every compiled handler and command
    element. \<open>Cmd_Table\<close> (\<open>cmd_init.c\<close>) installs them: 94 commands.
  \<^item> \<open>Vtysh\<close> (\<open>vtysh.c\<close>, \<open>vtysh_main.c\<close>): executing a line, the password
    prompt, loading a file, prompt, help, completion, and the main program.
  \<^item> \<open>Session\<close>: what every line keeps of the state, the reachable states, and the nodes.
    \<open>Line_Lookup\<close>: which command a line with arguments finds, for both filters, which interpret its
    locale \<open>item_filter\<close>. \<open>Restore\<close>: settings as stored lines, and that a saved configuration
    is restored. \<open>Handlers\<close>: what single handlers accept and do. \<open>Eval_Mode\<close>: the shell with
    the option \<open>-e\<close> and the line of a peer.
  \<^item> \<open>Web_Agent\<close> (\<open>vtyshell.cpp\<close>, \<open>server.cpp\<close>, \<open>client.cpp\<close>,
    \<open>main.cpp\<close>): the web agent; \<open>Web_Protocol\<close>: its properties, the steps of its threads and
    its reachable states. This theory joins the two programs; \<open>/bin/sh\<close> and \<open>getopt_long\<close>,
    which stand between them, are parameters with what is relied on as hypotheses.

  \<^bold>\<open>State and operations.\<close> \<open>struct cmd_node\<close>, \<open>struct cmd_element\<close>,
  \<open>struct host\<close>, \<open>struct vty\<close> and the classes of the agent are records with the fields
  that matter; the global variables of the shell are the record \<open>shell\<close>. A function pointer of a
  command element is a constructor of \<open>command\<close>, and \<open>call\<close> is the dispatch. What the program does
  to the outside is a list of events (\<open>trace\<close>); what the outside answers is the parameter
  \<open>env\<close> (\<open>net\<close> for the agent), functions of the events so far. Every branch of a handler,
  with its early returns and its \<open>sprintf\<close> into buffers of fixed size, is in its definition.
  Undefined behaviour is the outcome \<open>Undef\<close>.

  \<^bold>\<open>What the theorems show.\<close> For the sessions: an invariant of all reachable states, that
  the view node gives no access to the configuration, that looking a line up is always defined and
  gives a handler the arguments it reads, that \<open>exit\<close> ends a session, and that a saved
  configuration is restored by the next start. For the interpreter: which command is executed, that
  keywords typed in full win over abbreviations, exactly which keywords completion offers. For the parsers and coders:
  exact characterisations and round trips. For the containers and the configuration store: refinement
  of lists under any sequence of operations. For the handlers: what is accepted, stored and run, and that
  a rejected command changes nothing; \<open>call_few\<close> and \<open>call_take\<close> show how many arguments
  each handler reads. For the web agent: only local clients are obeyed and answered, in whatever state its
  threads have reached, messages are decoded as they are written, the removal of dead clients ends, and a
  message for a peer leads, through the shell's own lookup, to exactly that line of the configuration file.
  The agent puts the values of a message into a command line of the system as they are, so the shell of the
  system may expand them; no theorem says that nothing else is run. Some theorems show behaviour that is not meant:
  the firewall rule that is never deleted, the failed \<open>send\<close> that is taken for a success, the
  count of \<open>listnode_add_after\<close>, the address prefixes with an early slash.

  \<^bold>\<open>Bounds and fuel.\<close> Lists of the C code are walked with the number of cells allocated so
  far as fuel, enough because no cell is visited twice (\<open>dll_length\<close>); removing dead clients has
  the number of clients as fuel, enough because each turn removes one. All other loops are recursions
  on what is left of a string or list. Integers are unbounded where the code cannot leave the range of
  \<open>int\<close> (lengths, counts); \<open>atoi\<close>, \<open>strtoul\<close> and \<open>stoi\<close> have their ranges
  written out, and bit operations are on words.

  \<^bold>\<open>Not modelled.\<close> Memory that runs out (\<open>memory.c\<close>) and the release of memory at the
  end; \<open>readline\<close>, whose headers are in the repository, and the three functions that only set its
  variables; the process helpers of \<open>command.c\<close> that fork and wait; signals; log messages; the
  agent in Go, which does the same as the one in C++; the web pages and scripts.
\<close>

section \<open>The web agent and the shell\<close>

text \<open>
  Between the two programs are \<open>/bin/sh\<close>, which the agent hands its command line to with
  \<open>system\<close>, and \<open>getopt_long\<close>, neither of them part of the repository: \<open>sh\<close> gives the
  words of a command line, the first of them the program, and \<open>getopt\<close> the options among them.
  What is relied on: a word in double quotes is passed on as it is if it has no character that is
  special there, and \<open>-e\<close> takes the word behind it.
\<close>

definition sh_plain :: "string \<Rightarrow> bool" where
  "sh_plain w \<longleftrightarrow> list_all (\<lambda>c. c \<notin> {CHR 0x22, CHR ''$'', CHR 0x60, CHR 0x5C, CHR 0x0A, CHR 0x00}) w"

definition sh_quotes :: "(string \<Rightarrow> string list) \<Rightarrow> bool" where
  "sh_quotes sh \<longleftrightarrow> (\<forall>q. sh_plain q \<longrightarrow> sh (vtysh_call q) = [''/usr/bin/qrwg/vtysh'', ''-e'', q])"

definition getopt_takes_e :: "(string list \<Rightarrow> (char \<times> string) list) \<Rightarrow> bool" where
  "getopt_takes_e getopt \<longleftrightarrow> (\<forall>p q. getopt [p, ''-e'', q] = [(CHR ''e'', q)])"

text \<open>The process for a command line \<open>c\<close>; \<open>cfg\<close> is the environment variable for the file.\<close>

definition run_vtysh :: "(string \<Rightarrow> string list) \<Rightarrow> (string list \<Rightarrow> (char \<times> string) list) \<Rightarrow> string option \<Rightarrow> env \<Rightarrow> string
    \<Rightarrow> (int option \<times> state) outcome" where
  "run_vtysh sh getopt cfg env c =
     obind (parse_options (getopt (sh c)) (default_options cfg)) (\<lambda>opts. main env opts [])"

lemma run_vtysh_line:
  assumes "sh_quotes sh" and "getopt_takes_e getopt" and "sh_plain line"
  shows "run_vtysh sh getopt cfg env (vtysh_call line) = main env ((default_options cfg)\<lparr>eval_line := Some line\<rparr>) []"
proof -
  have "getopt (sh (vtysh_call line)) = [(CHR ''e'', line)]"
    using assms by (simp add: sh_quotes_def getopt_takes_e_def)
  then show ?thesis by (simp add: run_vtysh_def)
qed

lemma no_colon: "CHR '':'' \<notin> set w \<Longrightarrow> \<not> sublist '':='' w"
  by (auto simp: sublist_def)

lemma word_ok_line: "word_ok w \<Longrightarrow> CHR 0x0A \<notin> set w"
proof -
  assume "word_ok w"
  then have "list_all (\<lambda>c. \<not> isspace c) w" by (simp add: word_ok_def plain_word_def list_all_iff)
  moreover have "isspace (CHR 0x0A)" by (simp add: isspace_def)
  ultimately show ?thesis unfolding list_all_iff by blast
qed

lemma sh_plain_append: "sh_plain (u @ v) \<longleftrightarrow> sh_plain u \<and> sh_plain v"
  by (simp add: sh_plain_def)

lemma peer_message:
  assumes "setting_ok (Peer k (Keepalive ips ep ''25''))" and "length (setting_line (Peer k (Keepalive ips ep ''25''))) < 200"
    and "\<not> sublist '':='' k" and "\<not> sublist '':='' ips" and "\<not> sublist '':='' ep"
  shows "doAction (message ''ADD_WIREGUARD_PEER'' [(''key0'', k), (''key1'', ips), (''key2'', ep)]) a = Ret (True,
      a\<lparr>a_trace := a_trace a @ [Run (vtysh_call (setting_line (Peer k (Keepalive ips ep ''25'')))), Run (vtysh_call ''write'')]\<rparr>)"
proof -
  let ?x = "Peer k (Keepalive ips ep ''25'')"
  have w: "list_all word_ok (setting_words ?x)" using assms(1) by (simp add: setting_ok_def)
  have nl: "CHR 0x0A \<notin> set k" "CHR 0x0A \<notin> set ips" "CHR 0x0A \<notin> set ep"
    using w(1) word_ok_line by simp_all
  have name: "value_ok ''ADD_WIREGUARD_PEER''" by (simp add: value_ok_def sublist_code)
  have fields: "fields_ok [(''key0'', k), (''key1'', ips), (''key2'', ep)]"
    using nl assms(3-5) by (simp add: fields_ok_def field_ok_def value_ok_def)
  have line: "''wg peer '' @ k @ '' allowed-ips '' @ ips @ '' endpoint '' @ ep @ '' persistent-keepalive 25'' = setting_line ?x"
    by (simp add: setting_line_def)
  have "action_of (Some ADD_WIREGUARD_PEER) (field_values [(''key0'', k), (''key1'', ips), (''key2'', ep)]) = Ret (Line (setting_line ?x))"
    using assms(2) unfolding line [symmetric] by (simp add: action_of_def field_values_def scmd_def sprintf_def)
  moreover have "map_of vtysh_cmd ''ADD_WIREGUARD_PEER'' = Some ADD_WIREGUARD_PEER" by code_simp
  ultimately show ?thesis
    unfolding doAction_decodes [OF name fields] using assms(2)
    by (simp add: perform_def runCommand_def sprintf_def a_emit_def vtysh_call_def)
qed

text \<open>
  C6. From the message of the web page to the stored peer. A message \<open>ADD_WIREGUARD_PEER\<close> whose
  fields make a valid peer of the shell, in a line that fits the buffer, without \<open>:=\<close>, a character
  that the system's shell expands between quotes, or an endpoint that abbreviates \<open>none\<close>, is
  answered with \<open>OK\<close> and makes the agent run two commands, the second to write the configuration.
  The process of the first, \<open>vtysh -e\<close>, loads the configuration file, which holds stored settings,
  looks the line up in the configuration node, sets the peer with \<open>wg set\<close>, and, the file being
  writable and the time known, ends with status 0. In its configuration the line of the message has taken the place of the first line of the same key,
  and this is what the configuration file holds in the end.
\<close>

theorem web_peer_stored:
  assumes "setting_ok (Peer k (Keepalive ips ep ''25''))"
    and "length (setting_line (Peer k (Keepalive ips ep ''25''))) < 200"
    and "\<not> sublist '':='' k" and "\<not> sublist '':='' ips" and "\<not> sublist '':='' ep"
    and "list_all sh_plain [k, ips, ep]" and "ep = ''none'' \<or> \<not> prefix ep ''none''"
    and "sh_quotes sh" and "getopt_takes_e getopt"
    and "file = config_file (default_options cfg)" and "stored_settings xs" and "time_ok ts0"
    and "\<And>tr. Open_w file \<notin> set tr \<Longrightarrow> e_read env tr file = Some (config_dump ts0 (map setting_line xs) (vector_init 1))"
    and "\<And>tr. e_open_w env tr file" and "\<And>tr. e_time env tr = Some ts"
    and "length (fst (e_build env)) + length (snd (e_build env)) < 1000"
  shows "\<exists>c t. doAction (message ''ADD_WIREGUARD_PEER'' [(''key0'', k), (''key1'', ips), (''key2'', ep)]) a =
      Ret (True, a\<lparr>a_trace := a_trace a @ [Run c, Run ''/usr/bin/qrwg/vtysh -e \"write\"'']\<rparr>) \<and>
    run_vtysh sh getopt cfg env c = Ret (Some 0, t) \<and>
    config_top t = lines_add (''wg peer '' @ k @ '' allowed-ips '' @ ips @ '' endpoint '' @ ep @ '' persistent-keepalive 25'')
      (lines_del_byleft (''wg peer '' @ k) (map setting_line xs)) \<and>
    written file (trace t) = config_dump ts (config_top t) (vector_init 1) \<and>
    System (''wg set wg0 private-key '' @ PRIVATEKEY_PATH @ '' peer '' @ k @ '' allowed-ips '' @ ips @ '' endpoint '' @ ep @
      '' persistent-keepalive 25 > /dev/null 2>&1'') \<in> set (trace t)"
proof -
  let ?o = "Keepalive ips ep ''25''" and ?opts = "(default_options cfg)\<lparr>eval_line :=
    Some (setting_line (Peer k (Keepalive ips ep ''25'')))\<rparr>"
  have line: "setting_line (Peer k ?o) = ''wg peer '' @ k @ '' allowed-ips '' @ ips @ '' endpoint '' @ ep @ '' persistent-keepalive 25''"
    by (simp add: setting_line_def)
  have "sh_plain (setting_line (Peer k ?o))"
    unfolding line using assms(6) by (simp add: sh_plain_append) (simp add: sh_plain_def)
  note run = run_vtysh_line [OF assms(8,9) this, of cfg env]
  have opts: "\<not> boot_flag ?opts" "eval_line ?opts = Some (setting_line (Peer k ?o))" "config_file ?opts = file"
    using assms(10) by (simp_all add: default_options_def)
  have "options_typed ?o" using assms(7) by (simp add: prefix_def)
  with main_eval_peer [OF opts(1,2) assms(16,11,12), of ts] obtain t where
    "main env ?opts [] = Ret (Some 0, t)"
    "config_top t = lines_add (setting_line (Peer k ?o)) (lines_del_byleft (''wg peer '' @ k) (map setting_line xs))"
    "written file (trace t) = config_dump ts (config_top t) (vector_init 1)"
    "System (''wg set wg0 private-key '' @ PRIVATEKEY_PATH @ '' peer '' @ k @ option_text ?o @ '' > /dev/null 2>&1'') \<in> set (trace t)"
    unfolding opts(3) using assms(1,13-15) by blast
  with run peer_message [OF assms(1-5), of a] show ?thesis unfolding line
    by (intro exI [of _ "vtysh_call (''wg peer '' @ k @ '' allowed-ips '' @ ips @ '' endpoint '' @ ep @ '' persistent-keepalive 25'')"]
      exI [of _ t]) (simp add: vtysh_call_def [of "''write''"])
qed

text \<open>For the witness: \<open>sh\<close> takes off the quotes of the last word, and there is one option.\<close>

definition sample_sh :: "string \<Rightarrow> string list" where
  "sample_sh c = [''/usr/bin/qrwg/vtysh'', ''-e'', butlast (drop 24 c)]"

definition sample_getopt :: "string list \<Rightarrow> (char \<times> string) list" where
  "sample_getopt argv = (case argv of [p, f, q] \<Rightarrow> [(f ! 1, q)] | _ \<Rightarrow> [])"

theorem web_peer_stored_witness:
  "\<exists>c t. doAction (message ''ADD_WIREGUARD_PEER'' [(''key0'', replicate 43 (CHR ''k'') @ ''=''), (''key1'', ''10.1.0.3/32''),
       (''key2'', ''192.168.1.3:51820'')]) new_server =
      Ret (True, new_server\<lparr>a_trace := [Run c, Run ''/usr/bin/qrwg/vtysh -e \"write\"'']\<rparr>) \<and>
    run_vtysh sample_sh sample_getopt None sample_env c = Ret (Some 0, t) \<and>
    written ''/qrwg/config/asmcli.conf'' (trace t) = config_dump ''now'' (config_top t) (vector_init 1)"
proof -
  let ?k = "replicate 43 (CHR ''k'') @ ''=''" and ?f = "''/qrwg/config/asmcli.conf''"
  let ?x = "Peer ?k (Keepalive ''10.1.0.3/32'' ''192.168.1.3:51820'' ''25'')"
  have 1: "setting_ok ?x"
    by (simp add: setting_ok_def setting_line_def word_ok_def plain_word_def VTY_BUFSIZ_def endpoint_valid_def
      keepalive_valid_def digit_first_def isdigit_def public_key_ok_def PUBLICKEY_MAX_LEN_def nth_append list_all_iff isspace_def
      atoi_def digit_val_def chr_code_def to_int32_def)
  have 2: "length (setting_line ?x) < 200" by (simp add: setting_line_def)
  have 3: "\<not> sublist '':='' ?k" "\<not> sublist '':='' ''10.1.0.3/32''" by (rule no_colon; simp)+
  have 4: "\<not> sublist '':='' ''192.168.1.3:51820''" by (simp add: sublist_code)
  have 5: "list_all sh_plain [?k, ''10.1.0.3/32'', ''192.168.1.3:51820'']" by (simp add: sh_plain_def list_all_iff)
  have 6: "''192.168.1.3:51820'' = ''none'' \<or> \<not> prefix ''192.168.1.3:51820'' ''none''" by simp
  have 7: "sh_quotes sample_sh" "getopt_takes_e sample_getopt"
    by (simp_all add: sh_quotes_def sample_sh_def vtysh_call_def getopt_takes_e_def sample_getopt_def)
  have 8: "?f = config_file (default_options None)" by (simp add: default_options_def CONFIG_DIR_def CONFIG_FILE_def)
  have 9: "time_ok ''now''" by (simp add: time_ok_def)
  have env: "e_read sample_env tr ?f = Some (config_dump ''now'' (map setting_line sample_settings) (vector_init 1))"
    "e_open_w sample_env tr ?f" "e_time sample_env tr = Some ''now''" for tr
    by (simp_all add: sample_env_def quiet_env_def)
  have "length (fst (e_build sample_env)) + length (snd (e_build sample_env)) < 1000"
    by (simp add: sample_env_def quiet_env_def)
  from web_peer_stored [OF 1 2 3 4 5 6 7 8 sample_settings_stored 9 env this, of new_server] show ?thesis
    by (auto simp: new_server_def)
qed

end
